(* ===== verification/Prelude.thy ===== *)
theory Prelude
  imports Complex_Main
    "HOL-Library.Word"
    "HOL-Library.Char_ord"
    "HOL-Library.List_Lexorder"
    "HOL-Library.Product_Lexorder"
    "HOL-Library.Signed_Division"
begin

unbundle bit_operations_syntax

text \<open>
  What the components share: the model of the Go values they compute with (64-bit integers,
  \<open>time.Time\<close>, \<open>time.Duration\<close>, strings as byte lists, maps read with a zero default,
  channels as bounded queues) and generic lemmas on lists, maps and counters.
\<close>

named_theorems go_simps \<open>unfolding rules of the Go runtime vocabulary\<close>

subsection \<open>Integers, durations and instants\<close>

text \<open>
  \<open>int\<close> and \<open>int64\<close> of a 64-bit Go build are two's complement; \<open>wrap64\<close> is the reduction
  every arithmetic result undergoes. It is written out where a value can leave the range.
\<close>

definition wrap64 :: "int \<Rightarrow> int" where
  "wrap64 x = signed_take_bit 63 x"

definition int64_range :: "int \<Rightarrow> bool" where
  "int64_range x \<longleftrightarrow> - (2 ^ 63) \<le> x \<and> x < 2 ^ 63"

lemma wrap64_id: "int64_range x \<Longrightarrow> wrap64 x = x"
  by (simp add: wrap64_def int64_range_def signed_take_bit_int_eq_self)

lemma wrap64_range: "int64_range (wrap64 x)"
  using signed_take_bit_int_greater_eq_minus_exp [of 63 x] signed_take_bit_int_less_exp [of 63 x]
  by (simp add: wrap64_def int64_range_def)

text \<open>
  A \<open>time.Duration\<close> is a number of nanoseconds (an \<open>int64\<close>). A \<open>time.Time\<close> is the number
  of nanoseconds since the zero instant, January 1 of year 1, which \<open>IsZero\<close> tests; its
  seconds are an \<open>int64\<close>, so adding a duration does not overflow. \<open>Sub\<close> saturates.
\<close>

type_synonym duration = int
type_synonym gotime = int

abbreviation (input) Millisecond :: duration where "Millisecond \<equiv> 1000000"
abbreviation (input) Second :: duration where "Second \<equiv> 1000000000"

definition IsZero :: "gotime \<Rightarrow> bool" where
  "IsZero t \<longleftrightarrow> t = 0"

definition tAdd :: "gotime \<Rightarrow> duration \<Rightarrow> gotime" where
  "tAdd t d = t + d"

definition tAfter :: "gotime \<Rightarrow> gotime \<Rightarrow> bool" where
  "tAfter t u \<longleftrightarrow> u < t"

definition tBefore :: "gotime \<Rightarrow> gotime \<Rightarrow> bool" where
  "tBefore t u \<longleftrightarrow> t < u"

definition tSub :: "gotime \<Rightarrow> gotime \<Rightarrow> duration" where
  "tSub t u = max (- (2 ^ 63)) (min (2 ^ 63 - 1) (t - u))"

declare IsZero_def [go_simps] tAdd_def [go_simps] tAfter_def [go_simps] tBefore_def [go_simps]

lemma tSub_range: "int64_range (tSub t u)"
  by (auto simp: tSub_def int64_range_def)

lemma tSub_exact: "\<bar>t - u\<bar> < 2 ^ 63 \<Longrightarrow> tSub t u = t - u"
  by (auto simp: tSub_def)

text \<open>Go's integer division truncates towards zero.\<close>

definition quot64 :: "int \<Rightarrow> int \<Rightarrow> int" where
  "quot64 a b = a sdiv b"

lemma quot64_nonneg: "0 \<le> a \<Longrightarrow> 0 < b \<Longrightarrow> quot64 a b = a div b"
  by (cases "a = 0") (simp_all add: quot64_def signed_divide_int_eq_divide_int)

subsection \<open>Maps with a zero default\<close>

text \<open>Reading an absent key of a Go \<open>map[K]int\<close> gives zero.\<close>

definition cget :: "('k \<rightharpoonup> int) \<Rightarrow> 'k \<Rightarrow> int" where
  "cget m k = (case m k of None \<Rightarrow> 0 | Some v \<Rightarrow> v)"

lemma cget_simps [simp]:
  "cget Map.empty k = 0"
  "cget (m(k \<mapsto> v)) k = v"
  "j \<noteq> k \<Longrightarrow> cget (m(k \<mapsto> v)) j = cget m j"
  "j \<noteq> k \<Longrightarrow> cget (m(k := None)) j = cget m j"
  "cget (m(k := None)) k = 0"
  by (simp_all add: cget_def)

lemma cget_upd: "cget (m(k \<mapsto> v)) j = (if j = k then v else cget m j)"
  by (simp add: cget_def)

lemma cget_del: "cget (m(k := None)) j = (if j = k then 0 else cget m j)"
  by (simp add: cget_def)

subsection \<open>Strings\<close>

text \<open>
  A Go string is a sequence of bytes. \<open>strings.TrimSpace\<close> removes the leading and trailing
  runes for which \<open>unicode.IsSpace\<close> holds; these are their UTF-8 encodings.
\<close>

definition space_runes :: "string list" where
  "space_runes =
     [[CHR 0x09], [CHR 0x0A], [CHR 0x0B], [CHR 0x0C], [CHR 0x0D], [CHR 0x20],
      [CHR 0xC2, CHR 0x85], [CHR 0xC2, CHR 0xA0], [CHR 0xE1, CHR 0x9A, CHR 0x80],
      [CHR 0xE2, CHR 0x80, CHR 0x80], [CHR 0xE2, CHR 0x80, CHR 0x81],
      [CHR 0xE2, CHR 0x80, CHR 0x82], [CHR 0xE2, CHR 0x80, CHR 0x83],
      [CHR 0xE2, CHR 0x80, CHR 0x84], [CHR 0xE2, CHR 0x80, CHR 0x85],
      [CHR 0xE2, CHR 0x80, CHR 0x86], [CHR 0xE2, CHR 0x80, CHR 0x87],
      [CHR 0xE2, CHR 0x80, CHR 0x88], [CHR 0xE2, CHR 0x80, CHR 0x89],
      [CHR 0xE2, CHR 0x80, CHR 0x8A], [CHR 0xE2, CHR 0x80, CHR 0xA8],
      [CHR 0xE2, CHR 0x80, CHR 0xA9], [CHR 0xE2, CHR 0x80, CHR 0xAF],
      [CHR 0xE2, CHR 0x81, CHR 0x9F], [CHR 0xE3, CHR 0x80, CHR 0x80]]"

text \<open>\<open>dropRunes ps s\<close> removes encodings of \<open>ps\<close> from the front of \<open>s\<close> as long as one fits.\<close>

function dropRunes :: "string list \<Rightarrow> string \<Rightarrow> string" where
  "dropRunes ps s =
     (case find (\<lambda>p. p \<noteq> [] \<and> take (length p) s = p) ps of
        None \<Rightarrow> s
      | Some p \<Rightarrow> dropRunes ps (drop (length p) s))"
  by pat_completeness auto
termination
proof (relation "measure (\<lambda>(ps, s). length s)", goal_cases)
  case 1
  show ?case by simp
next
  case (2 ps s p)
  then have p: "p \<noteq> []" "take (length p) s = p"
    by (auto simp: find_Some_iff)
  then have "s \<noteq> []"
    by auto
  with p show ?case by auto
qed

declare dropRunes.simps [simp del]

definition TrimSpace :: "string \<Rightarrow> string" where
  "TrimSpace s = rev (dropRunes (map rev space_runes) (rev (dropRunes space_runes s)))"

text \<open>\<open>strings.Trim(s, cutset)\<close> for a cutset of ASCII characters.\<close>

definition TrimSet :: "string \<Rightarrow> string \<Rightarrow> string" where
  "TrimSet s cutset = rev (dropWhile (\<lambda>c. c \<in> set cutset) (rev (dropWhile (\<lambda>c. c \<in> set cutset) s)))"

lemma length_dropRunes: "length (dropRunes ps s) \<le> length s"
proof (induction ps s rule: dropRunes.induct)
  case (1 ps s)
  then show ?case
    by (subst dropRunes.simps) (auto split: option.splits)
qed

lemma length_TrimSpace: "length (TrimSpace s) \<le> length s"
proof -
  have "length (TrimSpace s) \<le> length (dropRunes space_runes s)"
    by (simp add: TrimSpace_def) (metis length_dropRunes length_rev)
  also have "\<dots> \<le> length s" by (rule length_dropRunes)
  finally show ?thesis .
qed

lemma TrimSpace_Nil [simp]: "TrimSpace [] = []"
  using length_TrimSpace [of "[]"] by simp

text \<open>Strings that neither start nor end with a byte of a space rune are not trimmed.\<close>

lemma dropRunes_id:
  assumes "\<And>p. p \<in> set ps \<Longrightarrow> p \<noteq> [] \<Longrightarrow> s = [] \<or> hd p \<noteq> hd s"
  shows "dropRunes ps s = s"
proof -
  have "find (\<lambda>p. p \<noteq> [] \<and> take (length p) s = p) ps = None"
  proof (rule ccontr)
    assume "find (\<lambda>p. p \<noteq> [] \<and> take (length p) s = p) ps \<noteq> None"
    then obtain p where p: "p \<in> set ps" "p \<noteq> []" "take (length p) s = p"
      by (auto simp: find_None_iff)
    then have "s \<noteq> []" by auto
    moreover have "hd s = hd p" using p hd_take [of "length p" s] by auto
    ultimately show False using assms p by auto
  qed
  then show ?thesis by (subst dropRunes.simps) simp
qed

definition plain_char :: "char \<Rightarrow> bool" where
  "plain_char c \<longleftrightarrow> 32 < (of_char c :: nat) \<and> (of_char c :: nat) < 128"

lemma space_runes_not_plain:
  "p \<in> set space_runes \<Longrightarrow> \<not> plain_char (hd p) \<and> \<not> plain_char (last p)"
proof -
  have "list_all (\<lambda>p. \<not> plain_char (hd p) \<and> \<not> plain_char (last p)) space_runes"
    by (simp add: space_runes_def plain_char_def)
  then show "p \<in> set space_runes \<Longrightarrow> \<not> plain_char (hd p) \<and> \<not> plain_char (last p)"
    by (simp add: list_all_iff)
qed

lemma TrimSpace_id:
  assumes "s = [] \<or> plain_char (hd s) \<and> plain_char (last s)"
  shows "TrimSpace s = s"
proof -
  have "s = [] \<or> hd p \<noteq> hd s" if "p \<in> set space_runes" for p
    using assms space_runes_not_plain [OF that] by metis
  then have "dropRunes space_runes s = s"
    by (intro dropRunes_id) auto
  moreover have "rev s = [] \<or> hd p \<noteq> hd (rev s)" if "p \<in> set (map rev space_runes)" for p
    using assms space_runes_not_plain [of "rev p"] that by (auto simp: hd_rev last_rev)
  then have "dropRunes (map rev space_runes) (rev s) = rev s"
    by (intro dropRunes_id) auto
  ultimately show ?thesis by (simp add: TrimSpace_def)
qed

subsection \<open>Decimal integers\<close>

definition digit_char :: "nat \<Rightarrow> char" where
  "digit_char n = char_of (48 + n)"

definition is_digit :: "char \<Rightarrow> bool" where
  "is_digit c \<longleftrightarrow> 48 \<le> (of_char c :: nat) \<and> (of_char c :: nat) \<le> 57"

definition digit_val :: "char \<Rightarrow> int" where
  "digit_val c = int (of_char c) - 48"

fun digits_val :: "int \<Rightarrow> string \<Rightarrow> int option" where
  "digits_val acc [] = Some acc"
| "digits_val acc (c # cs) = (if is_digit c then digits_val (10 * acc + digit_val c) cs else None)"

text \<open>
  \<open>strconv.Atoi\<close>: an optional sign and at least one decimal digit, and an error (here \<open>None\<close>)
  also when the value does not fit an \<open>int64\<close>. \<open>strconv.Itoa\<close> is the shortest decimal form.
\<close>

definition Atoi :: "string \<Rightarrow> int option" where
  "Atoi s =
     (let (sgn', ds) = (case s of [] \<Rightarrow> (1, [])
                        | c # cs \<Rightarrow> if c = CHR ''-'' then (- 1, cs)
                                    else if c = CHR ''+'' then (1, cs) else (1, s))
      in if ds = [] then None
         else case digits_val 0 ds of
                None \<Rightarrow> None
              | Some v \<Rightarrow> if int64_range (sgn' * v) then Some (sgn' * v) else None)"

fun nat_str :: "nat \<Rightarrow> string" where
  "nat_str n = (if n < 10 then [digit_char n] else nat_str (n div 10) @ [digit_char (n mod 10)])"

declare nat_str.simps [simp del]

definition Itoa :: "int \<Rightarrow> string" where
  "Itoa n = (if n < 0 then CHR ''-'' # nat_str (nat (- n)) else nat_str (nat n))"

lemma of_char_digit [simp]: "n < 10 \<Longrightarrow> of_char (digit_char n) = (48 + n :: nat)"
  by (simp add: digit_char_def)

lemma is_digit_char [simp]: "n < 10 \<Longrightarrow> is_digit (digit_char n)"
  by (simp add: is_digit_def)

lemma digit_val_char [simp]: "n < 10 \<Longrightarrow> digit_val (digit_char n) = int n"
  by (simp add: digit_val_def)

lemma digits_val_append:
  "digits_val acc (xs @ ys) = Option.bind (digits_val acc xs) (\<lambda>v. digits_val v ys)"
  by (induction xs arbitrary: acc) auto

lemma nat_str_digits:
  "nat_str n \<noteq> [] \<and> list_all is_digit (nat_str n) \<and> digits_val 0 (nat_str n) = Some (int n)"
proof (induction n rule: nat_str.induct)
  case (1 n)
  show ?case
  proof (cases "n < 10")
    case True
    then show ?thesis by (subst (1 2 3) nat_str.simps) simp
  next
    case False
    have "10 * (int n div 10) + int n mod 10 = int n" by simp
    with False 1 show ?thesis
      by (subst (1 2 3) nat_str.simps) (simp add: digits_val_append zdiv_int zmod_int)
  qed
qed

lemma is_digit_not_sign: "is_digit c \<Longrightarrow> c \<noteq> CHR ''-'' \<and> c \<noteq> CHR ''+''"
  by (auto simp: is_digit_def)

lemma Atoi_Itoa:
  assumes "int64_range n"
  shows "Atoi (Itoa n) = Some n"
proof (cases "n < 0")
  case True
  then show ?thesis
    using nat_str_digits [of "nat (- n)"] assms by (simp add: Atoi_def Itoa_def)
next
  case False
  let ?s = "nat_str (nat n)"
  have s: "?s \<noteq> []" "is_digit (hd ?s)" "digits_val 0 ?s = Some n"
    using nat_str_digits [of "nat n"] False by (auto simp: list_all_iff)
  then obtain c cs where "?s = c # cs" "is_digit c" by (cases ?s) auto
  then show ?thesis
    using s False assms is_digit_not_sign [of c] by (simp add: Atoi_def Itoa_def)
qed

lemma Atoi_range: "Atoi s = Some n \<Longrightarrow> int64_range n"
  by (auto simp: Atoi_def Let_def split: option.splits if_splits prod.splits)

lemma plain_digit: "is_digit c \<Longrightarrow> plain_char c"
  by (simp add: plain_char_def is_digit_def)

lemma plain_minus: "plain_char (CHR ''-'')"
  by (simp add: plain_char_def)

lemma TrimSpace_Itoa: "TrimSpace (Itoa n) = Itoa n"
proof (rule TrimSpace_id, rule disjI2)
  have "is_digit (hd (nat_str k)) \<and> is_digit (last (nat_str k))" for k
    using nat_str_digits [of k] by (auto simp: list_all_iff)
  moreover have "nat_str k \<noteq> []" for k using nat_str_digits [of k] by simp
  ultimately show "plain_char (hd (Itoa n)) \<and> plain_char (last (Itoa n))"
    by (auto simp: Itoa_def plain_digit plain_minus)
qed

end
