(* ===== verification/Go_Heap.thy ===== *)
theory Go_Heap
  imports Prelude "HOL-Library.Multiset"
begin

text \<open>
  The binary heap of Go's \<open>container/heap\<close>, which the polling scheduler drives through the
  \<open>heap.Interface\<close> methods of its task queue. As in Go, the algorithms are written over the
  interface (\<open>Less\<close> and \<open>Swap\<close> on positions, \<open>Len\<close>, \<open>Push\<close>, \<open>Pop\<close>) and never see the
  elements. The locale \<open>heap_interface\<close> states what an implementation of the interface
  promises; its lemmas give the heap order, the contents and the frame of every operation.
\<close>

type_synonym 's heap_less = "'s \<Rightarrow> nat \<Rightarrow> nat \<Rightarrow> bool"
type_synonym 's heap_swap = "nat \<Rightarrow> nat \<Rightarrow> 's \<Rightarrow> 's"

subsection \<open>The algorithms\<close>

text \<open>\<open>up\<close>: Go computes the parent as \<open>(j - 1) / 2\<close>, which is 0 for position 0.\<close>

function heap_up :: "'s heap_less \<Rightarrow> 's heap_swap \<Rightarrow> nat \<Rightarrow> 's \<Rightarrow> 's" where
  "heap_up Less Swap j s =
     (let i = (j - 1) div 2
      in if i = j \<or> \<not> Less s j i then s else heap_up Less Swap i (Swap i j s))"
  by pat_completeness auto
termination
  by (relation "measure (\<lambda>(Less, Swap, j, s). j)") auto

declare heap_up.simps [simp del]

text \<open>\<open>down\<close> returns the state and the final position; Go returns whether it moved.\<close>

function heap_down :: "'s heap_less \<Rightarrow> 's heap_swap \<Rightarrow> nat \<Rightarrow> nat \<Rightarrow> 's \<Rightarrow> 's \<times> nat" where
  "heap_down Less Swap i n s =
     (let j1 = 2 * i + 1
      in if n \<le> j1 then (s, i)
         else let j = (if j1 + 1 < n \<and> Less s (j1 + 1) j1 then j1 + 1 else j1)
              in if \<not> Less s j i then (s, i)
                 else heap_down Less Swap j n (Swap i j s))"
  by pat_completeness auto
termination
  by (relation "measure (\<lambda>(Less, Swap, i, n, s). n - i)") (auto simp: Let_def)

declare heap_down.simps [simp del]

definition heap_Push :: "'s heap_less \<Rightarrow> 's heap_swap \<Rightarrow> ('s \<Rightarrow> nat) \<Rightarrow> ('a \<Rightarrow> 's \<Rightarrow> 's) \<Rightarrow> 'a \<Rightarrow> 's \<Rightarrow> 's" where
  "heap_Push Less Swap len push x s =
     (let s' = push x s in heap_up Less Swap (len s' - 1) s')"

definition heap_Pop :: "'s heap_less \<Rightarrow> 's heap_swap \<Rightarrow> ('s \<Rightarrow> nat) \<Rightarrow> ('s \<Rightarrow> 'a \<times> 's) \<Rightarrow> 's \<Rightarrow> 'a \<times> 's" where
  "heap_Pop Less Swap len pop s =
     (let n = len s - 1 in pop (fst (heap_down Less Swap 0 n (Swap 0 n s))))"

definition heap_Fix :: "'s heap_less \<Rightarrow> 's heap_swap \<Rightarrow> ('s \<Rightarrow> nat) \<Rightarrow> nat \<Rightarrow> 's \<Rightarrow> 's" where
  "heap_Fix Less Swap len i s =
     (let (s', i') = heap_down Less Swap i (len s) s
      in if i < i' then s' else heap_up Less Swap i s')"

definition heap_Remove :: "'s heap_less \<Rightarrow> 's heap_swap \<Rightarrow> ('s \<Rightarrow> nat) \<Rightarrow> ('s \<Rightarrow> 'a \<times> 's) \<Rightarrow> nat \<Rightarrow> 's \<Rightarrow> 'a \<times> 's" where
  "heap_Remove Less Swap len pop i s =
     (let n = len s - 1
      in if n = i then pop s
         else let (s', i') = heap_down Less Swap i n (Swap i n s)
              in pop (if i < i' then s' else heap_up Less Swap i s'))"

subsection \<open>Positions\<close>

abbreviation par :: "nat \<Rightarrow> nat" where "par i \<equiv> (i - 1) div 2"

lemma par_less: "0 < i \<Longrightarrow> par i < i"
  by simp

lemma par_child: "0 < k \<Longrightarrow> par k = i \<longleftrightarrow> k = 2 * i + 1 \<or> k = 2 * i + 2"
  by auto

subsection \<open>What an implementation of the interface promises\<close>

locale heap_interface =
  fixes key :: "'s \<Rightarrow> 'a \<Rightarrow> 'k::linorder"
    and elems :: "'s \<Rightarrow> 'a list"
    and Less :: "'s \<Rightarrow> nat \<Rightarrow> nat \<Rightarrow> bool"
    and Swap :: "nat \<Rightarrow> nat \<Rightarrow> 's \<Rightarrow> 's"
  assumes Less: "i < length (elems s) \<Longrightarrow> j < length (elems s) \<Longrightarrow>
      Less s i j \<longleftrightarrow> key s (elems s ! i) < key s (elems s ! j)"
    and elems_swap: "i < length (elems s) \<Longrightarrow> j < length (elems s) \<Longrightarrow>
      elems (Swap i j s) = (elems s)[i := elems s ! j, j := elems s ! i]"
    and key_swap: "key (Swap i j s) x = key s x"
begin

definition ke :: "'s \<Rightarrow> nat \<Rightarrow> 'k" where
  "ke s i = key s (elems s ! i)"

text \<open>The heap order on the first \<open>n\<close> positions, and the same with a defect at one position.\<close>

definition is_heap :: "'s \<Rightarrow> nat \<Rightarrow> bool" where
  "is_heap s n \<longleftrightarrow> n \<le> length (elems s) \<and> (\<forall>k<n. 0 < k \<longrightarrow> ke s (par k) \<le> ke s k)"

definition up_defect :: "'s \<Rightarrow> nat \<Rightarrow> nat \<Rightarrow> bool" where
  "up_defect s n j \<longleftrightarrow> n \<le> length (elems s) \<and> j < n \<and>
     (\<forall>k<n. 0 < k \<longrightarrow> k \<noteq> j \<longrightarrow> ke s (par k) \<le> ke s k) \<and>
     (0 < j \<longrightarrow> (\<forall>k<n. 0 < k \<longrightarrow> par k = j \<longrightarrow> ke s (par j) \<le> ke s k))"

definition defect :: "'s \<Rightarrow> nat \<Rightarrow> nat \<Rightarrow> bool" where
  "defect s n i \<longleftrightarrow> n \<le> length (elems s) \<and> i < n \<and>
     (\<forall>k<n. 0 < k \<longrightarrow> k \<noteq> i \<longrightarrow> par k \<noteq> i \<longrightarrow> ke s (par k) \<le> ke s k) \<and>
     (0 < i \<longrightarrow> (\<forall>k<n. 0 < k \<longrightarrow> par k = i \<longrightarrow> ke s (par i) \<le> ke s k))"

definition down_defect :: "'s \<Rightarrow> nat \<Rightarrow> nat \<Rightarrow> bool" where
  "down_defect s n i \<longleftrightarrow> defect s n i \<and> (0 < i \<longrightarrow> ke s (par i) \<le> ke s i)"

lemma length_swap [simp]:
  "i < length (elems s) \<Longrightarrow> j < length (elems s) \<Longrightarrow> length (elems (Swap i j s)) = length (elems s)"
  by (simp add: elems_swap)

lemma ke_swap:
  "i < length (elems s) \<Longrightarrow> j < length (elems s) \<Longrightarrow> k < length (elems s) \<Longrightarrow>
   ke (Swap i j s) k = (if k = i then ke s j else if k = j then ke s i else ke s k)"
  by (auto simp: ke_def elems_swap key_swap nth_list_update)

lemma mset_swap:
  "i < length (elems s) \<Longrightarrow> j < length (elems s) \<Longrightarrow> mset (elems (Swap i j s)) = mset (elems s)"
  by (simp add: elems_swap mset_swap)

lemma less_ke: "n \<le> length (elems s) \<Longrightarrow> i < n \<Longrightarrow> j < n \<Longrightarrow> Less s i j \<longleftrightarrow> ke s i < ke s j"
  by (simp add: Less ke_def)

subsubsection \<open>Whatever every in-range Swap keeps, the operations keep\<close>

lemma heap_up_keeps:
  assumes keep: "\<And>s i k. P s \<Longrightarrow> i < n \<Longrightarrow> k < n \<Longrightarrow> i \<noteq> k \<Longrightarrow> P (Swap i k s)"
  shows "P s \<Longrightarrow> j < n \<Longrightarrow> P (heap_up Less Swap j s)"
proof (induction j arbitrary: s rule: less_induct)
  case (less j)
  show ?case
  proof (cases "par j = j \<or> \<not> Less s j (par j)")
    case True
    then show ?thesis using less.prems by (subst heap_up.simps) (auto simp: Let_def)
  next
    case False
    then have "par j < j" by (cases j) auto
    moreover have "P (Swap (par j) j s)"
      using less.prems False \<open>par j < j\<close> by (intro keep) auto
    ultimately have "P (heap_up Less Swap (par j) (Swap (par j) j s))"
      using less by simp
    with False show ?thesis by (subst heap_up.simps) (auto simp: Let_def)
  qed
qed

lemma heap_down_keeps:
  assumes keep: "\<And>s i k. P s \<Longrightarrow> i < n \<Longrightarrow> k < n \<Longrightarrow> i \<noteq> k \<Longrightarrow> P (Swap i k s)"
  shows "P s \<Longrightarrow> P (fst (heap_down Less Swap i n s))"
proof (induction "n - i" arbitrary: i s rule: less_induct)
  case less
  define j where "j = (if 2 * i + 2 < n \<and> Less s (2 * i + 2) (2 * i + 1) then 2 * i + 2 else 2 * i + 1)"
  have unf: "heap_down Less Swap i n s =
      (if n \<le> 2 * i + 1 \<or> \<not> Less s j i then (s, i) else heap_down Less Swap j n (Swap i j s))"
    by (subst heap_down.simps) (simp add: Let_def j_def)
  show ?case
  proof (cases "n \<le> 2 * i + 1 \<or> \<not> Less s j i")
    case True
    then show ?thesis using less.prems by (simp add: unf)
  next
    case False
    then have "j < n" "i < j" by (auto simp: j_def)
    then have "P (Swap i j s)" using less.prems by (intro keep) auto
    then have "P (fst (heap_down Less Swap j n (Swap i j s)))"
      using \<open>j < n\<close> \<open>i < j\<close> by (intro less.hyps) auto
    with False show ?thesis by (simp add: unf)
  qed
qed

subsubsection \<open>Order\<close>

lemma up_defect_step:
  assumes d: "up_defect s n j" and j: "0 < j" and lt: "ke s j < ke s (par j)"
  shows "up_defect (Swap (par j) j s) n (par j)"
proof -
  let ?i = "par j"
  have n: "n \<le> length (elems s)" "j < n" "?i < n" "?i < j"
    using d j by (auto simp: up_defect_def)
  have sw: "ke (Swap ?i j s) k = (if k = ?i then ke s j else if k = j then ke s ?i else ke s k)"
    if "k < n" for k
    using n that by (simp add: ke_swap)
  have ok: "ke s (par k) \<le> ke s k" if "k < n" "0 < k" "k \<noteq> j" for k
    using d that by (auto simp: up_defect_def)
  have gr: "ke s ?i \<le> ke s k" if "k < n" "0 < k" "par k = j" for k
    using d j that by (auto simp: up_defect_def)
  have "ke (Swap ?i j s) (par k) \<le> ke (Swap ?i j s) k" if k: "k < n" "0 < k" "k \<noteq> ?i" for k
  proof -
    have "par k < n" using k by simp
    consider "k = j" | "k \<noteq> j" "par k = ?i" | "k \<noteq> j" "par k = j" | "k \<noteq> j" "par k \<noteq> ?i" "par k \<noteq> j"
      by blast
    then show ?thesis
    proof cases
      case 1 then show ?thesis using sw [of j] sw [of ?i] n lt by simp
    next
      case 2 then show ?thesis using sw [OF k(1)] sw [OF \<open>par k < n\<close>] ok [OF k(1,2)] k(3) lt by simp
    next
      case 3 then show ?thesis using sw [OF k(1)] sw [OF \<open>par k < n\<close>] gr [OF k(1,2)] k n by simp
    next
      case 4 then show ?thesis using sw [OF k(1)] sw [OF \<open>par k < n\<close>] ok [OF k(1,2)] k by simp
    qed
  qed
  moreover have "ke (Swap ?i j s) (par ?i) \<le> ke (Swap ?i j s) k"
    if k: "0 < ?i" "k < n" "0 < k" "par k = ?i" for k
  proof -
    have "par ?i < ?i" using k(1) by (rule par_less)
    then have p: "ke (Swap ?i j s) (par ?i) = ke s (par ?i)" using sw [of "par ?i"] n by simp
    have "ke s (par ?i) \<le> ke s ?i" using ok [of ?i] n k by simp
    moreover have "k \<noteq> ?i" using k by auto
    ultimately show ?thesis using p sw [of k] ok [of k] k by (auto split: if_splits)
  qed
  ultimately show ?thesis using n by (auto simp: up_defect_def)
qed

lemma heap_up_order:
  "up_defect s n j \<Longrightarrow> is_heap (heap_up Less Swap j s) n"
proof (induction j arbitrary: s rule: less_induct)
  case (less j)
  have n: "n \<le> length (elems s)" "j < n" using less.prems by (auto simp: up_defect_def)
  show ?case
  proof (cases "par j = j \<or> \<not> Less s j (par j)")
    case True
    then have "is_heap s n"
    proof (cases "j = 0")
      case True
      then show ?thesis using less.prems by (auto simp: up_defect_def is_heap_def)
    next
      case False
      then have "ke s (par j) \<le> ke s j"
        using True n less_ke [of n s j "par j"] by auto
      then show ?thesis using less.prems unfolding up_defect_def is_heap_def by metis
    qed
    then show ?thesis using True by (subst heap_up.simps) (auto simp: Let_def)
  next
    case False
    then have j: "0 < j" "par j < j" by (cases j; auto)+
    then have "ke s j < ke s (par j)" using False n less_ke [of n s j "par j"] by auto
    then have "up_defect (Swap (par j) j s) n (par j)"
      using less.prems j(1) by (intro up_defect_step)
    then have "is_heap (heap_up Less Swap (par j) (Swap (par j) j s)) n"
      using j(2) by (intro less.IH)
    with False show ?thesis by (subst heap_up.simps) (auto simp: Let_def)
  qed
qed

text \<open>One step of \<open>down\<close>: the smaller child of \<open>i\<close>.\<close>

definition child :: "'s \<Rightarrow> nat \<Rightarrow> nat \<Rightarrow> nat" where
  "child s n i = (if 2 * i + 2 < n \<and> Less s (2 * i + 2) (2 * i + 1) then 2 * i + 2 else 2 * i + 1)"

lemma heap_down_unfold:
  "heap_down Less Swap i n s =
     (if n \<le> 2 * i + 1 \<or> \<not> Less s (child s n i) i then (s, i)
      else heap_down Less Swap (child s n i) n (Swap i (child s n i) s))"
  by (subst heap_down.simps) (simp add: Let_def child_def)

lemma child_range:
  "2 * i + 1 < n \<Longrightarrow> child s n i < n \<and> i < child s n i \<and> par (child s n i) = i"
  by (auto simp: child_def)

lemma child_least:
  assumes "n \<le> length (elems s)" "k < n" "0 < k" "par k = i"
  shows "ke s (child s n i) \<le> ke s k"
proof -
  have "k = 2 * i + 1 \<or> k = 2 * i + 2" using assms by auto
  then show ?thesis
    using assms less_ke [of n s "2 * i + 2" "2 * i + 1"] by (auto simp: child_def)
qed

lemma defect_step:
  assumes d: "defect s n i" and c: "2 * i + 1 < n" and lt: "ke s (child s n i) < ke s i"
  shows "down_defect (Swap i (child s n i) s) n (child s n i)"
proof -
  let ?j = "child s n i" and ?t = "Swap i (child s n i) s"
  have j: "?j < n" "i < ?j" "par ?j = i" using child_range [OF c] by auto
  have n: "n \<le> length (elems s)" "i < n" using d by (auto simp: defect_def)
  have sw: "ke ?t k = (if k = i then ke s ?j else if k = ?j then ke s i else ke s k)"
    if "k < n" for k
    using n j that by (simp add: ke_swap)
  have ok: "ke s (par k) \<le> ke s k" if "k < n" "0 < k" "k \<noteq> i" "par k \<noteq> i" for k
    using d that by (auto simp: defect_def)
  have gr: "ke s (par i) \<le> ke s k" if "0 < i" "k < n" "0 < k" "par k = i" for k
    using d that by (auto simp: defect_def)
  have ls: "ke s ?j \<le> ke s k" if "k < n" "0 < k" "par k = i" for k
    using child_least [OF n(1) that] .
  have par_i: "ke ?t (par i) = ke s (par i)" if "0 < i"
    using par_less [OF that] sw [of "par i"] n j by simp
  have main: "ke ?t (par k) \<le> ke ?t k" if k: "k < n" "0 < k" "par k \<noteq> ?j" for k
  proof -
    have "par k < n" using k by simp
    note swk = sw [OF k(1)] sw [OF \<open>par k < n\<close>]
    consider "k = i" | "k = ?j" | "k \<noteq> i" "k \<noteq> ?j" "par k = i" | "k \<noteq> i" "k \<noteq> ?j" "par k \<noteq> i"
      by blast
    then show ?thesis
    proof cases
      case 1 then show ?thesis using gr [OF _ j(1) _ j(3)] j k par_i swk by simp
    next
      case 2 then show ?thesis using swk j lt by simp
    next
      case 3 then show ?thesis using swk ls [OF k(1,2)] by simp
    next
      case 4 then show ?thesis using swk ok [OF k(1,2)] k by simp
    qed
  qed
  moreover have "ke ?t (par ?j) \<le> ke ?t k" if k: "k < n" "0 < k" "par k = ?j" for k
  proof -
    have "?j < k" using k par_less [of k] by simp
    then have "ke ?t k = ke s k" "ke ?t (par ?j) = ke s ?j" using sw [of k] sw [of i] k j n by auto
    moreover have "k \<noteq> i" "par k \<noteq> i" using k j \<open>?j < k\<close> by auto
    ultimately show ?thesis using ok [OF k(1,2)] k by simp
  qed
  moreover have "n \<le> length (elems ?t)" using n j by simp
  moreover have "ke ?t (par ?j) \<le> ke ?t ?j" using main [of ?j] j by simp
  ultimately show ?thesis using j(1) unfolding down_defect_def defect_def by blast
qed

lemma defect_children_le:
  assumes "defect s n i" and "n \<le> 2 * i + 1 \<or> \<not> ke s (child s n i) < ke s i"
    and "k < n" "0 < k" "par k = i"
  shows "ke s i \<le> ke s k"
proof -
  have "2 * i + 1 < n" using assms(3-5) by auto
  then show ?thesis using assms child_least [of n s k i] by (fastforce simp: defect_def)
qed

lemma heap_down_order:
  "down_defect s n i \<Longrightarrow> is_heap (fst (heap_down Less Swap i n s)) n"
proof (induction "n - i" arbitrary: i s rule: less_induct)
  case less
  let ?j = "child s n i"
  have d: "defect s n i" and n: "n \<le> length (elems s)" "i < n"
    using less.prems by (auto simp: down_defect_def defect_def)
  show ?case
  proof (cases "n \<le> 2 * i + 1 \<or> \<not> Less s ?j i")
    case True
    then have c: "n \<le> 2 * i + 1 \<or> \<not> ke s ?j < ke s i"
      using n child_range [of i n s] less_ke [of n s ?j i] by (cases "n \<le> 2 * i + 1") auto
    have "ke s (par k) \<le> ke s k" if "k < n" "0 < k" for k
      using less.prems defect_children_le [OF d c that] that
      unfolding down_defect_def defect_def by metis
    then have "is_heap s n" using n by (simp add: is_heap_def)
    with True show ?thesis by (simp add: heap_down_unfold)
  next
    case False
    then have j: "?j < n" "i < ?j" using child_range [of i n s] by auto
    then have "ke s ?j < ke s i" using False n less_ke [of n s ?j i] by simp
    then have "down_defect (Swap i ?j s) n ?j" using False d by (intro defect_step) auto
    then have "is_heap (fst (heap_down Less Swap ?j n (Swap i ?j s))) n"
      using j by (intro less.hyps) auto
    with False show ?thesis by (subst heap_down_unfold) simp
  qed
qed

lemma heap_down_pos: "i \<le> snd (heap_down Less Swap i n s)"
proof (induction "n - i" arbitrary: i s rule: less_induct)
  case less
  show ?case
  proof (cases "n \<le> 2 * i + 1 \<or> \<not> Less s (child s n i) i")
    case True
    then show ?thesis by (simp add: heap_down_unfold)
  next
    case False
    then have j: "child s n i < n" "i < child s n i" using child_range [of i n s] by auto
    then have "child s n i \<le> snd (heap_down Less Swap (child s n i) n (Swap i (child s n i) s))"
      by (intro less.hyps) auto
    with False j show ?thesis by (subst heap_down_unfold) simp
  qed
qed

text \<open>Repairing a defect in both directions, the body of \<open>Fix\<close> and \<open>Remove\<close>.\<close>

definition repair :: "nat \<Rightarrow> nat \<Rightarrow> 's \<Rightarrow> 's" where
  "repair i n s =
     (let (s', i') = heap_down Less Swap i n s in if i < i' then s' else heap_up Less Swap i s')"

lemma repair_order:
  assumes d: "defect s n i"
  shows "is_heap (repair i n s) n"
proof -
  let ?j = "child s n i"
  have n: "n \<le> length (elems s)" "i < n" using d by (auto simp: defect_def)
  show ?thesis
  proof (cases "n \<le> 2 * i + 1 \<or> \<not> Less s ?j i")
    case True
    then have c: "n \<le> 2 * i + 1 \<or> \<not> ke s ?j < ke s i"
      using n child_range [of i n s] less_ke [of n s ?j i] by (cases "n \<le> 2 * i + 1") auto
    have "up_defect s n i"
      using d defect_children_le [OF d c] unfolding up_defect_def defect_def by metis
    then have "is_heap (heap_up Less Swap i s) n" by (rule heap_up_order)
    with True show ?thesis by (simp add: repair_def heap_down_unfold)
  next
    case False
    then have j: "?j < n" "i < ?j" using child_range [of i n s] by auto
    let ?r = "heap_down Less Swap ?j n (Swap i ?j s)"
    have "ke s ?j < ke s i" using False j n less_ke [of n s ?j i] by simp
    then have "is_heap (fst ?r) n" using False d by (intro heap_down_order defect_step) auto
    moreover have "i < snd ?r" using heap_down_pos [of ?j n "Swap i ?j s"] j by simp
    moreover have "heap_down Less Swap i n s = ?r" using False by (subst heap_down_unfold) simp
    ultimately show ?thesis by (simp add: repair_def case_prod_beta)
  qed
qed

lemma repair_keeps:
  assumes "\<And>s i k. P s \<Longrightarrow> i < n \<Longrightarrow> k < n \<Longrightarrow> i \<noteq> k \<Longrightarrow> P (Swap i k s)" and "P s" and "i < n"
  shows "P (repair i n s)"
proof -
  have "P (fst (heap_down Less Swap i n s))" by (rule heap_down_keeps) (use assms in auto)
  then show ?thesis
    using heap_up_keeps [of P n _ i, OF assms(1)] assms(3)
    by (simp add: repair_def case_prod_beta)
qed

lemma heap_root_least:
  assumes h: "is_heap s n" and k: "k < n"
  shows "ke s 0 \<le> ke s k"
  using k
proof (induction k rule: less_induct)
  case (less k)
  show ?case
  proof (cases "k = 0")
    case False
    then have "ke s 0 \<le> ke s (par k)" using less by simp
    also have "\<dots> \<le> ke s k" using h less.prems False by (simp add: is_heap_def)
    finally show ?thesis .
  qed simp
qed

lemma is_heap_mono: "is_heap s n \<Longrightarrow> m \<le> n \<Longrightarrow> is_heap s m"
  by (simp add: is_heap_def)

end

text \<open>
  The whole interface: \<open>Len\<close>, and \<open>Push\<close> and \<open>Pop\<close> at the end of the sequence. The client
  lemmas say that the operations keep the order, and what they do to the contents.
\<close>

locale heap_container =
  heap_interface key elems Less Swap
  for key :: "'s \<Rightarrow> 'a \<Rightarrow> 'k::linorder" and elems :: "'s \<Rightarrow> 'a list"
    and Less :: "'s \<Rightarrow> nat \<Rightarrow> nat \<Rightarrow> bool" and Swap :: "nat \<Rightarrow> nat \<Rightarrow> 's \<Rightarrow> 's" +
  fixes Len :: "'s \<Rightarrow> nat"
    and PushBack :: "'a \<Rightarrow> 's \<Rightarrow> 's"
    and PopBack :: "'s \<Rightarrow> 'a \<times> 's"
  assumes Len: "Len s = length (elems s)"
    and elems_push: "elems (PushBack x s) = elems s @ [x]"
    and key_push: "key (PushBack x s) y = key s y"
    and pop_fst: "elems s \<noteq> [] \<Longrightarrow> fst (PopBack s) = last (elems s)"
    and elems_pop: "elems s \<noteq> [] \<Longrightarrow> elems (snd (PopBack s)) = butlast (elems s)"
    and key_pop: "elems s \<noteq> [] \<Longrightarrow> key (snd (PopBack s)) y = key s y"
begin

definition heap_ordered :: "'s \<Rightarrow> bool" where
  "heap_ordered s \<longleftrightarrow> is_heap s (length (elems s))"

lemma heap_ordered_alt:
  "heap_ordered s \<longleftrightarrow> (\<forall>k<length (elems s). 0 < k \<longrightarrow> ke s (par k) \<le> ke s k)"
  by (simp add: heap_ordered_def is_heap_def)

lemma up_same_len:
  "j < length (elems s) \<Longrightarrow> length (elems (heap_up Less Swap j s)) = length (elems s) \<and>
     mset (elems (heap_up Less Swap j s)) = mset (elems s)"
  using heap_up_keeps [of "\<lambda>t. length (elems t) = length (elems s) \<and> mset (elems t) = mset (elems s)"
      "length (elems s)" s j]
  by (simp add: mset_swap)

lemma repair_same_len:
  "n \<le> length (elems s) \<Longrightarrow> i < n \<Longrightarrow> length (elems (repair i n s)) = length (elems s) \<and>
     mset (elems (repair i n s)) = mset (elems s)"
  using repair_keeps [of "\<lambda>t. length (elems t) = length (elems s) \<and> mset (elems t) = mset (elems s)" n s i]
  by (simp add: mset_swap)

text \<open>\<open>Push\<close>.\<close>

lemma Push_ordered:
  assumes "heap_ordered s"
  shows "heap_ordered (heap_Push Less Swap Len PushBack x s)"
proof -
  let ?t = "PushBack x s" and ?n = "length (elems s)"
  have ke: "ke ?t k = ke s k" if "k < ?n" for k
    using that by (simp add: ke_def elems_push key_push nth_append)
  have "ke ?t (par k) \<le> ke ?t k" if "k < Suc ?n" "0 < k" "k \<noteq> ?n" for k
    using assms ke [of k] ke [of "par k"] that by (simp add: heap_ordered_alt)
  moreover have "par k \<noteq> ?n" if "k < Suc ?n" "0 < k" for k
    using that par_less [of k] by simp
  ultimately have "up_defect ?t (Suc ?n) ?n"
    by (auto simp: up_defect_def elems_push)
  then have "is_heap (heap_up Less Swap ?n ?t) (Suc ?n)" by (rule heap_up_order)
  then show ?thesis
    using up_same_len [of ?n ?t] by (simp add: heap_Push_def Len elems_push heap_ordered_def)
qed

lemma Push_mset: "mset (elems (heap_Push Less Swap Len PushBack x s)) = add_mset x (mset (elems s))"
  using up_same_len [of "length (elems s)" "PushBack x s"] by (simp add: heap_Push_def Len elems_push)

text \<open>\<open>Fix\<close>, after the element at one position was changed.\<close>

lemma Fix_repair: "heap_Fix Less Swap Len i s = repair i (length (elems s)) s"
  by (simp add: heap_Fix_def repair_def Len)

lemma Fix_ordered: "defect s (length (elems s)) i \<Longrightarrow> heap_ordered (heap_Fix Less Swap Len i s)"
  using repair_order [of s "length (elems s)" i] repair_same_len [of "length (elems s)" s i]
  by (simp add: Fix_repair heap_ordered_def defect_def)

lemma Fix_mset: "i < length (elems s) \<Longrightarrow> mset (elems (heap_Fix Less Swap Len i s)) = mset (elems s)"
  by (simp add: Fix_repair repair_same_len)

text \<open>
  Changing the key of one element of an ordered heap leaves a defect at its position.
\<close>

lemma defect_changed:
  assumes "heap_ordered s" and "elems t = elems s" and "i < length (elems s)"
    and "\<And>k. k < length (elems s) \<Longrightarrow> k \<noteq> i \<Longrightarrow> ke t k = ke s k"
  shows "defect t (length (elems t)) i"
proof -
  have o: "ke s (par k) \<le> ke s k" if "k < length (elems s)" "0 < k" for k
    using assms(1) that by (simp add: heap_ordered_alt)
  have "ke t (par i) \<le> ke t k" if k: "0 < i" "k < length (elems s)" "0 < k" "par k = i" for k
  proof -
    have "par i \<noteq> i" "k \<noteq> i" "par i < length (elems s)" using k par_less [of i] par_less [of k] by auto
    then have "ke t (par i) = ke s (par i)" "ke t k = ke s k" using assms(4) k by auto
    then show ?thesis using order_trans [OF o [OF assms(3) k(1)]] o [of k] k by simp
  qed
  then show ?thesis using assms o by (auto simp: defect_def)
qed

text \<open>\<open>Remove\<close>, of which \<open>Pop\<close> is the case of the root.\<close>

lemma Remove_repair:
  "i < length (elems s) \<Longrightarrow>
   heap_Remove Less Swap Len PopBack i s =
     (let n = length (elems s) - 1 in PopBack (if n = i then s else repair i n (Swap i n s)))"
  by (simp add: heap_Remove_def repair_def Len Let_def case_prod_beta)

lemma Swap_last_defect:
  assumes o: "heap_ordered s" and i: "i < n" and n: "n = length (elems s) - 1"
  shows "defect (Swap i n s) n i"
proof -
  have b: "n < length (elems s)" "i < length (elems s)" using i n by auto
  have ok: "ke s (par k) \<le> ke s k" if "k < length (elems s)" "0 < k" for k
    using o that by (simp add: heap_ordered_alt)
  have sw: "ke (Swap i n s) k = ke s k" if "k < n" "k \<noteq> i" for k
    using b that by (simp add: ke_swap)
  have "ke (Swap i n s) (par k) \<le> ke (Swap i n s) k" if k: "k < n" "0 < k" "k \<noteq> i" "par k \<noteq> i" for k
    using k sw [of k] sw [of "par k"] ok [of k] b by simp
  moreover have "ke (Swap i n s) (par i) \<le> ke (Swap i n s) k"
    if k: "0 < i" "k < n" "0 < k" "par k = i" for k
  proof -
    have "par i < i" "k \<noteq> i" using k par_less [of i] by auto
    then have "ke (Swap i n s) (par i) = ke s (par i)" "ke (Swap i n s) k = ke s k"
      using sw k i by auto
    then show ?thesis using order_trans [OF ok [OF b(2) k(1)]] ok [of k] k b by simp
  qed
  ultimately show ?thesis using b i by (auto simp: defect_def)
qed

lemma repair_outside:
  assumes "n < length (elems s)" and "i < n"
  shows "length (elems (repair i n s)) = length (elems s) \<and> elems (repair i n s) ! n = elems s ! n"
  using repair_keeps [of "\<lambda>t. length (elems t) = length (elems s) \<and> elems t ! n = elems s ! n" n s i] assms
  by (auto simp: elems_swap)

lemma pop_ordered:
  assumes "is_heap s (length (elems s) - 1)" and "elems s \<noteq> []"
  shows "heap_ordered (snd (PopBack s))"
  using assms
  by (auto simp: heap_ordered_alt is_heap_def ke_def elems_pop key_pop nth_butlast)

theorem Remove_correct:
  assumes o: "heap_ordered s" and i: "i < length (elems s)"
  defines "r \<equiv> heap_Remove Less Swap Len PopBack i s"
  shows "heap_ordered (snd r)" and "fst r = elems s ! i"
    and "mset (elems (snd r)) = mset (elems s) - {#elems s ! i#}"
proof -
  let ?n = "length (elems s) - 1"
  have ne: "elems s \<noteq> []" using i by auto
  have "heap_ordered (snd r) \<and> fst r = elems s ! i \<and> mset (elems (snd r)) = mset (elems s) - {#elems s ! i#}"
  proof (cases "?n = i")
    case True
    then have "r = PopBack s" using i by (simp add: r_def Remove_repair)
    moreover have "is_heap s ?n" using o is_heap_mono by (auto simp: heap_ordered_def)
    moreover have "mset (butlast (elems s)) = mset (elems s) - {#last (elems s)#}"
      using ne by (metis append_butlast_last_id mset.simps(1) mset.simps(2) mset_append add_diff_cancel_right' )
    ultimately show ?thesis
      using True ne pop_ordered by (simp add: pop_fst elems_pop last_conv_nth)
  next
    case False
    then have i': "i < ?n" using i by simp
    let ?t = "repair i ?n (Swap i ?n s)"
    have r: "r = PopBack ?t" using i False by (simp add: r_def Remove_repair Let_def)
    have out: "length (elems ?t) = length (elems s) \<and> elems ?t ! ?n = elems s ! i"
      using repair_outside [of ?n "Swap i ?n s" i] i i' by (simp add: elems_swap)
    have ms: "mset (elems ?t) = mset (elems s)"
      using repair_same_len [of ?n "Swap i ?n s" i] mset_swap [of i s ?n] i i' by simp
    have "is_heap ?t ?n" by (intro repair_order Swap_last_defect o i') simp
    moreover have nt: "elems ?t \<noteq> []" using out ne by (metis length_0_conv)
    moreover have lt: "last (elems ?t) = elems s ! i" using out nt by (simp add: last_conv_nth)
    moreover have "mset (butlast (elems ?t)) = mset (elems ?t) - {#last (elems ?t)#}"
      using nt by (metis append_butlast_last_id mset.simps(1) mset.simps(2) mset_append add_diff_cancel_right')
    ultimately show ?thesis
      using out ms pop_ordered [of ?t] by (simp add: r pop_fst elems_pop)
  qed
  then show "heap_ordered (snd r)" and "fst r = elems s ! i"
    and "mset (elems (snd r)) = mset (elems s) - {#elems s ! i#}" by auto
qed

text \<open>
  \<open>Pop\<close> is \<open>Remove\<close> at the root, except that it exchanges a lone root with itself first.
\<close>

lemma heap_up_root: "heap_up Less Swap 0 s = s"
  by (subst heap_up.simps) simp

lemma heap_down_none: "heap_down Less Swap i 0 s = (s, i)"
  by (subst heap_down.simps) simp

lemma Pop_repair:
  "elems s \<noteq> [] \<Longrightarrow>
   heap_Pop Less Swap Len PopBack s =
     (let n = length (elems s) - 1 in PopBack (if n = 0 then Swap 0 0 s else repair 0 n (Swap 0 n s)))"
  by (simp add: heap_Pop_def repair_def Len Let_def case_prod_beta heap_up_root heap_down_none)

lemma Pop_Remove:
  assumes "elems s \<noteq> []"
  shows "heap_Pop Less Swap Len PopBack s =
     (if length (elems s) = 1 then PopBack (Swap 0 0 s) else heap_Remove Less Swap Len PopBack 0 s)"
  using assms by (cases "elems s") (auto simp: Pop_repair Remove_repair Let_def)

lemma Swap_self:
  assumes "i < length (elems s)"
  shows "elems (Swap i i s) = elems s" and "ke (Swap i i s) k = ke s k"
proof -
  show "elems (Swap i i s) = elems s" using assms by (simp add: elems_swap)
  then show "ke (Swap i i s) k = ke s k" by (simp add: ke_def key_swap)
qed

lemma Pop_correct:
  assumes o: "heap_ordered s" and ne: "elems s \<noteq> []"
  defines "r \<equiv> heap_Pop Less Swap Len PopBack s"
  shows "heap_ordered (snd r)" and "fst r = elems s ! 0"
    and "mset (elems (snd r)) = mset (elems s) - {#elems s ! 0#}"
proof -
  have "heap_ordered (snd r) \<and> fst r = elems s ! 0 \<and> mset (elems (snd r)) = mset (elems s) - {#elems s ! 0#}"
  proof (cases "length (elems s) = 1")
    case True
    then obtain x where x: "elems s = [x]" by (auto simp: length_Suc_conv)
    have e: "elems (Swap 0 0 s) = [x]" using Swap_self(1) [of 0 s] x by simp
    have "r = PopBack (Swap 0 0 s)" using True ne by (simp add: r_def Pop_Remove)
    then show ?thesis using x e pop_fst [of "Swap 0 0 s"] elems_pop [of "Swap 0 0 s"]
      by (simp add: heap_ordered_alt)
  next
    case False
    then show ?thesis using Remove_correct [OF o, of 0] ne by (simp add: r_def Pop_Remove)
  qed
  then show "heap_ordered (snd r)" and "fst r = elems s ! 0"
    and "mset (elems (snd r)) = mset (elems s) - {#elems s ! 0#}" by auto
qed

text \<open>
  Frames: a property that exchanging two positions keeps is kept by the reordering of every
  operation, so what an operation does outside the order is what \<open>PushBack\<close> and \<open>PopBack\<close> do.
\<close>

lemma Push_keeps:
  assumes "\<And>t i k. P t \<Longrightarrow> i < Suc (length (elems s)) \<Longrightarrow> k < Suc (length (elems s)) \<Longrightarrow> P (Swap i k t)"
    and "P (PushBack x s)"
  shows "P (heap_Push Less Swap Len PushBack x s)"
  using heap_up_keeps [of P "Suc (length (elems s))" "PushBack x s" "length (elems s)"] assms
  by (simp add: heap_Push_def Len elems_push)

lemma Fix_keeps:
  assumes "\<And>t i k. P t \<Longrightarrow> i < length (elems s) \<Longrightarrow> k < length (elems s) \<Longrightarrow> P (Swap i k t)"
    and "P s" and "i < length (elems s)"
  shows "P (heap_Fix Less Swap Len i s)"
  unfolding Fix_repair by (rule repair_keeps [of P]) (use assms in auto)

lemma Remove_keeps:
  assumes "\<And>t i k. P t \<Longrightarrow> i < length (elems s) \<Longrightarrow> k < length (elems s) \<Longrightarrow> P (Swap i k t)"
    and "P s" and "i < length (elems s)"
  shows "\<exists>t. P t \<and> heap_Remove Less Swap Len PopBack i s = PopBack t"
proof (cases "length (elems s) - 1 = i")
  case False
  have "P (repair i (length (elems s) - 1) (Swap i (length (elems s) - 1) s))"
    by (rule repair_keeps [of P]) (use assms False in auto)
  then show ?thesis using False assms(3) by (auto simp: Remove_repair Let_def)
qed (use assms in \<open>auto simp: Remove_repair Let_def\<close>)

lemma Pop_keeps:
  assumes "\<And>t i k. P t \<Longrightarrow> i < length (elems s) \<Longrightarrow> k < length (elems s) \<Longrightarrow> P (Swap i k t)"
    and "P s" and "elems s \<noteq> []"
  shows "\<exists>t. P t \<and> heap_Pop Less Swap Len PopBack s = PopBack t"
proof (cases "length (elems s) = 1")
  case False
  then show ?thesis using Remove_keeps [of P s 0] assms by (simp add: Pop_Remove)
qed (use assms in \<open>auto simp: Pop_Remove\<close>)

lemma Pop_length:
  assumes "elems s \<noteq> []"
  shows "length (elems (snd (heap_Pop Less Swap Len PopBack s))) = length (elems s) - 1"
proof -
  have "\<exists>t. length (elems t) = length (elems s) \<and> heap_Pop Less Swap Len PopBack s = PopBack t"
    by (rule Pop_keeps) (use assms in auto)
  then obtain t where "length (elems t) = length (elems s)" "heap_Pop Less Swap Len PopBack s = PopBack t" by auto
  moreover from this have "elems t \<noteq> []" using assms by (metis length_0_conv)
  ultimately show ?thesis by (simp add: elems_pop)
qed

end

end
