(* ===== verification/Go_Stdlib.thy ===== *)
theory Go_Stdlib
  imports Prelude
begin

text \<open>
  The parts of Go's standard library the scheduler computes its isolation keys with:
  \<open>net.SplitHostPort\<close>, the addresses and prefixes of \<open>net/netip\<close>, \<open>hash/fnv\<close>,
  \<open>crypto/sha256\<close> and \<open>encoding/hex\<close>. Strings are byte lists, errors are \<open>None\<close>.
\<close>

subsection \<open>Bytes and hexadecimal\<close>

abbreviation byte_of :: "char \<Rightarrow> 8 word" where "byte_of c \<equiv> of_char c"

definition bytes_of :: "string \<Rightarrow> 8 word list" where
  "bytes_of s = map of_char s"

definition hex_digit :: "nat \<Rightarrow> char" where
  "hex_digit n = ''0123456789abcdef'' ! n"

definition EncodeToString :: "8 word list \<Rightarrow> string" where
  "EncodeToString bs = concat (map (\<lambda>b. [hex_digit (unat b div 16), hex_digit (unat b mod 16)]) bs)"

definition hex_val :: "char \<Rightarrow> nat option" where
  "hex_val c =
     (let n = of_char c :: nat
      in if 48 \<le> n \<and> n \<le> 57 then Some (n - 48)
         else if 97 \<le> n \<and> n \<le> 102 then Some (n - 87)
         else if 65 \<le> n \<and> n \<le> 70 then Some (n - 55)
         else None)"

text \<open>\<open>strconv\<close> and \<open>netip\<close> print 16-bit groups without leading zeros.\<close>

fun hex_nat :: "nat \<Rightarrow> string" where
  "hex_nat n = (if n < 16 then [hex_digit n] else hex_nat (n div 16) @ [hex_digit (n mod 16)])"

declare hex_nat.simps [simp del]

subsection \<open>\<open>hash/fnv\<close>: FNV-1a, 64 bits\<close>

definition fnv64a_offset :: "64 word" where "fnv64a_offset = 14695981039346656037"
definition fnv64a_prime :: "64 word" where "fnv64a_prime = 1099511628211"

definition fnv64a_Write :: "8 word list \<Rightarrow> 64 word \<Rightarrow> 64 word" where
  "fnv64a_Write bs h = fold (\<lambda>b h. (h XOR ucast b) * fnv64a_prime) bs h"

subsection \<open>\<open>crypto/sha256\<close>\<close>

text \<open>
  The constants of the standard: the first 32 bits of the fractional parts of the square roots of
  the first 8 primes and of the cube roots of the first 64 primes.
\<close>

definition int_root :: "nat \<Rightarrow> nat \<Rightarrow> nat" where
  "int_root d n = fold (\<lambda>b r. if (r + 2 ^ b) ^ d \<le> n then r + 2 ^ b else r) (rev [0..<40]) 0"

definition small_primes :: "nat list" where
  "small_primes = filter (\<lambda>p. list_all (\<lambda>q. p mod q \<noteq> 0) [2..<p]) [2..<312]"

definition sha256_init :: "32 word list" where
  "sha256_init = map (\<lambda>p. word_of_nat (int_root 2 (p * 2 ^ 64))) (take 8 small_primes)"

definition sha256_k :: "32 word list" where
  "sha256_k = map (\<lambda>p. word_of_nat (int_root 3 (p * 2 ^ 96))) small_primes"

definition be_word :: "8 word list \<Rightarrow> 32 word" where
  "be_word bs = fold (\<lambda>b w. push_bit 8 w OR ucast b) bs 0"

definition be_bytes :: "nat \<Rightarrow> 'a::len word \<Rightarrow> 8 word list" where
  "be_bytes n w = map (\<lambda>i. ucast (drop_bit (8 * (n - 1 - i)) w)) [0..<n]"

definition sha256_pad :: "8 word list \<Rightarrow> 8 word list" where
  "sha256_pad m =
     m @ [0x80] @ replicate ((119 - length m mod 64) mod 64) 0 @
     be_bytes 8 (word_of_nat (8 * length m) :: 64 word)"

fun chunks :: "nat \<Rightarrow> nat \<Rightarrow> 'a list \<Rightarrow> 'a list list" where
  "chunks 0 n xs = []"
| "chunks (Suc k) n xs = take n xs # chunks k n (drop n xs)"

definition sha256_schedule :: "32 word list \<Rightarrow> 32 word list" where
  "sha256_schedule ws =
     fold (\<lambda>t ws.
        let w15 = ws ! (t - 15); w2 = ws ! (t - 2);
            s0 = word_rotr 7 w15 XOR word_rotr 18 w15 XOR drop_bit 3 w15;
            s1 = word_rotr 17 w2 XOR word_rotr 19 w2 XOR drop_bit 10 w2
        in ws @ [ws ! (t - 16) + s0 + ws ! (t - 7) + s1]) [16..<64] ws"

definition sha256_round :: "32 word \<times> 32 word \<Rightarrow> 32 word list \<Rightarrow> 32 word list" where
  "sha256_round kw v =
     (let a = v ! 0; b = v ! 1; c = v ! 2; d = v ! 3; e = v ! 4; f = v ! 5; g = v ! 6; h = v ! 7;
          s1 = word_rotr 6 e XOR word_rotr 11 e XOR word_rotr 25 e;
          ch = (e AND f) XOR (NOT e AND g);
          t1 = h + s1 + ch + fst kw + snd kw;
          s0 = word_rotr 2 a XOR word_rotr 13 a XOR word_rotr 22 a;
          maj = (a AND b) XOR (a AND c) XOR (b AND c)
      in [t1 + s0 + maj, a, b, c, d + t1, e, f, g])"

definition sha256_block :: "8 word list \<Rightarrow> 32 word list \<Rightarrow> 32 word list" where
  "sha256_block blk h =
     map2 (+) h (fold sha256_round (zip sha256_k (sha256_schedule (map be_word (chunks 16 4 blk)))) h)"

definition Sum256 :: "8 word list \<Rightarrow> 8 word list" where
  "Sum256 m =
     (let p = sha256_pad m
      in concat (map (be_bytes 4) (fold sha256_block (chunks (length p div 64) 64 p) sha256_init)))"

subsection \<open>\<open>net.SplitHostPort\<close>\<close>

definition indexByte :: "string \<Rightarrow> char \<Rightarrow> nat option" where
  "indexByte s c = find (\<lambda>i. s ! i = c) [0..<length s]"

definition lastByte :: "string \<Rightarrow> char \<Rightarrow> nat option" where
  "lastByte s c = find (\<lambda>i. s ! i = c) (rev [0..<length s])"

definition SplitHostPort :: "string \<Rightarrow> (string \<times> string) option" where
  "SplitHostPort hostport =
     (case lastByte hostport (CHR '':'') of
        None \<Rightarrow> None
      | Some i \<Rightarrow>
          (case (if hostport ! 0 = CHR ''['' then
                   (case indexByte hostport (CHR '']'') of
                      None \<Rightarrow> None
                    | Some e \<Rightarrow> if e + 1 = i then Some (drop 1 (take e hostport), 1, e + 1) else None)
                 else
                   (let host = take i hostport
                    in if CHR '':'' \<in> set host then None else Some (host, 0, 0))) of
             None \<Rightarrow> None
           | Some (host, j, k) \<Rightarrow>
               if CHR ''['' \<in> set (drop j hostport) \<or> CHR '']'' \<in> set (drop k hostport) then None
               else Some (host, drop (i + 1) hostport)))"

subsection \<open>\<open>net/netip\<close>\<close>

text \<open>An address: four octets, or sixteen bytes with a zone.\<close>

datatype Addr = Addr4 "nat list" | Addr6 "nat list" string

definition Is4 :: "Addr \<Rightarrow> bool" where
  "Is4 a = (case a of Addr4 _ \<Rightarrow> True | Addr6 _ _ \<Rightarrow> False)"

text \<open>
  \<open>parseIPv4Fields\<close>: the loop state is the finished octets, the value and the number of digits
  of the current one, and whether the previous byte was a dot (or there was none).
\<close>

fun parseIPv4Loop :: "string \<Rightarrow> nat list \<Rightarrow> nat \<Rightarrow> nat \<Rightarrow> bool \<Rightarrow> nat list option" where
  "parseIPv4Loop [] fields val digLen dotBefore =
     (if length fields < 3 then None else Some (fields @ [val]))"
| "parseIPv4Loop (c # s) fields val digLen dotBefore =
     (if is_digit c then
        (if digLen = 1 \<and> val = 0 then None
         else let val = val * 10 + nat (digit_val c)
              in if val > 255 then None else parseIPv4Loop s fields val (digLen + 1) False)
      else if c = CHR ''.'' then
        (if dotBefore \<or> s = [] \<or> length fields = 3 then None
         else parseIPv4Loop s (fields @ [val]) 0 0 True)
      else None)"

definition parseIPv4Fields :: "string \<Rightarrow> nat list option" where
  "parseIPv4Fields s = parseIPv4Loop s [] 0 0 True"

text \<open>The hexadecimal digits in front: their value and number, \<open>None\<close> above four digits.\<close>

fun parseHex :: "string \<Rightarrow> nat \<Rightarrow> nat \<Rightarrow> (nat \<times> nat) option" where
  "parseHex [] off acc = Some (acc, off)"
| "parseHex (c # s) off acc =
     (case hex_val c of
        None \<Rightarrow> Some (acc, off)
      | Some v \<Rightarrow> if off > 3 then None else parseHex s (off + 1) (16 * acc + v))"

text \<open>
  The loop of \<open>parseIPv6\<close>: \<open>n\<close> bounds the groups (it runs while fewer than 16 bytes are
  filled). The result is the bytes so far, the position of the ellipsis and the unread rest.
\<close>

fun parseIPv6Loop :: "nat \<Rightarrow> string \<Rightarrow> nat list \<Rightarrow> nat option \<Rightarrow> (nat list \<times> nat option \<times> string) option" where
  "parseIPv6Loop 0 s ip ellipsis = Some (ip, ellipsis, s)"
| "parseIPv6Loop (Suc n) s ip ellipsis =
     (case parseHex s 0 0 of
        None \<Rightarrow> None
      | Some (acc, off) \<Rightarrow>
          if off = 0 then None
          else
            let rest = drop off s
            in if rest \<noteq> [] \<and> hd rest = CHR ''.'' then
                 (if ellipsis = None \<and> length ip \<noteq> 12 then None
                  else if length ip + 4 > 16 then None
                  else (case parseIPv4Fields s of
                          None \<Rightarrow> None
                        | Some f \<Rightarrow> Some (ip @ f, ellipsis, [])))
               else
                 let ip = ip @ [acc div 256, acc mod 256]
                 in (case rest of
                       [] \<Rightarrow> Some (ip, ellipsis, [])
                     | [_] \<Rightarrow> None
                     | c # d # s' \<Rightarrow>
                         if c \<noteq> CHR '':'' then None
                         else if d = CHR '':'' then
                           (if ellipsis \<noteq> None then None
                            else if s' = [] then Some (ip, Some (length ip), [])
                            else parseIPv6Loop n s' ip (Some (length ip)))
                         else parseIPv6Loop n (d # s') ip ellipsis))"

definition parseIPv6 :: "string \<Rightarrow> Addr option" where
  "parseIPv6 addr =
     (case (case indexByte addr (CHR ''%'') of
              None \<Rightarrow> Some (addr, [])
            | Some i \<Rightarrow> if drop (i + 1) addr = [] then None else Some (take i addr, drop (i + 1) addr)) of
        None \<Rightarrow> None
      | Some (s, zone) \<Rightarrow>
          let (s, ellipsis) = (if take 2 s = ''::'' then (drop 2 s, Some 0) else (s, None))
          in if s = [] \<and> ellipsis \<noteq> None then Some (Addr6 (replicate 16 0) zone)
             else (case parseIPv6Loop 8 s [] ellipsis of
                     None \<Rightarrow> None
                   | Some (ip, ellipsis, rest) \<Rightarrow>
                       if rest \<noteq> [] then None
                       else if length ip < 16 then
                         (case ellipsis of
                            None \<Rightarrow> None
                          | Some e \<Rightarrow> Some (Addr6 (take e ip @ replicate (16 - length ip) 0 @ drop e ip) zone))
                       else if ellipsis \<noteq> None then None
                       else Some (Addr6 ip zone)))"

definition ParseAddr :: "string \<Rightarrow> Addr option" where
  "ParseAddr s =
     (case find (\<lambda>c. c \<in> {CHR ''.'', CHR '':'', CHR ''%''}) s of
        None \<Rightarrow> None
      | Some c \<Rightarrow>
          if c = CHR ''.'' then map_option Addr4 (parseIPv4Fields s)
          else if c = CHR '':'' then parseIPv6 s
          else None)"

text \<open>
  \<open>PrefixFrom(addr, bits).Masked().String()\<close> for \<open>bits\<close> a multiple of 8, 24 for an IPv4
  address and 64 otherwise: the zone is dropped, the host bytes are cleared, and the address
  is printed with its longest run of zero groups compressed.
\<close>

definition maskBytes :: "nat \<Rightarrow> nat list \<Rightarrow> nat list" where
  "maskBytes n bs = take n bs @ replicate (length bs - n) 0"

fun joinWith :: "string \<Rightarrow> string list \<Rightarrow> string" where
  "joinWith sep [] = []"
| "joinWith sep [x] = x"
| "joinWith sep (x # y # ys) = x @ sep @ joinWith sep (y # ys)"

definition zeroRun :: "nat list \<Rightarrow> nat \<Rightarrow> nat" where
  "zeroRun gs i = length (takeWhile (\<lambda>g. g = 0) (drop i gs))"

definition longestZeroRun :: "nat list \<Rightarrow> (nat \<times> nat) option" where
  "longestZeroRun gs =
     fold (\<lambda>i best. let l = zeroRun gs i
                    in if 2 \<le> l \<and> l > (case best of None \<Rightarrow> 0 | Some (_, m) \<Rightarrow> m) then Some (i, l) else best)
       [0..<length gs] None"

definition string6 :: "nat list \<Rightarrow> string" where
  "string6 bs =
     (let gs = map (\<lambda>i. 256 * (bs ! (2 * i)) + bs ! (2 * i + 1)) [0..<8]
      in case longestZeroRun gs of
           None \<Rightarrow> joinWith '':'' (map hex_nat gs)
         | Some (i, l) \<Rightarrow>
             joinWith '':'' (map hex_nat (take i gs)) @ ''::'' @ joinWith '':'' (map hex_nat (drop (i + l) gs)))"

definition maskedPrefixString :: "Addr \<Rightarrow> nat \<Rightarrow> string" where
  "maskedPrefixString a bits =
     (case a of
        Addr4 bs \<Rightarrow> joinWith ''.'' (map (\<lambda>b. nat_str b) (maskBytes (bits div 8) bs))
      | Addr6 bs _ \<Rightarrow> string6 (maskBytes (bits div 8) bs)) @ ''/'' @ nat_str bits"

end
