(* ===== verification/Device_Domain.thy ===== *)
theory Device_Domain
  imports Prelude
begin

text \<open>
  The domain model of \<open>internal/domain\<close>: devices and their classification, polling cadences,
  topology-discovery modes, virtual-device normalisation, and the constraints of the runtime
  settings. Go string enumerations become datatypes whose last constructor stands for any
  other stored text, so that every \<open>default\<close> branch of the source is a case of the model.
\<close>

subsection \<open>Identifiers and scalars\<close>

text \<open>A \<open>uuid.UUID\<close> is an array of 16 bytes, here one 128-bit word; \<open>uuid.Nil\<close> is zero.\<close>

type_synonym uuid = "128 word"

abbreviation uuid_Nil :: uuid where "uuid_Nil \<equiv> 0"

definition uuid_bytes :: "uuid \<Rightarrow> 8 word list" where
  "uuid_bytes u = map (\<lambda>i. ucast (drop_bit (8 * (15 - i)) u)) [0..<16]"

text \<open>
  The \<open>float64\<close> values the model compares: not-a-number, the infinities and the finite ones
  as rationals. Comparisons are those of IEEE 754: every comparison with NaN is false.
\<close>

datatype f64 = NaN | NegInf | Fin rat | PosInf

fun f64_lt :: "f64 \<Rightarrow> f64 \<Rightarrow> bool" where
  "f64_lt NaN _ = False"
| "f64_lt _ NaN = False"
| "f64_lt NegInf y = (y \<noteq> NegInf)"
| "f64_lt (Fin x) (Fin y) = (x < y)"
| "f64_lt (Fin x) PosInf = True"
| "f64_lt (Fin x) NegInf = False"
| "f64_lt PosInf _ = False"

definition f64_eq :: "f64 \<Rightarrow> f64 \<Rightarrow> bool" where
  "f64_eq x y \<longleftrightarrow> x \<noteq> NaN \<and> x = y"

definition f64_ge :: "f64 \<Rightarrow> f64 \<Rightarrow> bool" where
  "f64_ge x y \<longleftrightarrow> f64_lt y x \<or> f64_eq x y"

subsection \<open>Devices\<close>

datatype DeviceType =
    DeviceTypeRouter | DeviceTypeSwitch | DeviceTypeAP | DeviceTypeVirtual | DeviceTypeUnknown
  | DeviceTypeOther string

datatype DeviceStatus =
    DeviceStatusUp | DeviceStatusDown | DeviceStatusProbing | DeviceStatusUnknown
  | DeviceStatusOther string

datatype MetricsSource =
    MetricsSourcePrometheus | MetricsSourceSNMP | MetricsSourcePrometheusSNMPFallback
  | MetricsSourceNone | MetricsSourceOther string

text \<open>The empty mode is \<open>TopologyDiscoveryModeOther ''''\<close>.\<close>

datatype TopologyDiscoveryMode =
    TopologyDiscoveryModeInherit | TopologyDiscoveryModeOff | TopologyDiscoveryModeLLDP
  | TopologyDiscoveryModeLLDPCDP | TopologyDiscoveryModeBootstrapOnce
  | TopologyDiscoveryModeOther string

datatype TopologyBootstrapState =
    TopologyBootstrapStateIdle | TopologyBootstrapStatePending
  | TopologyBootstrapStateFollowupScheduled | TopologyBootstrapStateCompleted
  | TopologyBootstrapStateOther string

datatype PollClass = PollClassCore | PollClassStandard | PollClassLow | PollClassOther string

text \<open>\<open>VolatilityClassNone\<close> is the empty class, the zero value.\<close>

datatype VolatilityClass =
    VolatilityClassPerformance | VolatilityClassOperational | VolatilityClassStatic
  | VolatilityClassNone

datatype SNMPVersion = SNMPVersionV2c | SNMPVersionV3 | SNMPVersionOther string

record SNMPv2cCredentials =
  v2c_Community :: string

record SNMPv3Credentials =
  v3_Username :: string
  v3_AuthProtocol :: string
  v3_AuthPassword :: string
  v3_PrivProtocol :: string
  v3_PrivPassword :: string
  v3_SecurityLevel :: string

record SNMPCredentials =
  snmp_Version :: SNMPVersion
  snmp_V2c :: "SNMPv2cCredentials option"
  snmp_V3 :: "SNMPv3Credentials option"

datatype DeviceAddressRole =
    DeviceAddressRolePrimary | DeviceAddressRoleManagement | DeviceAddressRoleBackup
  | DeviceAddressRoleMonitoring | DeviceAddressRoleOther | DeviceAddressRoleText string

record DeviceAddress =
  addr_ID :: uuid
  addr_DeviceID :: uuid
  addr_Address :: string
  addr_Label :: string
  addr_Role :: DeviceAddressRole
  addr_IsPrimary :: bool
  addr_Priority :: int
  addr_ProbePorts :: "int list"
  addr_CreatedAt :: gotime
  addr_UpdatedAt :: gotime

record DeviceInterface =
  if_ID :: uuid
  if_DeviceID :: uuid
  if_IfIndex :: int
  if_IfName :: string
  if_IfDescr :: string
  if_Speed :: int
  if_AdminStatus :: string
  if_OperStatus :: string
  if_CreatedAt :: gotime
  if_UpdatedAt :: gotime

record Device =
  dev_ID :: uuid
  dev_Hostname :: string
  dev_IP :: string
  dev_Notes :: "string option"
  dev_SNMPCredentials :: SNMPCredentials
  dev_DeviceType :: DeviceType
  dev_PollClass :: PollClass
  dev_PollIntervalOverride :: "int option"
  dev_PollingEnabled :: "bool option"
  dev_Status :: DeviceStatus
  dev_SysName :: string
  dev_SysDescr :: string
  dev_SysObjectID :: string
  dev_HardwareModel :: string
  dev_OSVersion :: string
  dev_Vendor :: string
  dev_Managed :: bool
  dev_Tags :: "string \<rightharpoonup> string"
  dev_Interfaces :: "DeviceInterface list"
  dev_Addresses :: "DeviceAddress list"
  dev_ProbePorts :: "int list"
  dev_AreaIDs :: "uuid list"
  dev_MetricsSource :: MetricsSource
  dev_PrometheusLabelName :: string
  dev_PrometheusLabelValue :: string
  dev_TopologyDiscoveryMode :: TopologyDiscoveryMode
  dev_EffectiveTopologyDiscoveryMode :: TopologyDiscoveryMode
  dev_TopologyBootstrapState :: TopologyBootstrapState
  dev_LastTopologyDiscoveryAt :: "gotime option"
  dev_LastTopologyDiscoveryResult :: string
  dev_CreatedAt :: gotime
  dev_UpdatedAt :: gotime

definition DevicePollingEnabled :: "Device \<Rightarrow> bool" where
  "DevicePollingEnabled device \<longleftrightarrow>
     (case dev_PollingEnabled device of None \<Rightarrow> True | Some b \<Rightarrow> b)"

definition NormalizeDevicePollingEnabled :: "Device option \<Rightarrow> Device option" where
  "NormalizeDevicePollingEnabled device =
     (case device of
        None \<Rightarrow> None
      | Some d \<Rightarrow> if dev_PollingEnabled d \<noteq> None then Some d
                  else Some (d\<lparr>dev_PollingEnabled := Some True\<rparr>))"

subsection \<open>Topology discovery modes\<close>

definition NormalizeTopologyDiscoveryMode ::
    "TopologyDiscoveryMode \<Rightarrow> TopologyDiscoveryMode \<Rightarrow> TopologyDiscoveryMode" where
  "NormalizeTopologyDiscoveryMode mode fallback =
     (case mode of
        TopologyDiscoveryModeOther _ \<Rightarrow>
          if fallback \<noteq> TopologyDiscoveryModeOther [] then fallback else TopologyDiscoveryModeInherit
      | _ \<Rightarrow> mode)"

definition NormalizeTopologyBootstrapState :: "TopologyBootstrapState \<Rightarrow> TopologyBootstrapState" where
  "NormalizeTopologyBootstrapState state =
     (case state of TopologyBootstrapStateOther _ \<Rightarrow> TopologyBootstrapStateIdle | _ \<Rightarrow> state)"

definition ResolveTopologyDiscoveryMode :: "Device option \<Rightarrow> TopologyDiscoveryMode \<Rightarrow> TopologyDiscoveryMode" where
  "ResolveTopologyDiscoveryMode device defaultMode =
     (let defaultMode = NormalizeTopologyDiscoveryMode defaultMode TopologyDiscoveryModeLLDPCDP
      in case device of
           None \<Rightarrow> defaultMode
         | Some d \<Rightarrow>
             if NormalizeTopologyBootstrapState (dev_TopologyBootstrapState d)
                  \<in> {TopologyBootstrapStatePending, TopologyBootstrapStateFollowupScheduled}
             then TopologyDiscoveryModeBootstrapOnce
             else
               let mode = NormalizeTopologyDiscoveryMode (dev_TopologyDiscoveryMode d)
                            TopologyDiscoveryModeInherit;
                   mode = (if mode = TopologyDiscoveryModeInherit then defaultMode else mode)
               in if mode = TopologyDiscoveryModeBootstrapOnce \<and>
                     NormalizeTopologyBootstrapState (dev_TopologyBootstrapState d)
                       = TopologyBootstrapStateCompleted
                  then TopologyDiscoveryModeOff else mode)"

subsection \<open>Virtual devices\<close>

definition IsVirtualWithIPDevice :: "Device \<Rightarrow> bool" where
  "IsVirtualWithIPDevice device \<longleftrightarrow>
     dev_DeviceType device = DeviceTypeVirtual \<and> TrimSpace (dev_IP device) \<noteq> []"

definition IsVirtualNoIPDevice :: "Device \<Rightarrow> bool" where
  "IsVirtualNoIPDevice device \<longleftrightarrow>
     dev_DeviceType device = DeviceTypeVirtual \<and> TrimSpace (dev_IP device) = []"

text \<open>The device is updated in place; the second component is the returned \<open>changed\<close> flag.\<close>

definition NormalizeVirtualDevice :: "Device option \<Rightarrow> Device option \<times> bool" where
  "NormalizeVirtualDevice device =
     (case device of
        None \<Rightarrow> (None, False)
      | Some d \<Rightarrow>
          if dev_DeviceType d \<noteq> DeviceTypeVirtual then (Some d, False)
          else
            let (d, changed) =
                  (if dev_MetricsSource d \<noteq> MetricsSourceNone
                   then (d\<lparr>dev_MetricsSource := MetricsSourceNone\<rparr>, True) else (d, False));
                (d, changed) =
                  (if IsVirtualNoIPDevice d \<and> dev_Status d \<noteq> DeviceStatusUnknown
                   then (d\<lparr>dev_Status := DeviceStatusUnknown\<rparr>, True) else (d, changed))
            in (Some d, changed))"

definition NormalizeVirtualNoIPDevice :: "Device option \<Rightarrow> Device option \<times> bool" where
  "NormalizeVirtualNoIPDevice device =
     (case device of
        None \<Rightarrow> (None, False)
      | Some d \<Rightarrow>
          if \<not> IsVirtualNoIPDevice d then (Some d, False)
          else
            let (d, changed) =
                  (if dev_Status d \<noteq> DeviceStatusUnknown
                   then (d\<lparr>dev_Status := DeviceStatusUnknown\<rparr>, True) else (d, False));
                (d, changed) =
                  (if dev_MetricsSource d \<noteq> MetricsSourceNone
                   then (d\<lparr>dev_MetricsSource := MetricsSourceNone\<rparr>, True) else (d, changed))
            in (Some d, changed))"

subsection \<open>Polling cadences\<close>

definition PollClassCoreInterval :: duration where "PollClassCoreInterval = 30 * Second"
definition PollClassStandardInterval :: duration where "PollClassStandardInterval = 60 * Second"
definition PollClassLowInterval :: duration where "PollClassLowInterval = 300 * Second"
definition OperationalClassInterval :: duration where "OperationalClassInterval = 60 * Second"
definition StaticClassInterval :: duration where "StaticClassInterval = 300 * Second"

definition ClassifyPollClass :: "DeviceType \<Rightarrow> PollClass" where
  "ClassifyPollClass deviceType =
     (case deviceType of
        DeviceTypeRouter \<Rightarrow> PollClassCore
      | DeviceTypeSwitch \<Rightarrow> PollClassCore
      | DeviceTypeAP \<Rightarrow> PollClassStandard
      | DeviceTypeVirtual \<Rightarrow> PollClassLow
      | DeviceTypeUnknown \<Rightarrow> PollClassStandard
      | DeviceTypeOther _ \<Rightarrow> PollClassStandard)"

definition PollClass_Interval :: "PollClass \<Rightarrow> duration" where
  "PollClass_Interval c =
     (case c of
        PollClassCore \<Rightarrow> PollClassCoreInterval
      | PollClassStandard \<Rightarrow> PollClassStandardInterval
      | PollClassLow \<Rightarrow> PollClassLowInterval
      | PollClassOther _ \<Rightarrow> PollClassStandardInterval)"

lemmas interval_defs =
  PollClassCoreInterval_def PollClassStandardInterval_def PollClassLowInterval_def
  OperationalClassInterval_def StaticClassInterval_def

lemma PollClass_Interval_pos: "0 < PollClass_Interval c"
  by (cases c) (simp_all add: PollClass_Interval_def interval_defs)

end
