(* ===== verification/Runtime_Settings.thy ===== *)
theory Runtime_Settings
  imports Device_Domain
begin

text \<open>
  Runtime settings (\<open>internal/domain/settings.go\<close>, \<open>settings_constraints.go\<close>): the keys, the
  operational ranges, the validation of writes and the coercion of stored values. A settings repository is a Go interface value: the
  model is \<open>None\<close> for \<open>nil\<close>, else a lookup that returns \<open>None\<close> where \<open>Get\<close> returns an error.
\<close>

type_synonym settings_repo = "(string \<Rightarrow> string option) option"

subsection \<open>Keys\<close>

definition SettingPollingInterval :: string where
  "SettingPollingInterval = ''polling_interval_seconds''"
definition SettingSNMPWorkerPoolSize :: string where
  "SettingSNMPWorkerPoolSize = ''snmp_worker_pool_size''"
definition SettingSNMPWorkerPoolPerformance :: string where
  "SettingSNMPWorkerPoolPerformance = ''snmp_worker_pool_performance_size''"
definition SettingSNMPWorkerPoolOperational :: string where
  "SettingSNMPWorkerPoolOperational = ''snmp_worker_pool_operational_size''"
definition SettingSNMPWorkerPoolStatic :: string where
  "SettingSNMPWorkerPoolStatic = ''snmp_worker_pool_static_size''"
definition SettingSNMPTimeout :: string where
  "SettingSNMPTimeout = ''snmp_timeout_seconds''"
definition SettingSNMPRetries :: string where
  "SettingSNMPRetries = ''snmp_retries''"
definition SettingSNMPPerformanceCounterTimeoutMillis :: string where
  "SettingSNMPPerformanceCounterTimeoutMillis = ''snmp_performance_counter_timeout_ms''"
definition SettingSNMPPerformanceCounterRetries :: string where
  "SettingSNMPPerformanceCounterRetries = ''snmp_performance_counter_retries''"
definition SettingPollingEssentialWorkers :: string where
  "SettingPollingEssentialWorkers = ''polling_essential_workers''"
definition SettingPollingMaxWorkersPerSite :: string where
  "SettingPollingMaxWorkersPerSite = ''polling_max_workers_per_site''"
definition SettingPollingMaxWorkersPerSubnet :: string where
  "SettingPollingMaxWorkersPerSubnet = ''polling_max_workers_per_subnet''"
definition SettingPollingMaxWorkersPerDevice :: string where
  "SettingPollingMaxWorkersPerDevice = ''polling_max_workers_per_device''"
definition SettingPollingMaxInflightPerProfile :: string where
  "SettingPollingMaxInflightPerProfile = ''polling_max_inflight_per_snmp_profile''"
definition SettingPollingEssentialTimeoutMillis :: string where
  "SettingPollingEssentialTimeoutMillis = ''polling_essential_timeout_ms''"
definition SettingPollingEssentialRetries :: string where
  "SettingPollingEssentialRetries = ''polling_essential_retries''"
definition SettingPollingWebSocketCoalesceMS :: string where
  "SettingPollingWebSocketCoalesceMS = ''polling_websocket_coalesce_ms''"
definition SettingPollingCapacitySafetyMargin :: string where
  "SettingPollingCapacitySafetyMargin = ''polling_capacity_safety_margin''"
definition SettingPollingForceOverCapacity :: string where
  "SettingPollingForceOverCapacity = ''polling_force_over_capacity''"
definition SettingInstanceBackupRetentionCount :: string where
  "SettingInstanceBackupRetentionCount = ''instance_backup_retention_count''"
definition SettingDeviceBackupRetentionCount :: string where
  "SettingDeviceBackupRetentionCount = ''device_backup_retention_count''"
definition SettingBridgePort :: string where
  "SettingBridgePort = ''bridge_port''"

lemmas setting_keys =
  SettingPollingInterval_def SettingSNMPWorkerPoolSize_def SettingSNMPWorkerPoolPerformance_def
  SettingSNMPWorkerPoolOperational_def SettingSNMPWorkerPoolStatic_def SettingSNMPTimeout_def
  SettingSNMPRetries_def SettingSNMPPerformanceCounterTimeoutMillis_def
  SettingSNMPPerformanceCounterRetries_def SettingPollingEssentialWorkers_def
  SettingPollingMaxWorkersPerSite_def SettingPollingMaxWorkersPerSubnet_def
  SettingPollingMaxWorkersPerDevice_def SettingPollingMaxInflightPerProfile_def
  SettingPollingEssentialTimeoutMillis_def SettingPollingEssentialRetries_def
  SettingPollingWebSocketCoalesceMS_def SettingPollingCapacitySafetyMargin_def
  SettingPollingForceOverCapacity_def SettingInstanceBackupRetentionCount_def
  SettingDeviceBackupRetentionCount_def SettingBridgePort_def

subsection \<open>Constraints\<close>

datatype SettingValueType = SettingValueTypeInteger | SettingValueTypeFloat

record SettingConstraint =
  sc_Type :: SettingValueType
  sc_MinInt :: int
  sc_MaxInt :: int
  sc_MinFloat :: rat
  sc_MaxFloat :: rat
  sc_MinLabel :: string
  sc_MaxLabel :: string

definition intConstraint :: "int \<Rightarrow> int \<Rightarrow> SettingConstraint" where
  "intConstraint mn mx =
     \<lparr>sc_Type = SettingValueTypeInteger, sc_MinInt = mn, sc_MaxInt = mx,
      sc_MinFloat = 0, sc_MaxFloat = 0, sc_MinLabel = Itoa mn, sc_MaxLabel = Itoa mx\<rparr>"

definition floatConstraint :: "rat \<Rightarrow> rat \<Rightarrow> string \<Rightarrow> string \<Rightarrow> SettingConstraint" where
  "floatConstraint mn mx minLabel maxLabel =
     \<lparr>sc_Type = SettingValueTypeFloat, sc_MinInt = 0, sc_MaxInt = 0,
      sc_MinFloat = mn, sc_MaxFloat = mx, sc_MinLabel = minLabel, sc_MaxLabel = maxLabel\<rparr>"

definition SettingConstraints :: "string \<rightharpoonup> SettingConstraint" where
  "SettingConstraints = map_of
     [(SettingPollingInterval, intConstraint 5 3600),
      (SettingSNMPWorkerPoolSize, intConstraint 1 128),
      (SettingSNMPWorkerPoolPerformance, intConstraint 1 128),
      (SettingSNMPWorkerPoolOperational, intConstraint 1 128),
      (SettingSNMPWorkerPoolStatic, intConstraint 1 128),
      (SettingSNMPTimeout, intConstraint 1 120),
      (SettingSNMPRetries, intConstraint 0 10),
      (SettingSNMPPerformanceCounterTimeoutMillis, intConstraint 100 30000),
      (SettingSNMPPerformanceCounterRetries, intConstraint 0 10),
      (SettingPollingEssentialWorkers, intConstraint 1 256),
      (SettingPollingMaxWorkersPerSite, intConstraint 1 256),
      (SettingPollingMaxWorkersPerSubnet, intConstraint 1 256),
      (SettingPollingMaxWorkersPerDevice, intConstraint 1 32),
      (SettingPollingMaxInflightPerProfile, intConstraint 1 256),
      (SettingPollingEssentialTimeoutMillis, intConstraint 100 30000),
      (SettingPollingEssentialRetries, intConstraint 0 10),
      (SettingPollingWebSocketCoalesceMS, intConstraint 50 5000),
      (SettingPollingCapacitySafetyMargin, floatConstraint 1 5 ''1.0'' ''5.0''),
      (SettingInstanceBackupRetentionCount, intConstraint 1 365),
      (SettingDeviceBackupRetentionCount, intConstraint 1 365),
      (SettingBridgePort, intConstraint 1 65535)]"

definition RangeString :: "SettingConstraint \<Rightarrow> string" where
  "RangeString c = sc_MinLabel c @ '' and '' @ sc_MaxLabel c"

datatype setting_error = InvalidInteger string | InvalidFloat string | OutOfRange string string

text \<open>
  \<open>parseFloat\<close> is \<open>strconv.ParseFloat(_, 64)\<close>, \<open>None\<close> for a syntax or range error. It is an
  argument: what the code does with the parsed value does not depend on the syntax.
\<close>

definition NormalizeConstrainedSetting ::
    "(string \<Rightarrow> f64 option) \<Rightarrow> string \<Rightarrow> string \<Rightarrow> setting_error + string" where
  "NormalizeConstrainedSetting parseFloat key value =
     (case SettingConstraints key of
        None \<Rightarrow> Inr value
      | Some constraint \<Rightarrow>
          let trimmed = TrimSpace value
          in (case sc_Type constraint of
               SettingValueTypeInteger \<Rightarrow>
                 (case Atoi trimmed of
                    None \<Rightarrow> Inl (InvalidInteger key)
                  | Some parsed \<Rightarrow>
                      if parsed < sc_MinInt constraint \<or> parsed > sc_MaxInt constraint
                      then Inl (OutOfRange key (RangeString constraint))
                      else Inr (Itoa parsed))
             | SettingValueTypeFloat \<Rightarrow>
                 (case parseFloat trimmed of
                    Some (Fin parsed) \<Rightarrow>
                      if parsed < sc_MinFloat constraint \<or> parsed > sc_MaxFloat constraint
                      then Inl (OutOfRange key (RangeString constraint))
                      else Inr trimmed
                  | _ \<Rightarrow> Inl (InvalidFloat key))))"

definition CoerceConstrainedInt :: "string \<Rightarrow> string \<Rightarrow> int \<Rightarrow> int" where
  "CoerceConstrainedInt key value fallback =
     (case Atoi (TrimSpace value) of
        None \<Rightarrow> fallback
      | Some parsed \<Rightarrow>
          (case SettingConstraints key of
             None \<Rightarrow> parsed
           | Some constraint \<Rightarrow>
               if sc_Type constraint \<noteq> SettingValueTypeInteger then parsed
               else if parsed < sc_MinInt constraint then sc_MinInt constraint
               else if parsed > sc_MaxInt constraint then sc_MaxInt constraint
               else parsed))"

definition CoerceConstrainedFloat ::
    "(string \<Rightarrow> f64 option) \<Rightarrow> string \<Rightarrow> string \<Rightarrow> rat \<Rightarrow> rat" where
  "CoerceConstrainedFloat parseFloat key value fallback =
     (case parseFloat (TrimSpace value) of
        Some (Fin parsed) \<Rightarrow>
          (case SettingConstraints key of
             None \<Rightarrow> parsed
           | Some constraint \<Rightarrow>
               if sc_Type constraint \<noteq> SettingValueTypeFloat then parsed
               else if parsed < sc_MinFloat constraint then sc_MinFloat constraint
               else if parsed > sc_MaxFloat constraint then sc_MaxFloat constraint
               else parsed)
      | _ \<Rightarrow> fallback)"

subsection \<open>The table\<close>

text \<open>Every integer range of the table is non-empty and fits an \<open>int64\<close>.\<close>

lemma SettingConstraints_int:
  "SettingConstraints key = Some c \<Longrightarrow> sc_Type c = SettingValueTypeInteger \<Longrightarrow>
   0 \<le> sc_MinInt c \<and> sc_MinInt c \<le> sc_MaxInt c \<and> sc_MaxInt c \<le> 65535"
  unfolding SettingConstraints_def
  by (drule map_of_SomeD) (auto simp: intConstraint_def floatConstraint_def)

lemma SettingConstraints_float:
  "SettingConstraints key = Some c \<Longrightarrow> sc_Type c = SettingValueTypeFloat \<Longrightarrow>
   sc_MinFloat c = 1 \<and> sc_MaxFloat c = 5"
  unfolding SettingConstraints_def
  by (drule map_of_SomeD) (auto simp: intConstraint_def floatConstraint_def)

lemma CoerceConstrainedInt_range:
  assumes "SettingConstraints key = Some c" and "sc_Type c = SettingValueTypeInteger"
    and "sc_MinInt c \<le> fallback" "fallback \<le> sc_MaxInt c"
  shows "sc_MinInt c \<le> CoerceConstrainedInt key value fallback \<and>
         CoerceConstrainedInt key value fallback \<le> sc_MaxInt c"
  using assms SettingConstraints_int [OF assms(1,2)]
  by (auto simp: CoerceConstrainedInt_def split: option.splits)

lemma CoerceConstrainedFloat_range:
  assumes "SettingConstraints key = Some c" and "sc_Type c = SettingValueTypeFloat"
    and "sc_MinFloat c \<le> fallback" "fallback \<le> sc_MaxFloat c"
  shows "sc_MinFloat c \<le> CoerceConstrainedFloat parseFloat key value fallback \<and>
         CoerceConstrainedFloat parseFloat key value fallback \<le> sc_MaxFloat c"
  using assms SettingConstraints_float [OF assms(1,2)]
  by (auto simp: CoerceConstrainedFloat_def split: option.splits f64.splits)

text \<open>
  What a validated write stores is what a later read yields: the normalised text passes
  validation again unchanged, and the coercion of the stored text neither clamps nor falls
  back.
\<close>

lemma normalized_int_roundtrip:
  assumes c: "SettingConstraints key = Some c" "sc_Type c = SettingValueTypeInteger"
    and n: "NormalizeConstrainedSetting parseFloat key value = Inr stored"
  shows "NormalizeConstrainedSetting parseFloat key stored = Inr stored"
    and "\<exists>n. Atoi (TrimSpace value) = Some n \<and> sc_MinInt c \<le> n \<and> n \<le> sc_MaxInt c \<and>
             stored = Itoa n \<and> CoerceConstrainedInt key stored fallback = n"
proof -
  from c n obtain k where k: "Atoi (TrimSpace value) = Some k" "sc_MinInt c \<le> k" "k \<le> sc_MaxInt c"
      and st: "stored = Itoa k"
    by (auto simp: NormalizeConstrainedSetting_def Let_def split: option.splits if_splits)
  have r: "Atoi (TrimSpace stored) = Some k"
    using k(1) by (simp add: st TrimSpace_Itoa Atoi_Itoa Atoi_range)
  show "NormalizeConstrainedSetting parseFloat key stored = Inr stored"
    using c k r by (simp add: NormalizeConstrainedSetting_def Let_def st)
  show "\<exists>n. Atoi (TrimSpace value) = Some n \<and> sc_MinInt c \<le> n \<and> n \<le> sc_MaxInt c \<and>
             stored = Itoa n \<and> CoerceConstrainedInt key stored fallback = n"
    using c k r st by (intro exI [of _ k]) (simp add: CoerceConstrainedInt_def)
qed

end
