(* ===== verification/Polling_Policy.thy ===== *)
theory Polling_Policy
  imports Runtime_Settings
begin

text \<open>
  Polling policy (\<open>internal/polling\<close>) and worker budgets (\<open>internal/pollingbudget\<close>): how the
  stored settings become worker limits, timeout profiles, capacity warnings and the
  per-volatility-class budgets, and how budgets are clamped to the dispatch buffer.
\<close>

subsection \<open>Vocabulary of \<open>polling/types.go\<close>\<close>

datatype Lane =
    LaneEssential | LaneBackground | LanePerformanceCounterWalks | LaneBootstrap | LaneQuarantine
  | LaneNone

datatype TaskKind = TaskKindEssential | TaskKindBackground | TaskKindBootstrap | TaskKindNone

text \<open>The string values of the enumerations; the empty string is the last constructor.\<close>

definition TaskKind_str :: "TaskKind \<Rightarrow> string" where
  "TaskKind_str k =
     (case k of TaskKindEssential \<Rightarrow> ''essential'' | TaskKindBackground \<Rightarrow> ''background''
      | TaskKindBootstrap \<Rightarrow> ''bootstrap'' | TaskKindNone \<Rightarrow> [])"

definition VolatilityClass_str :: "VolatilityClass \<Rightarrow> string" where
  "VolatilityClass_str v =
     (case v of VolatilityClassStatic \<Rightarrow> ''static'' | VolatilityClassOperational \<Rightarrow> ''operational''
      | VolatilityClassPerformance \<Rightarrow> ''performance'' | VolatilityClassNone \<Rightarrow> [])"

record TimeoutProfile =
  tp_Timeout :: duration
  tp_Retries :: int

datatype WarningCode =
    WarningIntervalBelowTimeoutWindow | WarningEstimatedWorkersExceeded | WarningBudgetExceedsGlobal

record CapacityWarning =
  cw_Code :: WarningCode
  cw_Message :: string

record Policy =
  pol_EssentialWorkers :: int
  pol_MaxWorkersPerSite :: int
  pol_MaxWorkersPerSubnet :: int
  pol_MaxWorkersPerDevice :: int
  pol_MaxInflightPerProfile :: int
  pol_WebSocketCoalesce :: duration
  pol_SafetyMargin :: rat
  pol_ForceOverCapacity :: bool
  pol_DegradedRisk :: bool
  pol_Timeouts :: "Lane \<rightharpoonup> TimeoutProfile"

text \<open>
  Floating point: \<open>fl\<close> rounds an exact result to \<open>float64\<close> and \<open>parseFloat\<close> is
  \<open>strconv.ParseFloat\<close>. Every arithmetic operation of the source is one rounding.
\<close>

record FloatOps =
  fl :: "rat \<Rightarrow> rat"
  parseFloat :: "string \<Rightarrow> f64 option"

subsection \<open>Reading settings\<close>

definition intSetting :: "settings_repo \<Rightarrow> string \<Rightarrow> int \<Rightarrow> int" where
  "intSetting repo key fallback =
     (case repo of
        None \<Rightarrow> fallback
      | Some get \<Rightarrow> (case get key of
                       None \<Rightarrow> fallback
                     | Some value \<Rightarrow> CoerceConstrainedInt key value fallback))"

definition durationMSSetting :: "settings_repo \<Rightarrow> string \<Rightarrow> duration \<Rightarrow> duration" where
  "durationMSSetting repo key fallback =
     wrap64 (intSetting repo key (quot64 fallback Millisecond) * Millisecond)"

definition durationSecondsSetting :: "settings_repo \<Rightarrow> string \<Rightarrow> duration \<Rightarrow> duration" where
  "durationSecondsSetting repo key fallback =
     wrap64 (intSetting repo key (quot64 fallback Second) * Second)"

definition floatSetting :: "FloatOps \<Rightarrow> settings_repo \<Rightarrow> string \<Rightarrow> rat \<Rightarrow> rat" where
  "floatSetting F repo key fallback =
     (case repo of
        None \<Rightarrow> fallback
      | Some get \<Rightarrow> (case get key of
                       None \<Rightarrow> fallback
                     | Some value \<Rightarrow> CoerceConstrainedFloat (parseFloat F) key value fallback))"

text \<open>\<open>strconv.ParseBool\<close> accepts exactly these spellings.\<close>

definition ParseBool :: "string \<Rightarrow> bool option" where
  "ParseBool s =
     (if s \<in> {''1'', ''t'', ''T'', ''true'', ''TRUE'', ''True''} then Some True
      else if s \<in> {''0'', ''f'', ''F'', ''false'', ''FALSE'', ''False''} then Some False
      else None)"

definition boolSetting :: "settings_repo \<Rightarrow> string \<Rightarrow> bool \<Rightarrow> bool" where
  "boolSetting repo key fallback =
     (case repo of
        None \<Rightarrow> fallback
      | Some get \<Rightarrow> (case get key of
                       None \<Rightarrow> fallback
                     | Some value \<Rightarrow> (case ParseBool (TrimSpace value) of
                                        None \<Rightarrow> fallback
                                      | Some parsed \<Rightarrow> parsed)))"

subsection \<open>Capacity\<close>

text \<open>
  \<open>Duration.Seconds\<close>: whole seconds plus the rest divided by 1e9. The conversion of the rounded-up
  worker count to \<open>int\<close> is taken to be exact, as it is below \<open>2 ^ 63\<close>.
\<close>

definition Duration_Seconds :: "FloatOps \<Rightarrow> duration \<Rightarrow> rat" where
  "Duration_Seconds F d =
     (let sec = quot64 d Second; nsec = d - sec * Second
      in fl F (fl F (of_int sec) + fl F (fl F (of_int nsec) / 1000000000)))"

definition EstimateRequiredWorkers ::
    "FloatOps \<Rightarrow> int \<Rightarrow> duration \<Rightarrow> duration \<Rightarrow> rat \<Rightarrow> int" where
  "EstimateRequiredWorkers F deviceCount observedP95 shortestInterval margin =
     (if deviceCount \<le> 0 \<or> observedP95 \<le> 0 \<or> shortestInterval \<le> 0 then 0
      else
        let margin = (if margin \<le> 0 then 1 else margin);
            pollsPerSecond = fl F (fl F (of_int deviceCount) / Duration_Seconds F shortestInterval);
            workers = fl F (fl F (pollsPerSecond * Duration_Seconds F observedP95) * margin)
        in \<lceil>workers\<rceil>)"

definition PolicyFromSettings ::
    "FloatOps \<Rightarrow> settings_repo \<Rightarrow> int \<Rightarrow> duration \<Rightarrow> duration \<Rightarrow> Policy \<times> CapacityWarning list" where
  "PolicyFromSettings F repo deviceCount observedP95 shortestInterval =
     (let backgroundProfile =
            \<lparr>tp_Timeout = durationSecondsSetting repo SettingSNMPTimeout (5 * Second),
             tp_Retries = intSetting repo SettingSNMPRetries 0\<rparr>;
          walks = backgroundProfile;
          walks = (if tp_Timeout walks > 2 * Second then walks\<lparr>tp_Timeout := 2 * Second\<rparr> else walks);
          walks = walks\<lparr>tp_Retries := 0\<rparr>;
          walks =
            \<lparr>tp_Timeout = durationMSSetting repo SettingSNMPPerformanceCounterTimeoutMillis (tp_Timeout walks),
             tp_Retries = intSetting repo SettingSNMPPerformanceCounterRetries (tp_Retries walks)\<rparr>;
          essential =
            \<lparr>tp_Timeout = durationMSSetting repo SettingPollingEssentialTimeoutMillis (1200 * Millisecond),
             tp_Retries = intSetting repo SettingPollingEssentialRetries 1\<rparr>;
          policy =
            \<lparr>pol_EssentialWorkers = intSetting repo SettingPollingEssentialWorkers 64,
             pol_MaxWorkersPerSite = intSetting repo SettingPollingMaxWorkersPerSite 16,
             pol_MaxWorkersPerSubnet = intSetting repo SettingPollingMaxWorkersPerSubnet 8,
             pol_MaxWorkersPerDevice = intSetting repo SettingPollingMaxWorkersPerDevice 1,
             pol_MaxInflightPerProfile = intSetting repo SettingPollingMaxInflightPerProfile 16,
             pol_WebSocketCoalesce = durationMSSetting repo SettingPollingWebSocketCoalesceMS (500 * Millisecond),
             pol_SafetyMargin = floatSetting F repo SettingPollingCapacitySafetyMargin (3 / 2),
             pol_ForceOverCapacity = boolSetting repo SettingPollingForceOverCapacity False,
             pol_DegradedRisk = False,
             pol_Timeouts =
               [LaneEssential \<mapsto> essential,
                LaneBackground \<mapsto> backgroundProfile,
                LanePerformanceCounterWalks \<mapsto> walks,
                LaneBootstrap \<mapsto> \<lparr>tp_Timeout = 10 * Second, tp_Retries = 1\<rparr>,
                LaneQuarantine \<mapsto> \<lparr>tp_Timeout = Second, tp_Retries = 0\<rparr>]\<rparr>;
          timeoutWindow = wrap64 (tp_Timeout essential * (tp_Retries essential + 1));
          w1 = (if shortestInterval > 0 \<and> shortestInterval \<le> timeoutWindow
                then [\<lparr>cw_Code = WarningIntervalBelowTimeoutWindow,
                       cw_Message = ''essential polling interval is not greater than timeout multiplied by attempts''\<rparr>]
                else []);
          requiredWorkers =
            EstimateRequiredWorkers F deviceCount observedP95 shortestInterval (pol_SafetyMargin policy);
          exceeded = requiredWorkers > pol_EssentialWorkers policy;
          w2 = (if exceeded
                then [\<lparr>cw_Code = WarningEstimatedWorkersExceeded,
                       cw_Message = ''estimated essential worker demand exceeds configured workers''\<rparr>]
                else []);
          policy = (if exceeded \<and> \<not> pol_ForceOverCapacity policy
                    then policy\<lparr>pol_DegradedRisk := True\<rparr> else policy);
          w3 = (if pol_MaxWorkersPerSite policy > pol_EssentialWorkers policy \<or>
                   pol_MaxWorkersPerSubnet policy > pol_EssentialWorkers policy \<or>
                   pol_MaxInflightPerProfile policy > pol_EssentialWorkers policy
                then [\<lparr>cw_Code = WarningBudgetExceedsGlobal,
                       cw_Message = ''one or more isolation budgets exceed the global essential worker budget''\<rparr>]
                else [])
      in (policy, w1 @ w2 @ w3))"

subsection \<open>Health snapshots\<close>

record QueueSnapshot =
  qs_ReadyDepth :: int
  qs_LagSeconds :: rat
  qs_ActiveWorkers :: int
  qs_ConfiguredWorkers :: int

record HealthSnapshot =
  hs_EssentialOverloaded :: bool
  hs_DegradedRisk :: bool
  hs_EssentialQueueLagSeconds :: rat
  hs_DeadlineMissTotal :: "64 word"
  hs_ActiveWorkers :: int
  hs_ConfiguredWorkers :: int
  hs_Queues :: "string \<rightharpoonup> QueueSnapshot"
  hs_Warnings :: "CapacityWarning list"

definition HealthSnapshot_Status :: "HealthSnapshot \<Rightarrow> string" where
  "HealthSnapshot_Status h =
     (if hs_EssentialOverloaded h then ''overloaded''
      else if hs_DegradedRisk h \<or> hs_Warnings h \<noteq> [] then ''degraded-risk''
      else ''ok'')"

subsection \<open>Worker budgets\<close>

type_synonym budgets = "VolatilityClass \<rightharpoonup> int"

definition defaultWorkerPoolSize :: int where "defaultWorkerPoolSize = 5"

definition orderedVolatilityClasses :: "VolatilityClass list" where
  "orderedVolatilityClasses =
     [VolatilityClassPerformance, VolatilityClassOperational, VolatilityClassStatic]"

definition legacyTotal :: "settings_repo \<Rightarrow> int" where
  "legacyTotal repo =
     (case repo of
        None \<Rightarrow> defaultWorkerPoolSize
      | Some get \<Rightarrow>
          (case get SettingSNMPWorkerPoolSize of
             None \<Rightarrow> defaultWorkerPoolSize
           | Some value \<Rightarrow>
               (case Atoi (TrimSpace value) of
                  None \<Rightarrow> defaultWorkerPoolSize
                | Some parsed \<Rightarrow>
                    if parsed \<le> 0 then defaultWorkerPoolSize
                    else CoerceConstrainedInt SettingSNMPWorkerPoolSize value defaultWorkerPoolSize)))"

definition readPositive :: "(string \<Rightarrow> string option) \<Rightarrow> string \<Rightarrow> int option" where
  "readPositive get key =
     (case get key of
        None \<Rightarrow> None
      | Some value \<Rightarrow>
          (case Atoi (TrimSpace value) of
             None \<Rightarrow> None
           | Some parsed \<Rightarrow> if parsed \<le> 0 then None else Some (CoerceConstrainedInt key value 0)))"

definition defaultSplit :: "int \<Rightarrow> budgets" where
  "defaultSplit tot =
     (let budgets = [VolatilityClassPerformance \<mapsto> 0, VolatilityClassOperational \<mapsto> 0,
                     VolatilityClassStatic \<mapsto> 0]
      in if tot \<le> 0 then budgets(VolatilityClassPerformance \<mapsto> defaultWorkerPoolSize)
         else if tot = 1 then budgets(VolatilityClassPerformance \<mapsto> 1)
         else if tot = 2 then budgets(VolatilityClassPerformance \<mapsto> 1, VolatilityClassOperational \<mapsto> 1)
         else budgets(VolatilityClassPerformance \<mapsto> tot - 2, VolatilityClassOperational \<mapsto> 1,
                      VolatilityClassStatic \<mapsto> 1))"

definition override :: "(string \<Rightarrow> string option) \<Rightarrow> string \<Rightarrow> VolatilityClass \<Rightarrow> budgets \<Rightarrow> budgets" where
  "override get key volatility b =
     (case readPositive get key of None \<Rightarrow> b | Some value \<Rightarrow> b(volatility \<mapsto> value))"

definition Resolve :: "settings_repo \<Rightarrow> budgets" where
  "Resolve repo =
     (let budgets = defaultSplit (legacyTotal repo)
      in case repo of
           None \<Rightarrow> budgets
         | Some get \<Rightarrow>
             override get SettingSNMPWorkerPoolStatic VolatilityClassStatic
               (override get SettingSNMPWorkerPoolOperational VolatilityClassOperational
                 (override get SettingSNMPWorkerPoolPerformance VolatilityClassPerformance budgets)))"

definition Budget_Sum :: "budgets \<Rightarrow> int" where
  "Budget_Sum b =
     (let tot = foldl (\<lambda>tot v. if cget b v > 0 then tot + cget b v else tot) 0
                  orderedVolatilityClasses
      in if tot \<le> 0 then defaultWorkerPoolSize else tot)"

definition Budget_Total :: "settings_repo \<Rightarrow> int" where
  "Budget_Total repo = Budget_Sum (Resolve repo)"

text \<open>
  \<open>Clamp\<close> runs three loops over the classes: collect the active ones and zero them, give one
  worker to each while any remain, then fill each up to its budget. \<open>fill\<close> is the inner loop.
\<close>

definition collectActive :: "budgets \<Rightarrow> VolatilityClass list \<times> budgets" where
  "collectActive clamped =
     foldl (\<lambda>(active, c) v. if cget c v > 0 then (active @ [v], c(v \<mapsto> 0)) else (active, c))
       ([], clamped) orderedVolatilityClasses"

fun giveOne :: "VolatilityClass list \<Rightarrow> int \<Rightarrow> budgets \<Rightarrow> int \<times> budgets" where
  "giveOne [] remaining c = (remaining, c)"
| "giveOne (v # vs) remaining c =
     (if remaining = 0 then (remaining, c) else giveOne vs (remaining - 1) (c(v \<mapsto> 1)))"

function fill :: "budgets \<Rightarrow> VolatilityClass \<Rightarrow> int \<Rightarrow> budgets \<Rightarrow> int \<times> budgets" where
  "fill b v remaining c =
     (if remaining > 0 \<and> cget c v < cget b v
      then fill b v (remaining - 1) (c(v \<mapsto> cget c v + 1)) else (remaining, c))"
  by pat_completeness auto
termination
  by (relation "measure (\<lambda>(b, v, remaining, c). nat remaining)") auto

declare fill.simps [simp del]

definition copyBudgets :: "budgets \<Rightarrow> budgets" where
  "copyBudgets b = foldl (\<lambda>c v. c(v \<mapsto> cget b v)) Map.empty orderedVolatilityClasses"

definition Clamp :: "budgets \<Rightarrow> int \<Rightarrow> budgets" where
  "Clamp b limit =
     (let clamped = copyBudgets b
      in if limit \<le> 0 then foldl (\<lambda>c v. c(v \<mapsto> 0)) clamped orderedVolatilityClasses
         else if Budget_Sum clamped \<le> limit then clamped
         else
           let (active, clamped) = collectActive clamped;
               (remaining, clamped) = giveOne active limit clamped
           in snd (foldl (\<lambda>(remaining, c) v. fill b v remaining c) (remaining, clamped)
                     orderedVolatilityClasses))"

subsection \<open>Specification vocabulary\<close>

text \<open>
  \<open>bsum\<close> is the number of workers a budget hands out, \<open>gain\<close> what one fill loop adds,
  \<open>policy_in_range\<close> the operational ranges of \<open>settings_constraints.go\<close> as a predicate on
  policies, with the fixed timeouts of the bootstrap and quarantine lanes, \<open>counterWalkFallback\<close> the cap of the counter-walk timeout.
\<close>

abbreviation bsum :: "budgets \<Rightarrow> int" where
  "bsum b \<equiv> max 0 (cget b VolatilityClassPerformance) + max 0 (cget b VolatilityClassOperational)
     + max 0 (cget b VolatilityClassStatic)"

definition gain :: "budgets \<Rightarrow> VolatilityClass \<Rightarrow> int \<Rightarrow> budgets \<Rightarrow> int" where
  "gain b v r c = max 0 (min r (cget b v - cget c v))"

definition lane_in_range :: "Policy \<Rightarrow> Lane \<Rightarrow> duration \<Rightarrow> duration \<Rightarrow> int \<Rightarrow> int \<Rightarrow> bool" where
  "lane_in_range p lane minTimeout maxTimeout minRetries maxRetries =
     (case pol_Timeouts p lane of
        None \<Rightarrow> False
      | Some t \<Rightarrow> minTimeout \<le> tp_Timeout t \<and> tp_Timeout t \<le> maxTimeout \<and>
                  minRetries \<le> tp_Retries t \<and> tp_Retries t \<le> maxRetries)"

definition policy_in_range :: "Policy \<Rightarrow> bool" where
  "policy_in_range p \<longleftrightarrow>
     pol_EssentialWorkers p \<in> {1..256} \<and> pol_MaxWorkersPerSite p \<in> {1..256} \<and>
     pol_MaxWorkersPerSubnet p \<in> {1..256} \<and> pol_MaxWorkersPerDevice p \<in> {1..32} \<and>
     pol_MaxInflightPerProfile p \<in> {1..256} \<and>
     pol_WebSocketCoalesce p \<in> {50 * Millisecond..5000 * Millisecond} \<and>
     pol_SafetyMargin p \<in> {1..5} \<and>
     lane_in_range p LaneEssential (100 * Millisecond) (30000 * Millisecond) 0 10 \<and>
     lane_in_range p LaneBackground Second (120 * Second) 0 10 \<and>
     lane_in_range p LanePerformanceCounterWalks (100 * Millisecond) (30000 * Millisecond) 0 10 \<and>
     lane_in_range p LaneBootstrap (10 * Second) (10 * Second) 1 1 \<and>
     lane_in_range p LaneQuarantine Second Second 0 0"

definition counterWalkFallback :: "duration \<Rightarrow> duration" where
  "counterWalkFallback bg = (if bg > 2 * Second then 2 * Second else bg)"

subsection \<open>Clamping\<close>

lemma Budget_Sum_eq: "Budget_Sum b = (if bsum b \<le> 0 then 5 else bsum b)"
  by (auto simp: Budget_Sum_def orderedVolatilityClasses_def defaultWorkerPoolSize_def Let_def)

lemma copyBudgets_cget:
  "cget (copyBudgets b) v = (if v = VolatilityClassNone then 0 else cget b v)"
  by (cases v) (simp_all add: copyBudgets_def orderedVolatilityClasses_def)

lemma fill_cget:
  assumes "0 \<le> r"
  shows "fst (fill b v r c) = r - gain b v r c \<and>
         cget (snd (fill b v r c)) w = (if w = v then cget c v + gain b v r c else cget c w)"
  using assms
proof (induction b v r c rule: fill.induct)
  case (1 b v r c)
  show ?case
  proof (cases "r > 0 \<and> cget c v < cget b v")
    case True
    let ?c = "c(v \<mapsto> cget c v + 1)"
    have "gain b v (r - 1) ?c = gain b v r c - 1"
      using True by (auto simp: gain_def)
    moreover have "fill b v r c = fill b v (r - 1) ?c"
      using True by (subst fill.simps) simp
    moreover have "fst (fill b v (r - 1) ?c) = r - 1 - gain b v (r - 1) ?c \<and>
        cget (snd (fill b v (r - 1) ?c)) w =
          (if w = v then cget ?c v + gain b v (r - 1) ?c else cget ?c w)"
      using 1(1) [OF True] True unfolding fun_upd_def by simp
    ultimately show ?thesis by (auto simp: cget_upd)
  next
    case False
    then have "gain b v r c = 0" using 1(2) by (auto simp: gain_def)
    moreover have "fill b v r c = (r, c)" using False by (subst fill.simps) auto
    ultimately show ?thesis by simp
  qed
qed

lemma collectActive_eq:
  "collectActive c =
     (filter (\<lambda>v. cget c v > 0) orderedVolatilityClasses,
      snd (collectActive c))"
  "cget (snd (collectActive c)) v =
     (if v \<noteq> VolatilityClassNone \<and> cget c v > 0 then 0 else cget c v)"
  by (auto simp: collectActive_def orderedVolatilityClasses_def; cases v; auto)+

lemma giveOne_cget:
  assumes "distinct vs" and "0 \<le> r"
  shows "fst (giveOne vs r c) = r - min r (int (length vs))"
    and "cget (snd (giveOne vs r c)) w = (if w \<in> set (take (nat r) vs) then 1 else cget c w)"
  using assms
proof (induction vs arbitrary: r c)
  case (Cons v vs)
  { case 1 then show ?case using Cons.IH(1) [of "r - 1"] by auto }
  { case 2
    show ?case
    proof (cases "r = 0")
      case False
      then have "nat r = Suc (nat (r - 1))" using 2 by simp
      moreover have "v \<notin> set (take (nat (r - 1)) vs)" using 2 by (auto dest: in_set_takeD)
      moreover have "cget (snd (giveOne vs (r - 1) (c(v \<mapsto> 1)))) w =
          (if w \<in> set (take (nat (r - 1)) vs) then 1 else cget (c(v \<mapsto> 1)) w)"
        using 2 False Cons.IH(2) [of "r - 1" "c(v \<mapsto> 1)"] unfolding fun_upd_def by simp
      ultimately show ?thesis using False by (auto simp: cget_upd)
    qed simp }
qed auto

lemma Budget_Sum_copy: "Budget_Sum (copyBudgets b) = Budget_Sum b"
  by (simp add: Budget_Sum_eq copyBudgets_cget)

lemma Clamp_small: "0 < limit \<Longrightarrow> Budget_Sum b \<le> limit \<Longrightarrow> Clamp b limit = copyBudgets b"
  by (simp add: Clamp_def Let_def Budget_Sum_copy)

lemma Clamp_large:
  assumes "0 < limit" and "limit < Budget_Sum b"
    and A: "A = collectActive (copyBudgets b)" and q: "q = giveOne (fst A) limit (snd A)"
    and f1: "f1 = fill b VolatilityClassPerformance (fst q) (snd q)"
    and f2: "f2 = fill b VolatilityClassOperational (fst f1) (snd f1)"
  shows "Clamp b limit = snd (fill b VolatilityClassStatic (fst f2) (snd f2))"
proof -
  have "foldl (\<lambda>(r, c) v. fill b v r c) q orderedVolatilityClasses =
      fill b VolatilityClassStatic (fst f2) (snd f2)"
    by (simp add: orderedVolatilityClasses_def f1 f2 case_prod_beta)
  then show ?thesis
    using assms(1,2) by (simp add: Clamp_def Let_def Budget_Sum_copy A q case_prod_beta)
qed

lemma fill_upto:
  assumes "0 \<le> r" and "cget c v \<le> cget b v"
  shows "fst (fill b v r c) = r + cget c v - min (cget b v) (r + cget c v)"
    and "cget (snd (fill b v r c)) w = (if w = v then min (cget b v) (r + cget c v) else cget c w)"
  using fill_cget [OF assms(1), of b v c w] assms by (auto simp: gain_def)

lemma shares_total:
  fixes bP bO bS r qP qO qS :: int
  assumes "0 \<le> qP" "qP \<le> bP" "0 \<le> qO" "qO \<le> bO" "0 \<le> qS" "qS \<le> bS" "0 \<le> r"
    and "r + qP + qO + qS \<le> bP + bO + bS"
    and "xP = min bP (r + qP)" and "r1 = r + qP - xP"
    and "xO = min bO (r1 + qO)" and "r2 = r1 + qO - xO" and "xS = min bS (r2 + qS)"
  shows "xP + xO + xS = r + qP + qO + qS"
  using assms by (cases "bP \<le> r + qP"; cases "bO \<le> r1 + qO") (simp_all add: min_def)

lemma giveOne_active:
  fixes limit :: int
  assumes l: "0 < limit" and n: "\<And>v. 0 \<le> cget b v"
  defines "q \<equiv> (let A = collectActive (copyBudgets b) in giveOne (fst A) limit (snd A))"
  shows "0 \<le> fst q"
    and "0 \<le> cget (snd q) v \<and> cget (snd q) v \<le> cget b v"
    and "0 < cget b v \<Longrightarrow> v \<noteq> VolatilityClassNone \<Longrightarrow> 3 \<le> limit \<Longrightarrow> cget (snd q) v = 1"
    and "fst q + cget (snd q) VolatilityClassPerformance + cget (snd q) VolatilityClassOperational
           + cget (snd q) VolatilityClassStatic = limit"
proof -
  define A where "A = collectActive (copyBudgets b)"
  have q: "q = giveOne (fst A) limit (snd A)" by (simp add: q_def A_def Let_def)
  have act: "fst A = filter (\<lambda>v. cget b v > 0) orderedVolatilityClasses"
    unfolding A_def by (subst collectActive_eq(1)) (auto simp: copyBudgets_cget orderedVolatilityClasses_def)
  have zero: "cget (snd A) v = 0" for v
    using n [of v] by (auto simp: A_def collectActive_eq(2) copyBudgets_cget)
  have dist: "distinct (fst A)" by (simp add: act orderedVolatilityClasses_def)
  have q1: "fst q = limit - min limit (int (length (fst A)))"
    using giveOne_cget(1) [OF dist] l by (simp add: q)
  have q2: "cget (snd q) v = (if v \<in> set (take (nat limit) (fst A)) then 1 else 0)" for v
    using giveOne_cget(2) [OF dist, of limit "snd A" v] l zero by (simp add: q)
  show "0 \<le> fst q" using q1 by simp
  show "0 \<le> cget (snd q) v \<and> cget (snd q) v \<le> cget b v"
    using n [of v] by (auto simp: q2 act dest: in_set_takeD)
  show "cget (snd q) v = 1" if "0 < cget b v" "v \<noteq> VolatilityClassNone" "3 \<le> limit"
  proof -
    have "v \<in> set (fst A)" using that by (cases v) (auto simp: act orderedVolatilityClasses_def)
    moreover have "length (fst A) \<le> nat limit"
      using that length_filter_le [of "\<lambda>v. cget b v > 0" orderedVolatilityClasses]
      by (simp add: act orderedVolatilityClasses_def nat_le_iff del: filter.simps)
    ultimately show ?thesis by (simp add: q2)
  qed
  show "fst q + cget (snd q) VolatilityClassPerformance + cget (snd q) VolatilityClassOperational
           + cget (snd q) VolatilityClassStatic = limit"
    using l unfolding q1 q2 act orderedVolatilityClasses_def by (auto simp: take_Cons')
qed

text \<open>
  Clamping a budget that exceeds the buffer hands out exactly \<open>limit\<close> workers, never raises
  a class above its own budget, and keeps at least one worker for every class that had one as
  long as there are enough of them.
\<close>

lemma Clamp_exceeded:
  assumes l: "0 < limit" and s: "limit < Budget_Sum b" and n: "\<And>v. 0 \<le> cget b v" and p: "0 < bsum b"
  defines "c \<equiv> Clamp b limit"
  shows "bsum c = limit" and "v \<noteq> VolatilityClassNone \<Longrightarrow> 0 \<le> cget c v \<and> cget c v \<le> cget b v"
    and "v \<noteq> VolatilityClassNone \<Longrightarrow> 0 < cget b v \<Longrightarrow> 3 \<le> limit \<Longrightarrow> 1 \<le> cget c v"
proof -
  define q where "q = (let A = collectActive (copyBudgets b) in giveOne (fst A) limit (snd A))"
  define f1 where "f1 = fill b VolatilityClassPerformance (fst q) (snd q)"
  define f2 where "f2 = fill b VolatilityClassOperational (fst f1) (snd f1)"
  note g = giveOne_active [OF l n, folded q_def]
  have c: "c = snd (fill b VolatilityClassStatic (fst f2) (snd f2))"
    unfolding c_def by (rule Clamp_large [OF l s refl _ f1_def f2_def]) (simp add: q_def Let_def)
  have lt: "limit < bsum b" using s p by (simp add: Budget_Sum_eq split: if_splits)
  note F1 = fill_upto [OF g(1), of "snd q" VolatilityClassPerformance b, folded f1_def]
  have r1: "0 \<le> fst f1" using F1(1) g(1,2) by simp
  have le1: "cget (snd f1) VolatilityClassOperational \<le> cget b VolatilityClassOperational"
    using F1(2) g(2) by simp
  note F2 = fill_upto [OF r1 le1, folded f2_def]
  have r2: "0 \<le> fst f2" using F2(1) by simp
  have le2: "cget (snd f2) VolatilityClassStatic \<le> cget b VolatilityClassStatic"
    using F1(2) F2(2) g(2) by simp
  note F3 = fill_upto [OF r2 le2, folded c]
  have vals: "cget c VolatilityClassPerformance =
        min (cget b VolatilityClassPerformance) (fst q + cget (snd q) VolatilityClassPerformance)"
      "cget c VolatilityClassOperational =
        min (cget b VolatilityClassOperational) (fst f1 + cget (snd q) VolatilityClassOperational)"
      "cget c VolatilityClassStatic =
        min (cget b VolatilityClassStatic) (fst f2 + cget (snd q) VolatilityClassStatic)"
    using F1(2) F2(2) F3(2) g(2) by simp_all
  have "cget c VolatilityClassPerformance + cget c VolatilityClassOperational
      + cget c VolatilityClassStatic = limit"
    unfolding g(4) [symmetric]
    by (rule shares_total [OF _ _ _ _ _ _ _ _ vals(1) _ vals(2) _ vals(3)])
      (use g lt n F1 F2 in \<open>simp_all add: vals\<close>)
  moreover show "0 \<le> cget c v \<and> cget c v \<le> cget b v" if "v \<noteq> VolatilityClassNone" for v
    using that n g(1,2) r1 r2 by (cases v) (simp_all add: vals)
  ultimately show "bsum c = limit" by simp
  show "1 \<le> cget c v" if "v \<noteq> VolatilityClassNone" "0 < cget b v" "3 \<le> limit"
    using that n g(1) g(3) [OF that(2,1,3)] r1 r2 by (cases v) (simp_all add: vals)
qed

subsection \<open>Every limit stays in its operational range\<close>

lemma intSetting_range:
  assumes "SettingConstraints key = Some (intConstraint lo hi)" and "lo \<le> fallback" "fallback \<le> hi"
  shows "lo \<le> intSetting repo key fallback \<and> intSetting repo key fallback \<le> hi"
  using CoerceConstrainedInt_range [OF assms(1), of fallback] assms(2,3)
  by (auto simp: intSetting_def intConstraint_def split: option.splits)

lemma floatSetting_range:
  assumes "SettingConstraints key = Some (floatConstraint lo hi x y)" and "lo \<le> fallback" "fallback \<le> hi"
  shows "lo \<le> floatSetting F repo key fallback \<and> floatSetting F repo key fallback \<le> hi"
  using CoerceConstrainedFloat_range [OF assms(1), of fallback "parseFloat F"] assms(2,3)
  by (auto simp: floatSetting_def floatConstraint_def split: option.splits)

lemma durationMSSetting_range:
  assumes "SettingConstraints key = Some (intConstraint lo hi)"
    and "lo \<le> quot64 fallback Millisecond" "quot64 fallback Millisecond \<le> hi" "0 \<le> lo" "hi \<le> 65535"
  shows "lo * Millisecond \<le> durationMSSetting repo key fallback \<and>
         durationMSSetting repo key fallback \<le> hi * Millisecond"
proof -
  let ?n = "intSetting repo key (quot64 fallback Millisecond)"
  have r: "lo \<le> ?n" "?n \<le> hi" using intSetting_range [OF assms(1-3)] by auto
  then have "wrap64 (?n * Millisecond) = ?n * Millisecond"
    using assms(4,5) by (intro wrap64_id) (simp add: int64_range_def)
  then show ?thesis using r by (simp add: durationMSSetting_def)
qed

lemma durationSecondsSetting_range:
  assumes "SettingConstraints key = Some (intConstraint lo hi)"
    and "lo \<le> quot64 fallback Second" "quot64 fallback Second \<le> hi" "0 \<le> lo" "hi \<le> 65535"
  shows "lo * Second \<le> durationSecondsSetting repo key fallback \<and>
         durationSecondsSetting repo key fallback \<le> hi * Second"
proof -
  let ?n = "intSetting repo key (quot64 fallback Second)"
  have r: "lo \<le> ?n" "?n \<le> hi" using intSetting_range [OF assms(1-3)] by auto
  then have "wrap64 (?n * Second) = ?n * Second"
    using assms(4,5) by (intro wrap64_id) (simp add: int64_range_def)
  then show ?thesis using r by (simp add: durationSecondsSetting_def)
qed

lemma limit_constraints:
  "SettingConstraints SettingPollingEssentialWorkers = Some (intConstraint 1 256)"
  "SettingConstraints SettingPollingMaxWorkersPerSite = Some (intConstraint 1 256)"
  "SettingConstraints SettingPollingMaxWorkersPerSubnet = Some (intConstraint 1 256)"
  "SettingConstraints SettingPollingMaxWorkersPerDevice = Some (intConstraint 1 32)"
  "SettingConstraints SettingPollingMaxInflightPerProfile = Some (intConstraint 1 256)"
  "SettingConstraints SettingPollingEssentialTimeoutMillis = Some (intConstraint 100 30000)"
  "SettingConstraints SettingPollingEssentialRetries = Some (intConstraint 0 10)"
  "SettingConstraints SettingPollingWebSocketCoalesceMS = Some (intConstraint 50 5000)"
  "SettingConstraints SettingPollingCapacitySafetyMargin = Some (floatConstraint 1 5 ''1.0'' ''5.0'')"
  "SettingConstraints SettingSNMPTimeout = Some (intConstraint 1 120)"
  "SettingConstraints SettingSNMPRetries = Some (intConstraint 0 10)"
  "SettingConstraints SettingSNMPPerformanceCounterTimeoutMillis = Some (intConstraint 100 30000)"
  "SettingConstraints SettingSNMPPerformanceCounterRetries = Some (intConstraint 0 10)"
  "SettingConstraints SettingSNMPWorkerPoolSize = Some (intConstraint 1 128)"
  "SettingConstraints SettingSNMPWorkerPoolPerformance = Some (intConstraint 1 128)"
  "SettingConstraints SettingSNMPWorkerPoolOperational = Some (intConstraint 1 128)"
  "SettingConstraints SettingSNMPWorkerPoolStatic = Some (intConstraint 1 128)"
  by (simp_all add: SettingConstraints_def setting_keys)

lemma PolicyFromSettings_limits:
  fixes F repo deviceCount observedP95 shortestInterval
  defines "p \<equiv> fst (PolicyFromSettings F repo deviceCount observedP95 shortestInterval)"
  shows "pol_EssentialWorkers p = intSetting repo SettingPollingEssentialWorkers 64"
    and "pol_MaxWorkersPerSite p = intSetting repo SettingPollingMaxWorkersPerSite 16"
    and "pol_MaxWorkersPerSubnet p = intSetting repo SettingPollingMaxWorkersPerSubnet 8"
    and "pol_MaxWorkersPerDevice p = intSetting repo SettingPollingMaxWorkersPerDevice 1"
    and "pol_MaxInflightPerProfile p = intSetting repo SettingPollingMaxInflightPerProfile 16"
    and "pol_WebSocketCoalesce p = durationMSSetting repo SettingPollingWebSocketCoalesceMS (500 * Millisecond)"
    and "pol_SafetyMargin p = floatSetting F repo SettingPollingCapacitySafetyMargin (3 / 2)"
  by (simp_all add: p_def PolicyFromSettings_def Let_def)

lemma PolicyFromSettings_timeouts:
  fixes F repo deviceCount observedP95 shortestInterval
  defines "p \<equiv> fst (PolicyFromSettings F repo deviceCount observedP95 shortestInterval)"
    and "bg \<equiv> durationSecondsSetting repo SettingSNMPTimeout (5 * Second)"
  shows "pol_Timeouts p LaneEssential = Some
       \<lparr>tp_Timeout = durationMSSetting repo SettingPollingEssentialTimeoutMillis (1200 * Millisecond),
        tp_Retries = intSetting repo SettingPollingEssentialRetries 1\<rparr>"
    and "pol_Timeouts p LaneBackground = Some
       \<lparr>tp_Timeout = bg, tp_Retries = intSetting repo SettingSNMPRetries 0\<rparr>"
    and "pol_Timeouts p LanePerformanceCounterWalks = Some
       \<lparr>tp_Timeout = durationMSSetting repo SettingSNMPPerformanceCounterTimeoutMillis (counterWalkFallback bg),
        tp_Retries = intSetting repo SettingSNMPPerformanceCounterRetries 0\<rparr>"
    and "pol_Timeouts p LaneBootstrap = Some \<lparr>tp_Timeout = 10 * Second, tp_Retries = 1\<rparr>"
    and "pol_Timeouts p LaneQuarantine = Some \<lparr>tp_Timeout = Second, tp_Retries = 0\<rparr>"
  by (simp_all add: p_def bg_def PolicyFromSettings_def Let_def counterWalkFallback_def)

lemma PolicyFromSettings_in_range:
  "policy_in_range (fst (PolicyFromSettings F repo deviceCount observedP95 shortestInterval))"
proof -
  note R = intSetting_range [OF limit_constraints(1), of 64 repo]
    intSetting_range [OF limit_constraints(2), of 16 repo]
    intSetting_range [OF limit_constraints(3), of 8 repo]
    intSetting_range [OF limit_constraints(4), of 1 repo]
    intSetting_range [OF limit_constraints(5), of 16 repo]
    durationMSSetting_range [OF limit_constraints(8), of "500 * Millisecond" repo]
    floatSetting_range [OF limit_constraints(9), of "3 / 2" F repo]
  note T = intSetting_range [OF limit_constraints(7), of 1 repo]
    intSetting_range [OF limit_constraints(11), of 0 repo]
    intSetting_range [OF limit_constraints(13), of 0 repo]
    durationMSSetting_range [OF limit_constraints(6), of "1200 * Millisecond" repo]
  let ?bg = "durationSecondsSetting repo SettingSNMPTimeout (5 * Second)"
  have bg: "Second \<le> ?bg" "?bg \<le> 120 * Second"
    using durationSecondsSetting_range [OF limit_constraints(10), of "5 * Second" repo]
    by (simp_all add: quot64_nonneg)
  then have "1000 \<le> quot64 (counterWalkFallback ?bg) Millisecond"
      "quot64 (counterWalkFallback ?bg) Millisecond \<le> 2000"
    by (auto simp: counterWalkFallback_def quot64_nonneg)
  then have W: "100 * Millisecond \<le> durationMSSetting repo SettingSNMPPerformanceCounterTimeoutMillis (counterWalkFallback ?bg)"
      "durationMSSetting repo SettingSNMPPerformanceCounterTimeoutMillis (counterWalkFallback ?bg) \<le> 30000 * Millisecond"
    using durationMSSetting_range [OF limit_constraints(12), of "counterWalkFallback ?bg" repo] by simp_all
  show ?thesis
    unfolding policy_in_range_def PolicyFromSettings_limits
    using R T W bg by (simp add: quot64_nonneg PolicyFromSettings_timeouts lane_in_range_def)
qed

subsection \<open>Resolved budgets\<close>

lemma readPositive_range:
  assumes "SettingConstraints key = Some (intConstraint 1 128)" and "readPositive get key = Some n"
  shows "1 \<le> n \<and> n \<le> 128"
proof -
  obtain v where v: "n = CoerceConstrainedInt key v 0" "Atoi (TrimSpace v) \<noteq> None"
    using assms(2) by (auto simp: readPositive_def split: option.splits if_splits)
  then have "n = CoerceConstrainedInt key v 1" by (auto simp: CoerceConstrainedInt_def)
  then show ?thesis
    using CoerceConstrainedInt_range [OF assms(1), of 1 v] by (simp add: intConstraint_def)
qed

lemma legacyTotal_range: "1 \<le> legacyTotal repo \<and> legacyTotal repo \<le> 128"
  using CoerceConstrainedInt_range [OF limit_constraints(14), of 5]
  by (auto simp: legacyTotal_def defaultWorkerPoolSize_def intConstraint_def split: option.splits)

lemma override_range:
  assumes "SettingConstraints key = Some (intConstraint 1 128)"
    and "lo \<le> cget b w \<and> cget b w \<le> 128" and "lo \<le> 1"
  shows "lo \<le> cget (override get key v b) w \<and> cget (override get key v b) w \<le> 128"
  using readPositive_range [OF assms(1), of get] assms(2,3)
  by (auto simp: override_def cget_upd split: option.splits)

lemma defaultSplit_range:
  "1 \<le> n \<Longrightarrow> n \<le> 128 \<Longrightarrow> 0 \<le> cget (defaultSplit n) v \<and> cget (defaultSplit n) v \<le> 128"
  "1 \<le> n \<Longrightarrow> n \<le> 128 \<Longrightarrow> 1 \<le> cget (defaultSplit n) VolatilityClassPerformance"
  by (cases v; simp add: defaultSplit_def Let_def cget_upd cget_def)
    (simp add: defaultSplit_def Let_def cget_upd cget_def)

lemma Resolve_keeps_range:
  assumes "lo \<le> cget (defaultSplit (legacyTotal repo)) v \<and> cget (defaultSplit (legacyTotal repo)) v \<le> 128"
    and "lo \<le> 1"
  shows "lo \<le> cget (Resolve repo) v \<and> cget (Resolve repo) v \<le> 128"
proof (cases repo)
  case (Some get)
  show ?thesis
    unfolding Resolve_def Let_def Some option.case
    by (intro override_range limit_constraints assms(2)) (use assms(1) Some in simp)
qed (use assms in \<open>simp add: Resolve_def Let_def\<close>)

lemma Resolve_range:
  "0 \<le> cget (Resolve repo) v \<and> cget (Resolve repo) v \<le> 128"
  "1 \<le> cget (Resolve repo) VolatilityClassPerformance \<and> cget (Resolve repo) VolatilityClassPerformance \<le> 128"
  using defaultSplit_range [OF conjunct1 [OF legacyTotal_range] conjunct2 [OF legacyTotal_range], of repo]
  by (auto intro!: Resolve_keeps_range)

lemma Resolve_bsum: "1 \<le> bsum (Resolve repo)"
  using Resolve_range(2) [of repo] by linarith

end
