(* ===== verification/Scheduler_Types.thy ===== *)
theory Scheduler_Types
  imports Go_Heap Go_Stdlib Polling_Policy
begin

text \<open>
  The vocabulary of \<open>internal/scheduler\<close> (\<open>types.go\<close>, \<open>heap.go\<close>, \<open>jitter.go\<close> and the pure
  helpers of \<open>scheduler.go\<close>): task keys, poll tasks, heap items, the due-time heap as an
  implementation of Go's \<open>heap.Interface\<close>, start offsets, jitter and phase alignment, and the
  isolation keys of a task. Items are pointers in the source; here a \<open>ref\<close> addresses an item in
  a memory \<open>ref \<Rightarrow> heapItem\<close> and the due-time heap is a memory with a list of references.
\<close>

subsection \<open>Task keys and tasks\<close>

record TaskKey =
  tk_DeviceID :: uuid
  tk_Kind :: TaskKind
  tk_VolatilityClass :: VolatilityClass

record PollTask =
  pt_Key :: TaskKey
  pt_RunID :: "64 word"
  pt_Kind :: TaskKind
  pt_Lane :: Lane
  pt_Device :: Device
  pt_PollClass :: PollClass
  pt_VolatilityClass :: VolatilityClass
  pt_ExpectedInterval :: duration
  pt_DueAt :: gotime
  pt_DeadlineAt :: gotime
  pt_QueueLag :: duration
  pt_DeadlineMissed :: bool
  pt_SkippedWindows :: int

record Completion =
  cp_RunID :: "64 word"
  cp_Key :: TaskKey
  cp_FinishedAt :: gotime

definition NewEssentialTaskKey :: "uuid \<Rightarrow> TaskKey" where
  "NewEssentialTaskKey deviceID =
     \<lparr>tk_DeviceID = deviceID, tk_Kind = TaskKindEssential, tk_VolatilityClass = VolatilityClassNone\<rparr>"

definition NewBackgroundTaskKey :: "uuid \<Rightarrow> VolatilityClass \<Rightarrow> TaskKey" where
  "NewBackgroundTaskKey deviceID volatility =
     \<lparr>tk_DeviceID = deviceID, tk_Kind = TaskKindBackground, tk_VolatilityClass = volatility\<rparr>"

definition NewBootstrapTaskKey :: "uuid \<Rightarrow> TaskKey" where
  "NewBootstrapTaskKey deviceID =
     \<lparr>tk_DeviceID = deviceID, tk_Kind = TaskKindBootstrap, tk_VolatilityClass = VolatilityClassNone\<rparr>"

definition NewTaskKey :: "uuid \<Rightarrow> VolatilityClass \<Rightarrow> TaskKey" where
  "NewTaskKey deviceID volatility = NewBackgroundTaskKey deviceID volatility"

definition EffectiveInterval :: "Device \<Rightarrow> VolatilityClass \<Rightarrow> duration" where
  "EffectiveInterval device volatility =
     (case volatility of
        VolatilityClassPerformance \<Rightarrow>
          (case dev_PollIntervalOverride device of
             Some n \<Rightarrow> if n > 0 then wrap64 (n * Second) else PollClass_Interval (dev_PollClass device)
           | None \<Rightarrow> PollClass_Interval (dev_PollClass device))
      | VolatilityClassOperational \<Rightarrow> OperationalClassInterval
      | VolatilityClassStatic \<Rightarrow> StaticClassInterval
      | VolatilityClassNone \<Rightarrow> PollClass_Interval (dev_PollClass device))"

definition EssentialInterval :: "Device \<Rightarrow> duration" where
  "EssentialInterval device = EffectiveInterval device VolatilityClassPerformance"

definition VolatilityPriority :: "VolatilityClass \<Rightarrow> int" where
  "VolatilityPriority volatility =
     (case volatility of
        VolatilityClassPerformance \<Rightarrow> 0
      | VolatilityClassOperational \<Rightarrow> 1
      | VolatilityClassStatic \<Rightarrow> 2
      | VolatilityClassNone \<Rightarrow> 99)"

subsection \<open>Normalisation and priorities\<close>

definition normalizeTask :: "PollTask \<Rightarrow> PollTask" where
  "normalizeTask task =
     (let task = (if pt_Kind task = TaskKindNone then task\<lparr>pt_Kind := tk_Kind (pt_Key task)\<rparr> else task);
          task = (if pt_Kind task = TaskKindNone then task\<lparr>pt_Kind := TaskKindBackground\<rparr> else task);
          task = (if pt_Lane task = LaneNone
                  then task\<lparr>pt_Lane := (case pt_Kind task of
                                          TaskKindEssential \<Rightarrow> LaneEssential
                                        | TaskKindBootstrap \<Rightarrow> LaneBootstrap
                                        | _ \<Rightarrow> LaneBackground)\<rparr>
                  else task)
      in if pt_Kind task = TaskKindBackground \<and> pt_VolatilityClass task = VolatilityClassNone
         then task\<lparr>pt_VolatilityClass := tk_VolatilityClass (pt_Key task)\<rparr> else task)"

definition readyPriority :: "PollTask \<Rightarrow> int" where
  "readyPriority task =
     (let task = normalizeTask task
      in if pt_Kind task = TaskKindEssential then 0 else VolatilityPriority (pt_VolatilityClass task))"

definition heapPriority :: "PollTask \<Rightarrow> int" where
  "heapPriority task =
     (let task = normalizeTask task
      in if pt_Kind task = TaskKindEssential then -1 else VolatilityPriority (pt_VolatilityClass task))"

definition taskVolatilityForMetrics :: "PollTask \<Rightarrow> VolatilityClass" where
  "taskVolatilityForMetrics task =
     (let task = normalizeTask task
      in if pt_VolatilityClass task \<noteq> VolatilityClassNone then pt_VolatilityClass task
         else VolatilityClassPerformance)"

definition taskIsBackground :: "PollTask \<Rightarrow> bool" where
  "taskIsBackground task \<longleftrightarrow>
     pt_Kind task = TaskKindBackground \<or> tk_Kind (pt_Key task) = TaskKindBackground"

subsection \<open>Eligibility\<close>

definition shouldScheduleRecurringDevice :: "Device \<Rightarrow> bool" where
  "shouldScheduleRecurringDevice device \<longleftrightarrow>
     dev_Managed device \<and> DevicePollingEnabled device \<and> \<not> IsVirtualNoIPDevice device"

definition shouldScheduleEssentialTask :: "Device \<Rightarrow> bool" where
  "shouldScheduleEssentialTask device \<longleftrightarrow>
     shouldScheduleRecurringDevice device \<and> \<not> IsVirtualWithIPDevice device"

definition shouldScheduleBootstrapTask :: "Device \<Rightarrow> bool" where
  "shouldScheduleBootstrapTask device \<longleftrightarrow>
     (if \<not> shouldScheduleRecurringDevice device then False
      else if dev_DeviceType device = DeviceTypeVirtual then False
      else if TrimSpace (dev_IP device) = [] then False
      else if dev_MetricsSource device = MetricsSourcePrometheus \<or>
              dev_MetricsSource device = MetricsSourceNone then False
      else NormalizeTopologyBootstrapState (dev_TopologyBootstrapState device)
             = TopologyBootstrapStatePending)"

definition scheduledVolatilityClasses :: "VolatilityClass list" where
  "scheduledVolatilityClasses =
     [VolatilityClassPerformance, VolatilityClassOperational, VolatilityClassStatic]"

definition scheduledBackgroundVolatilityClassesForDevice :: "Device \<Rightarrow> VolatilityClass list" where
  "scheduledBackgroundVolatilityClassesForDevice device =
     (if dev_DeviceType device = DeviceTypeVirtual then [VolatilityClassOperational]
      else scheduledVolatilityClasses)"

definition managedDeviceCount :: "Device list \<Rightarrow> int" where
  "managedDeviceCount devices =
     foldl (\<lambda>count device. if shouldScheduleEssentialTask device then count + 1 else count) 0 devices"

definition shortestEssentialInterval :: "Device list \<Rightarrow> duration" where
  "shortestEssentialInterval devices =
     foldl (\<lambda>shortest device.
       if \<not> shouldScheduleEssentialTask device then shortest
       else let interval = EssentialInterval device
            in if interval \<le> 0 then shortest
               else if shortest = 0 \<or> interval < shortest then interval else shortest) 0 devices"

subsection \<open>Isolation keys\<close>

text \<open>\<open>us\<close> is \<open>uuid.UUID.String\<close> of the third-party package \<open>google/uuid\<close>.\<close>

definition taskSiteKey :: "(uuid \<Rightarrow> string) \<Rightarrow> uuid \<Rightarrow> string" where
  "taskSiteKey us areaID = (if areaID = uuid_Nil then [] else us areaID)"

definition taskSubnetKey :: "PollTask \<Rightarrow> string" where
  "taskSubnetKey task =
     (let rawIP = TrimSpace (dev_IP (pt_Device task))
      in if rawIP = [] then []
         else
           let rawIP = (case SplitHostPort rawIP of Some (host, _) \<Rightarrow> host | None \<Rightarrow> rawIP);
               rawIP = TrimSet rawIP ''[]''
           in (case ParseAddr rawIP of
                 None \<Rightarrow> []
               | Some addr \<Rightarrow> maskedPrefixString addr (if Is4 addr then 24 else 64)))"

definition taskDeviceScopeName :: "(uuid \<Rightarrow> string) \<Rightarrow> Device \<Rightarrow> string" where
  "taskDeviceScopeName us device =
     (if TrimSpace (dev_Hostname device) \<noteq> [] then TrimSpace (dev_Hostname device)
      else if TrimSpace (dev_IP device) \<noteq> [] then TrimSpace (dev_IP device)
      else us (dev_ID device))"

definition taskProfileKey :: "PollTask \<Rightarrow> string" where
  "taskProfileKey task =
     (let creds = dev_SNMPCredentials (pt_Device task)
      in case snmp_Version creds of
           SNMPVersionV2c \<Rightarrow>
             (case snmp_V2c creds of None \<Rightarrow> [] | Some c \<Rightarrow> ''2c|'' @ v2c_Community c)
         | SNMPVersionV3 \<Rightarrow>
             (case snmp_V3 creds of
                None \<Rightarrow> []
              | Some c \<Rightarrow> joinWith ''|'' [''3'', v3_Username c, v3_SecurityLevel c, v3_AuthProtocol c,
                                          v3_PrivProtocol c])
         | SNMPVersionOther _ \<Rightarrow> [])"

definition taskProfileScopeID :: "string \<Rightarrow> string" where
  "taskProfileScopeID profileKey = EncodeToString (take 8 (Sum256 (bytes_of profileKey)))"

subsection \<open>Start offsets, jitter and phases (\<open>jitter.go\<close>)\<close>

definition initialOffsetForKey :: "TaskKey \<Rightarrow> duration \<Rightarrow> duration" where
  "initialOffsetForKey key interval =
     (if interval \<le> 0 then 0
      else
        let h = fnv64a_offset;
            h = fnv64a_Write (uuid_bytes (tk_DeviceID key)) h;
            h = fnv64a_Write (bytes_of ''|'') h;
            h = fnv64a_Write (bytes_of (TaskKind_str (tk_Kind key))) h;
            h = fnv64a_Write (bytes_of ''|'') h;
            h = fnv64a_Write (bytes_of (VolatilityClass_str (tk_VolatilityClass key))) h
        in wrap64 (uint (h mod word_of_int interval)))"

text \<open>Conversion of a \<open>float64\<close> to an integer truncates.\<close>

definition truncate_rat :: "rat \<Rightarrow> int" where
  "truncate_rat x = (if x < 0 then - \<lfloor>- x\<rfloor> else \<lfloor>x\<rfloor>)"

text \<open>\<open>rnd\<close> is the number \<open>Float64\<close> of the random source returns, \<open>None\<close> for a nil source.\<close>

definition jitteredNext :: "FloatOps \<Rightarrow> gotime \<Rightarrow> duration \<Rightarrow> rat option \<Rightarrow> gotime" where
  "jitteredNext F lastFire interval rnd =
     (if interval \<le> 0 then lastFire
      else case rnd of
             None \<Rightarrow> tAdd lastFire interval
           | Some draw \<Rightarrow>
               let jitterSpan = fl F (fl F (of_int interval) * fl F (1 / 10));
                   sampledDelta = fl F (fl F (fl F (draw * 2) - 1) * jitterSpan)
               in tAdd lastFire (wrap64 (interval + truncate_rat sampledDelta)))"

definition nextPhaseAfter :: "gotime \<Rightarrow> duration \<Rightarrow> gotime \<Rightarrow> gotime" where
  "nextPhaseAfter previousDue interval after =
     (if interval \<le> 0 then after
      else if IsZero previousDue then tAdd after interval
      else
        let nxt = tAdd previousDue interval
        in if tAfter nxt after then nxt
           else let windows = wrap64 (quot64 (tSub after previousDue) interval + 1)
                in tAdd previousDue (wrap64 (windows * interval)))"

subsection \<open>Heap items and the due-time heap (\<open>heap.go\<close>)\<close>

record heapItem =
  hi_task :: PollTask
  hi_dueAt :: gotime
  hi_dispatchedAt :: gotime
  hi_runID :: "64 word"
  hi_interval :: duration
  hi_queued :: bool
  hi_inFlight :: bool
  hi_pending :: bool
  hi_immediateRerun :: bool
  hi_disabled :: bool
  hi_skippedWindows :: int
  hi_index :: int

type_synonym ref = nat
type_synonym store = "(ref \<Rightarrow> heapItem) \<times> ref list"

definition taskHeap_Len :: "store \<Rightarrow> nat" where
  "taskHeap_Len st = length (snd st)"

definition taskHeap_Less :: "(uuid \<Rightarrow> string) \<Rightarrow> store \<Rightarrow> nat \<Rightarrow> nat \<Rightarrow> bool" where
  "taskHeap_Less us st i j =
     (let a = fst st (snd st ! i); b = fst st (snd st ! j)
      in if hi_dueAt a \<noteq> hi_dueAt b then tBefore (hi_dueAt a) (hi_dueAt b)
         else
           let leftPriority = heapPriority (hi_task a); rightPriority = heapPriority (hi_task b)
           in if leftPriority \<noteq> rightPriority then leftPriority < rightPriority
              else us (tk_DeviceID (pt_Key (hi_task a))) < us (tk_DeviceID (pt_Key (hi_task b))))"

definition set_index :: "ref \<Rightarrow> int \<Rightarrow> (ref \<Rightarrow> heapItem) \<Rightarrow> ref \<Rightarrow> heapItem" where
  "set_index r i m = m(r := (m r)\<lparr>hi_index := i\<rparr>)"

definition taskHeap_Swap :: "nat \<Rightarrow> nat \<Rightarrow> store \<Rightarrow> store" where
  "taskHeap_Swap i j st =
     (let h = (snd st)[i := snd st ! j, j := snd st ! i]
      in (set_index (h ! j) (int j) (set_index (h ! i) (int i) (fst st)), h))"

definition taskHeap_Push :: "ref \<Rightarrow> store \<Rightarrow> store" where
  "taskHeap_Push x st = (set_index x (int (length (snd st))) (fst st), snd st @ [x])"

definition taskHeap_Pop :: "store \<Rightarrow> ref \<times> store" where
  "taskHeap_Pop st =
     (let item = last (snd st) in (item, (set_index item (-1) (fst st), butlast (snd st))))"

end
