(* ===== verification/Task_Heap.thy ===== *)
theory Task_Heap
  imports Scheduler_Types
begin

text \<open>
  The due-time heap: \<open>taskHeap\<close> implements \<open>heap.Interface\<close> (interpretation \<open>th\<close> of
  \<open>heap_container\<close>), so every operation of \<open>container/heap\<close> keeps it ordered by due time,
  priority and device id. On top of the order, items know their position (\<open>hi_index\<close>): \<open>heap_wf\<close>
  couples both, and the lemmas give the contents, the positions and the frame of each operation.
\<close>

definition heapPush :: "(uuid \<Rightarrow> string) \<Rightarrow> ref \<Rightarrow> store \<Rightarrow> store" where
  "heapPush us = heap_Push (taskHeap_Less us) taskHeap_Swap taskHeap_Len taskHeap_Push"

definition heapPop :: "(uuid \<Rightarrow> string) \<Rightarrow> store \<Rightarrow> ref \<times> store" where
  "heapPop us = heap_Pop (taskHeap_Less us) taskHeap_Swap taskHeap_Len taskHeap_Pop"

definition heapFix :: "(uuid \<Rightarrow> string) \<Rightarrow> nat \<Rightarrow> store \<Rightarrow> store" where
  "heapFix us = heap_Fix (taskHeap_Less us) taskHeap_Swap taskHeap_Len"

definition heapRemove :: "(uuid \<Rightarrow> string) \<Rightarrow> nat \<Rightarrow> store \<Rightarrow> ref \<times> store" where
  "heapRemove us = heap_Remove (taskHeap_Less us) taskHeap_Swap taskHeap_Len taskHeap_Pop"


definition taskHeap_key :: "(uuid \<Rightarrow> string) \<Rightarrow> store \<Rightarrow> ref \<Rightarrow> gotime \<times> int \<times> string" where
  "taskHeap_key us st r =
     (let it = fst st r
      in (hi_dueAt it, heapPriority (hi_task it), us (tk_DeviceID (pt_Key (hi_task it)))))"

lemma set_index_simps [simp]:
  "hi_task (set_index r i m x) = hi_task (m x)"
  "hi_dueAt (set_index r i m x) = hi_dueAt (m x)"
  "(set_index r i m x)\<lparr>hi_index := j\<rparr> = (m x)\<lparr>hi_index := j\<rparr>"
  "hi_index (set_index r i m x) = (if x = r then i else hi_index (m x))"
  "x \<noteq> r \<Longrightarrow> set_index r i m x = m x"
  by (simp_all add: set_index_def)

interpretation th: heap_container "taskHeap_key us" snd "taskHeap_Less us" taskHeap_Swap
    taskHeap_Len taskHeap_Push taskHeap_Pop for us
  by unfold_locales
    (auto simp: taskHeap_key_def taskHeap_Less_def taskHeap_Swap_def taskHeap_Len_def
      taskHeap_Push_def taskHeap_Pop_def Let_def less_prod_def' go_simps)


definition indexed :: "store \<Rightarrow> bool" where
  "indexed st \<longleftrightarrow> distinct (snd st) \<and> (\<forall>i<length (snd st). hi_index (fst st (snd st ! i)) = int i)"

definition heap_wf :: "(uuid \<Rightarrow> string) \<Rightarrow> store \<Rightarrow> bool" where
  "heap_wf us st \<longleftrightarrow> indexed st \<and> th.heap_ordered us st"

text \<open>\<open>shape m S st\<close>: the heap holds exactly \<open>S\<close>, and differs from \<open>m\<close> in positions of \<open>S\<close> only.\<close>

definition shape :: "(ref \<Rightarrow> heapItem) \<Rightarrow> ref set \<Rightarrow> store \<Rightarrow> bool" where
  "shape m S st \<longleftrightarrow> indexed st \<and> set (snd st) = S \<and>
     (\<forall>x. (fst st x)\<lparr>hi_index := 0\<rparr> = (m x)\<lparr>hi_index := 0\<rparr>) \<and> (\<forall>x. x \<notin> S \<longrightarrow> fst st x = m x)"

lemma shape_length: "shape m S st \<Longrightarrow> length (snd st) = card S"
  by (auto simp: shape_def indexed_def distinct_card)

lemma shape_self: "indexed st \<Longrightarrow> shape (fst st) (set (snd st)) st"
  by (simp add: shape_def)

lemma shape_swap:
  assumes s: "shape m S st" and i: "i < card S" and k: "k < card S"
  shows "shape m S (taskHeap_Swap i k st)"
proof -
  let ?h = "(snd st)[i := snd st ! k, k := snd st ! i]"
  have len: "length (snd st) = card S" by (rule shape_length [OF s])
  have d: "distinct (snd st)" and ix: "\<And>j. j < card S \<Longrightarrow> hi_index (fst st (snd st ! j)) = int j"
    using s len by (auto simp: shape_def indexed_def)
  have dh: "distinct ?h" "set ?h = set (snd st)" using d i k len by simp_all
  have "hi_index (fst (taskHeap_Swap i k st) (?h ! j)) = int j" if j: "j < card S" for j
  proof -
    have n: "?h ! j = ?h ! k \<longleftrightarrow> j = k" "?h ! j = ?h ! i \<longleftrightarrow> j = i"
      using nth_eq_iff_index_eq [OF dh(1), of j k] nth_eq_iff_index_eq [OF dh(1), of j i] i k j len
      by (simp_all only: length_list_update)
    show ?thesis
      using n i k j len ix [of j]
      by (cases "j = k"; cases "j = i") (auto simp: taskHeap_Swap_def Let_def nth_list_update)
  qed
  then have "indexed (taskHeap_Swap i k st)"
    using dh len by (simp add: indexed_def taskHeap_Swap_def Let_def)
  moreover have in_S: "?h ! k \<in> S" "?h ! i \<in> S" "set ?h = S"
    using s i k len dh by (auto simp: shape_def nth_list_update)
  moreover have "fst (taskHeap_Swap i k st) x = fst st x" if "x \<notin> S" for x
  proof -
    have "x \<noteq> ?h ! k" "x \<noteq> ?h ! i" using that in_S by auto
    then show ?thesis by (simp add: taskHeap_Swap_def Let_def)
  qed
  moreover have "snd (taskHeap_Swap i k st) = ?h" "\<And>x. (fst (taskHeap_Swap i k st) x)\<lparr>hi_index := 0\<rparr> = (fst st x)\<lparr>hi_index := 0\<rparr>"
    by (simp_all add: taskHeap_Swap_def Let_def)
  ultimately show ?thesis
    using s by (simp add: shape_def)
qed

lemma shape_push:
  assumes "indexed st" and "r \<notin> set (snd st)"
  shows "shape (fst st) (insert r (set (snd st))) (taskHeap_Push r st)"
  using assms
  by (auto simp: shape_def indexed_def taskHeap_Push_def nth_append less_Suc_eq)

lemma shape_pop:
  assumes s: "shape m S st" and ne: "snd st \<noteq> []"
  defines "r \<equiv> last (snd st)" and "t \<equiv> snd (taskHeap_Pop st)"
  shows "indexed t" and "set (snd t) = S - {r}" and "fst t r = (m r)\<lparr>hi_index := -1\<rparr>"
    and "(fst t x)\<lparr>hi_index := 0\<rparr> = (m x)\<lparr>hi_index := 0\<rparr>" and "x \<notin> S \<Longrightarrow> fst t x = m x"
proof -
  have h: "snd st = butlast (snd st) @ [r]" using ne by (simp add: r_def)
  have d: "distinct (butlast (snd st))" "r \<notin> set (butlast (snd st))"
    using s h unfolding shape_def indexed_def by (metis distinct_append distinct_butlast, metis distinct_append h disjoint_iff list.set_intros(1) )
  have t: "t = (set_index r (-1) (fst st), butlast (snd st))"
    by (simp add: t_def r_def taskHeap_Pop_def Let_def)
  have "hi_index (fst st (butlast (snd st) ! i)) = int i" if "i < length (butlast (snd st))" for i
    using s that by (simp add: shape_def indexed_def nth_butlast)
  then show "indexed t"
    using d by (auto simp: indexed_def t)
  show "set (snd t) = S - {r}"
    using s d h unfolding shape_def t by (metis Diff_insert_absorb list.simps(15) rotate1.simps(2) set_rotate1 snd_conv)
  have e: "(fst st x)\<lparr>hi_index := 0\<rparr> = (m x)\<lparr>hi_index := 0\<rparr>" for x using s by (simp add: shape_def)
  have "(fst st r)\<lparr>hi_index := 0\<rparr>\<lparr>hi_index := -1\<rparr> = (m r)\<lparr>hi_index := 0\<rparr>\<lparr>hi_index := -1\<rparr>" by (simp only: e)
  then show "fst t r = (m r)\<lparr>hi_index := -1\<rparr>" by (simp add: t set_index_def)
  show "(fst t x)\<lparr>hi_index := 0\<rparr> = (m x)\<lparr>hi_index := 0\<rparr>" using e by (simp add: t)
  have "r \<in> S" using s ne by (simp add: shape_def r_def) (metis last_in_set)
  then show "x \<notin> S \<Longrightarrow> fst t x = m x" using s by (cases "x = r") (auto simp: t shape_def)
qed


text \<open>What the four operations of \<open>container/heap\<close> do to a well-formed due-time heap.\<close>

lemma heapPush_wf:
  assumes "heap_wf us st" and r: "r \<notin> set (snd st)"
  shows "heap_wf us (heapPush us r st)" and "shape (fst st) (insert r (set (snd st))) (heapPush us r st)"
proof -
  have c: "card (insert r (set (snd st))) = Suc (length (snd st))"
    using assms by (simp add: heap_wf_def indexed_def distinct_card)
  show s: "shape (fst st) (insert r (set (snd st))) (heapPush us r st)"
    unfolding heapPush_def
    by (rule th.Push_keeps) (use assms shape_swap shape_push c in \<open>auto simp: heap_wf_def\<close>)
  have "th.heap_ordered us (heapPush us r st)"
    using assms th.Push_ordered by (simp add: heap_wf_def heapPush_def)
  then show "heap_wf us (heapPush us r st)" using s by (simp add: heap_wf_def shape_def)
qed

lemma heapFix_wf:
  assumes wf: "heap_wf us st" and i: "i < length (snd st)" and r: "r = snd st ! i"
    and t: "t = ((fst st)(r := it), snd st)" and it: "hi_index it = hi_index (fst st r)"
  shows "heap_wf us (heapFix us i t)" and "shape (fst t) (set (snd st)) (heapFix us i t)"
proof -
  have d: "distinct (snd st)" using wf by (simp add: heap_wf_def indexed_def)
  have ix: "indexed t"
    using wf it by (auto simp: t heap_wf_def indexed_def)
  have "th.defect us t (length (snd t)) i"
  proof (rule th.defect_changed)
    show "th.heap_ordered us st" using wf by (simp add: heap_wf_def)
    show "th.ke us t k = th.ke us st k" if "k < length (snd st)" "k \<noteq> i" for k
      using that d i r by (simp add: th.ke_def t taskHeap_key_def nth_eq_iff_index_eq)
  qed (use i t in auto)
  then have "th.heap_ordered us (heapFix us i t)" unfolding heapFix_def by (rule th.Fix_ordered)
  moreover show s: "shape (fst t) (set (snd st)) (heapFix us i t)"
    unfolding heapFix_def
  proof (rule th.Fix_keeps)
    show "shape (fst t) (set (snd st)) t" using shape_self [OF ix] by (simp add: t)
  qed (use i shape_swap d in \<open>auto simp: t distinct_card\<close>)
  ultimately show "heap_wf us (heapFix us i t)" by (simp add: heap_wf_def shape_def)
qed

text \<open>\<open>removed st r t\<close>: \<open>t\<close> is \<open>st\<close> without the item \<open>r\<close>, whose position becomes -1.\<close>

definition removed :: "store \<Rightarrow> ref \<Rightarrow> store \<Rightarrow> bool" where
  "removed st r t \<longleftrightarrow> set (snd t) = set (snd st) - {r} \<and> fst t r = (fst st r)\<lparr>hi_index := -1\<rparr> \<and>
     (\<forall>x. (fst t x)\<lparr>hi_index := 0\<rparr> = (fst st x)\<lparr>hi_index := 0\<rparr>) \<and>
     (\<forall>x. x \<notin> set (snd st) \<longrightarrow> fst t x = fst st x)"

lemma popped_wf:
  assumes wf: "heap_wf us st" and u: "\<exists>u. shape (fst st) (set (snd st)) u \<and> p = taskHeap_Pop u"
    and ne: "snd st \<noteq> []" and f: "fst p = r" and o: "th.heap_ordered us (snd p)"
  shows "heap_wf us (snd p)" and "removed st r (snd p)"
proof -
  from u obtain u where u: "shape (fst st) (set (snd st)) u" "p = taskHeap_Pop u" by auto
  have "set (snd u) = set (snd st)" using u by (simp add: shape_def)
  then have nu: "snd u \<noteq> []" using ne by auto
  have "r = last (snd u)" using f u(2) by (simp add: taskHeap_Pop_def Let_def)
  then show "removed st r (snd p)" and "heap_wf us (snd p)"
    using shape_pop [OF u(1) nu] o u(2) by (simp_all add: removed_def heap_wf_def)
qed

lemma heapRemove_wf:
  assumes wf: "heap_wf us st" and i: "i < length (snd st)"
  shows "fst (heapRemove us i st) = snd st ! i" and "heap_wf us (snd (heapRemove us i st))"
    and "removed st (snd st ! i) (snd (heapRemove us i st))"
proof -
  have o: "th.heap_ordered us st" and ix: "indexed st" using wf by (auto simp: heap_wf_def)
  show f: "fst (heapRemove us i st) = snd st ! i"
    unfolding heapRemove_def using th.Remove_correct(2) [OF o i] .
  have u: "\<exists>u. shape (fst st) (set (snd st)) u \<and> heapRemove us i st = taskHeap_Pop u"
    unfolding heapRemove_def
    by (rule th.Remove_keeps) (use ix i shape_swap shape_self [OF ix] in \<open>auto simp: indexed_def distinct_card\<close>)
  have "th.heap_ordered us (snd (heapRemove us i st))"
    unfolding heapRemove_def using th.Remove_correct(1) [OF o i] .
  then show "heap_wf us (snd (heapRemove us i st))"
      and "removed st (snd st ! i) (snd (heapRemove us i st))"
    using popped_wf [OF wf u _ f] i by (metis gr_implies_not_zero list.size(3))+
qed

lemma heapPop_wf:
  assumes wf: "heap_wf us st" and ne: "snd st \<noteq> []"
  shows "fst (heapPop us st) = snd st ! 0" and "heap_wf us (snd (heapPop us st))"
    and "removed st (snd st ! 0) (snd (heapPop us st))"
proof -
  have o: "th.heap_ordered us st" and ix: "indexed st" using wf by (auto simp: heap_wf_def)
  show f: "fst (heapPop us st) = snd st ! 0"
    unfolding heapPop_def using th.Pop_correct(2) [OF o ne] .
  have u: "\<exists>u. shape (fst st) (set (snd st)) u \<and> heapPop us st = taskHeap_Pop u"
    unfolding heapPop_def
    by (rule th.Pop_keeps) (use ix ne shape_swap shape_self [OF ix] in \<open>auto simp: indexed_def distinct_card\<close>)
  have "th.heap_ordered us (snd (heapPop us st))"
    unfolding heapPop_def using th.Pop_correct(1) [OF o ne] .
  then show "heap_wf us (snd (heapPop us st))" and "removed st (snd st ! 0) (snd (heapPop us st))"
    using popped_wf [OF wf u ne f] by auto
qed

lemma heapPop_length: "snd st \<noteq> [] \<Longrightarrow> length (snd (snd (heapPop us st))) < length (snd st)"
  unfolding heapPop_def by (simp add: th.Pop_length)

text \<open>The root is due first.\<close>

lemma heap_root_due:
  assumes "heap_wf us st" and "r \<in> set (snd st)"
  shows "hi_dueAt (fst st (snd st ! 0)) \<le> hi_dueAt (fst st r)"
proof -
  obtain k where "k < length (snd st)" "r = snd st ! k" using assms(2) by (auto simp: in_set_conv_nth)
  then have "th.ke us st 0 \<le> th.ke us st k"
    using th.heap_root_least [of us st "length (snd st)" k] assms(1)
    by (simp add: heap_wf_def th.heap_ordered_def)
  then show ?thesis
    using \<open>r = snd st ! k\<close> by (auto simp: th.ke_def taskHeap_key_def Let_def less_eq_prod_def)
qed

text \<open>Items whose order key does not change leave a heap well-formed.\<close>

lemma heap_wf_cong:
  assumes "heap_wf us (m, h)" and "\<And>x. x \<in> set h \<Longrightarrow> hi_index (m' x) = hi_index (m x)"
    and "\<And>x. x \<in> set h \<Longrightarrow> taskHeap_key us (m', h) x = taskHeap_key us (m, h) x"
  shows "heap_wf us (m', h)"
proof -
  have "th.ke us (m', h) k = th.ke us (m, h) k" if "k < length h" for k
    using assms(3) that by (simp add: th.ke_def)
  then have "th.heap_ordered us (m', h)"
    using assms(1) by (auto simp: heap_wf_def th.heap_ordered_alt)
  then show ?thesis using assms(1,2) by (auto simp: heap_wf_def indexed_def)
qed

end
