(* ===== verification/Scheduler_Model.thy ===== *)
theory Scheduler_Model
  imports Task_Heap
begin

text \<open>
  The polling scheduler (\<open>internal/scheduler/scheduler.go\<close>) as a state machine. The record
  \<open>Scheduler\<close> has the fields of the Go struct; pointers to heap items are references into the
  memory \<open>s_mem\<close>, buffered channels are lists with a capacity, and the two Prometheus counters
  the scheduler increments are \<open>s_backpressure\<close> and \<open>s_scopedBackpressure\<close>. Each method that
  runs under the scheduler's mutex is one function on the state. What a call reads from its
  surroundings (settings, inventory, clock, random numbers, the iteration order of maps) is the
  argument \<open>SchedEnv\<close>.
\<close>

subsection \<open>State\<close>

record reduePerformanceTaskRequest =
  rq_device :: Device
  rq_changedAt :: gotime
  rq_taskKind :: TaskKind

record scopedBlockedDispatchMetric =
  sm_taskKind :: string
  sm_volatility :: VolatilityClass
  sm_reason :: string
  sm_scope :: string
  sm_scopeID :: string
  sm_scopeName :: string

type_synonym blockedDispatchMetric = "VolatilityClass \<times> string"

record Scheduler =
  s_refreshInterval :: duration
  s_tasks :: "PollTask list"
  s_tasksCap :: nat
  s_completions :: "Completion list"
  s_completionsCap :: nat
  s_redueRequests :: "reduePerformanceTaskRequest list"
  s_redueCap :: nat
  s_mem :: "ref \<Rightarrow> heapItem"
  s_next :: ref
  s_items :: "TaskKey \<rightharpoonup> ref"
  s_heap :: "ref list"
  s_ready :: "nat \<Rightarrow> ref list"
  s_running :: bool
  s_started :: bool
  s_inFlight :: int
  s_inFlightByClass :: "VolatilityClass \<rightharpoonup> int"
  s_inFlightByKind :: "TaskKind \<rightharpoonup> int"
  s_inFlightByDevice :: "string \<rightharpoonup> int"
  s_inFlightBySite :: "string \<rightharpoonup> int"
  s_inFlightBySubnet :: "string \<rightharpoonup> int"
  s_inFlightByProfile :: "string \<rightharpoonup> int"
  s_essentialByDevice :: "string \<rightharpoonup> int"
  s_essentialBySite :: "string \<rightharpoonup> int"
  s_essentialBySubnet :: "string \<rightharpoonup> int"
  s_essentialByProfile :: "string \<rightharpoonup> int"
  s_runID :: "64 word"
  s_deadlineMissTotal :: "64 word"
  s_lastWarnings :: "CapacityWarning list"
  s_degradedRisk :: bool
  s_backpressure :: "blockedDispatchMetric \<Rightarrow> nat"
  s_scopedBackpressure :: "scopedBlockedDispatchMetric \<Rightarrow> nat"

text \<open>
  The surroundings of a call: \<open>e_uuidString\<close> is \<open>uuid.UUID.String\<close>, \<open>e_devices\<close> is what
  \<open>GetDevices\<close> returns (\<open>None\<close> an error), \<open>e_gate\<close> the membership gate when the source has one,
  \<open>e_range\<close> the order in which a \<open>range\<close> over the item map visits its keys.
\<close>

record SchedEnv =
  e_uuidString :: "uuid \<Rightarrow> string"
  e_float :: FloatOps
  e_settings :: settings_repo
  e_devices :: "Device list option"
  e_gate :: "(uuid \<Rightarrow> bool option) option"
  e_now :: gotime
  e_draw :: rat
  e_range :: "(TaskKey \<rightharpoonup> ref) \<Rightarrow> TaskKey list"

record dispatchLimits =
  dl_budgets :: budgets
  dl_policy :: Policy
  dl_essentialLimit :: int
  dl_globalLimit :: int

record isolationBlock =
  ib_reason :: string
  ib_scope :: string
  ib_scopeID :: string
  ib_scopeName :: string

record dispatchScanState =
  ss_classLimited :: "nat \<Rightarrow> bool"
  ss_essentialLimited :: bool
  ss_blockedMetrics :: "blockedDispatchMetric set"
  ss_scopedMetrics :: "scopedBlockedDispatchMetric set"

definition defaultInventoryRefreshInterval :: duration where
  "defaultInventoryRefreshInterval = 30 * Second"

definition defaultTaskBuffer :: nat where
  "defaultTaskBuffer = 128"

subsection \<open>Pointers and channels\<close>

definition upd :: "ref \<Rightarrow> (heapItem \<Rightarrow> heapItem) \<Rightarrow> Scheduler \<Rightarrow> Scheduler" where
  "upd r f s = s\<lparr>s_mem := (s_mem s)(r := f (s_mem s r))\<rparr>"

definition allocItem :: "heapItem \<Rightarrow> Scheduler \<Rightarrow> ref \<times> Scheduler" where
  "allocItem it s = (s_next s, s\<lparr>s_mem := (s_mem s)(s_next s := it), s_next := Suc (s_next s)\<rparr>)"

definition setStore :: "store \<Rightarrow> Scheduler \<Rightarrow> Scheduler" where
  "setStore st s = s\<lparr>s_mem := fst st, s_heap := snd st\<rparr>"

definition pushHeap :: "(uuid \<Rightarrow> string) \<Rightarrow> ref \<Rightarrow> Scheduler \<Rightarrow> Scheduler" where
  "pushHeap us r s = setStore (heapPush us r (s_mem s, s_heap s)) s"

definition removeHeap :: "(uuid \<Rightarrow> string) \<Rightarrow> int \<Rightarrow> Scheduler \<Rightarrow> Scheduler" where
  "removeHeap us i s = setStore (snd (heapRemove us (nat i) (s_mem s, s_heap s))) s"

definition fixHeap :: "(uuid \<Rightarrow> string) \<Rightarrow> int \<Rightarrow> Scheduler \<Rightarrow> Scheduler" where
  "fixHeap us i s = setStore (heapFix us (nat i) (s_mem s, s_heap s)) s"

definition popHeap :: "(uuid \<Rightarrow> string) \<Rightarrow> Scheduler \<Rightarrow> ref \<times> Scheduler" where
  "popHeap us s = (let p = heapPop us (s_mem s, s_heap s) in (fst p, setStore (snd p) s))"

definition deleteItem :: "TaskKey \<Rightarrow> Scheduler \<Rightarrow> Scheduler" where
  "deleteItem key s = s\<lparr>s_items := (s_items s)(key := None)\<rparr>"

definition putItem :: "TaskKey \<Rightarrow> ref \<Rightarrow> Scheduler \<Rightarrow> Scheduler" where
  "putItem key r s = s\<lparr>s_items := (s_items s)(key \<mapsto> r)\<rparr>"

text \<open>The zero \<open>PollTask\<close> fields of the composite literals, and the zero \<open>heapItem\<close> fields.\<close>

definition newTask :: "TaskKey \<Rightarrow> TaskKind \<Rightarrow> Lane \<Rightarrow> Device \<Rightarrow> VolatilityClass \<Rightarrow> duration \<Rightarrow> gotime \<Rightarrow> PollTask" where
  "newTask key kind lane device volatility interval dueAt =
     \<lparr>pt_Key = key, pt_RunID = 0, pt_Kind = kind, pt_Lane = lane, pt_Device = device,
      pt_PollClass = dev_PollClass device, pt_VolatilityClass = volatility,
      pt_ExpectedInterval = interval, pt_DueAt = dueAt, pt_DeadlineAt = tAdd dueAt interval,
      pt_QueueLag = 0, pt_DeadlineMissed = False, pt_SkippedWindows = 0\<rparr>"

definition newHeapItem :: "PollTask \<Rightarrow> gotime \<Rightarrow> duration \<Rightarrow> heapItem" where
  "newHeapItem task dueAt interval =
     \<lparr>hi_task = task, hi_dueAt = dueAt, hi_dispatchedAt = 0, hi_runID = 0, hi_interval = interval,
      hi_queued = False, hi_inFlight = False, hi_pending = False, hi_immediateRerun = False,
      hi_disabled = False, hi_skippedWindows = 0, hi_index = -1\<rparr>"

definition IncSchedulerBackpressure :: "VolatilityClass \<Rightarrow> string \<Rightarrow> Scheduler \<Rightarrow> Scheduler" where
  "IncSchedulerBackpressure v reason s =
     s\<lparr>s_backpressure := (s_backpressure s)((v, reason) := Suc (s_backpressure s (v, reason)))\<rparr>"

definition NewScheduler :: Scheduler where
  "NewScheduler =
     \<lparr>s_refreshInterval = defaultInventoryRefreshInterval,
      s_tasks = [], s_tasksCap = defaultTaskBuffer,
      s_completions = [], s_completionsCap = defaultTaskBuffer,
      s_redueRequests = [], s_redueCap = defaultTaskBuffer,
      s_mem = (\<lambda>_. undefined), s_next = 0, s_items = Map.empty, s_heap = [], s_ready = (\<lambda>_. []),
      s_running = False, s_started = False, s_inFlight = 0,
      s_inFlightByClass = Map.empty, s_inFlightByKind = Map.empty,
      s_inFlightByDevice = Map.empty, s_inFlightBySite = Map.empty,
      s_inFlightBySubnet = Map.empty, s_inFlightByProfile = Map.empty,
      s_essentialByDevice = Map.empty, s_essentialBySite = Map.empty,
      s_essentialBySubnet = Map.empty, s_essentialByProfile = Map.empty,
      s_runID = 0, s_deadlineMissTotal = 0, s_lastWarnings = [], s_degradedRisk = False,
      s_backpressure = (\<lambda>_. 0), s_scopedBackpressure = (\<lambda>_. 0)\<rparr>"

subsection \<open>Limits\<close>

definition bufferLimit :: "Scheduler \<Rightarrow> int" where
  "bufferLimit s =
     (let limit = int (s_tasksCap s); completionsCap = int (s_completionsCap s)
      in if limit = 0 \<or> (completionsCap > 0 \<and> completionsCap < limit) then completionsCap else limit)"

definition clampEssentialLimit :: "int \<Rightarrow> int \<Rightarrow> int" where
  "clampEssentialLimit limit bl =
     (let limit = (if bl > 0 \<and> limit > bl then bl else limit)
      in if limit \<le> 0 then 1 else limit)"

definition classBudgets :: "SchedEnv \<Rightarrow> Scheduler \<Rightarrow> budgets" where
  "classBudgets e s =
     (let budgets = Resolve (e_settings e); limit = bufferLimit s
      in if limit > 0 then Clamp budgets limit else budgets)"

definition maxEssentialInFlight :: "SchedEnv \<Rightarrow> Scheduler \<Rightarrow> int" where
  "maxEssentialInFlight e s =
     clampEssentialLimit (pol_EssentialWorkers (fst (PolicyFromSettings (e_float e) (e_settings e) 0 0 0)))
       (bufferLimit s)"

definition computeDispatchLimits :: "SchedEnv \<Rightarrow> Scheduler \<Rightarrow> dispatchLimits" where
  "computeDispatchLimits e s =
     (let budgets = classBudgets e s;
          policy = fst (PolicyFromSettings (e_float e) (e_settings e) 0 0 0);
          bl = bufferLimit s;
          essentialLimit = clampEssentialLimit (pol_EssentialWorkers policy) bl;
          globalLimit = Budget_Sum budgets + essentialLimit;
          globalLimit = (if bl > 0 \<and> globalLimit > bl then bl else globalLimit)
      in \<lparr>dl_budgets = budgets, dl_policy = policy, dl_essentialLimit = essentialLimit,
          dl_globalLimit = globalLimit\<rparr>)"

subsection \<open>In-flight counters\<close>

definition incrementCount :: "string \<Rightarrow> (string \<rightharpoonup> int) \<Rightarrow> string \<rightharpoonup> int" where
  "incrementCount key counts = (if key = [] then counts else counts(key \<mapsto> cget counts key + 1))"

definition decrementCount :: "string \<Rightarrow> (string \<rightharpoonup> int) \<Rightarrow> string \<rightharpoonup> int" where
  "decrementCount key counts =
     (if key = [] then counts
      else if cget counts key \<le> 1 then counts(key := None)
      else counts(key \<mapsto> cget counts key - 1))"

definition incrementIsolationCounts :: "SchedEnv \<Rightarrow> PollTask \<Rightarrow> Scheduler \<Rightarrow> Scheduler" where
  "incrementIsolationCounts e task s =
     (let task = normalizeTask task;
          device = e_uuidString e (dev_ID (pt_Device task));
          sites = map (taskSiteKey (e_uuidString e)) (dev_AreaIDs (pt_Device task));
          s = s\<lparr>s_inFlightByDevice := incrementCount device (s_inFlightByDevice s),
                s_inFlightBySite := fold incrementCount sites (s_inFlightBySite s),
                s_inFlightBySubnet := incrementCount (taskSubnetKey task) (s_inFlightBySubnet s),
                s_inFlightByProfile := incrementCount (taskProfileKey task) (s_inFlightByProfile s)\<rparr>
      in if pt_Kind task \<noteq> TaskKindEssential then s
         else s\<lparr>s_essentialByDevice := incrementCount device (s_essentialByDevice s),
                s_essentialBySite := fold incrementCount sites (s_essentialBySite s),
                s_essentialBySubnet := incrementCount (taskSubnetKey task) (s_essentialBySubnet s),
                s_essentialByProfile := incrementCount (taskProfileKey task) (s_essentialByProfile s)\<rparr>)"

definition decrementIsolationCounts :: "SchedEnv \<Rightarrow> PollTask \<Rightarrow> Scheduler \<Rightarrow> Scheduler" where
  "decrementIsolationCounts e task s =
     (let task = normalizeTask task;
          device = e_uuidString e (dev_ID (pt_Device task));
          sites = map (taskSiteKey (e_uuidString e)) (dev_AreaIDs (pt_Device task));
          s = s\<lparr>s_inFlightByDevice := decrementCount device (s_inFlightByDevice s),
                s_inFlightBySite := fold decrementCount sites (s_inFlightBySite s),
                s_inFlightBySubnet := decrementCount (taskSubnetKey task) (s_inFlightBySubnet s),
                s_inFlightByProfile := decrementCount (taskProfileKey task) (s_inFlightByProfile s)\<rparr>
      in if pt_Kind task \<noteq> TaskKindEssential then s
         else s\<lparr>s_essentialByDevice := decrementCount device (s_essentialByDevice s),
                s_essentialBySite := fold decrementCount sites (s_essentialBySite s),
                s_essentialBySubnet := decrementCount (taskSubnetKey task) (s_essentialBySubnet s),
                s_essentialByProfile := decrementCount (taskProfileKey task) (s_essentialByProfile s)\<rparr>)"

definition incrementInFlight :: "SchedEnv \<Rightarrow> PollTask \<Rightarrow> Scheduler \<Rightarrow> Scheduler" where
  "incrementInFlight e task s =
     incrementIsolationCounts e task
       (if pt_Kind task = TaskKindEssential
        then s\<lparr>s_inFlightByKind := (s_inFlightByKind s)(TaskKindEssential \<mapsto> cget (s_inFlightByKind s) TaskKindEssential + 1)\<rparr>
        else s\<lparr>s_inFlightByClass := (s_inFlightByClass s)(pt_VolatilityClass task \<mapsto> cget (s_inFlightByClass s) (pt_VolatilityClass task) + 1)\<rparr>)"

definition decrementInFlight :: "SchedEnv \<Rightarrow> PollTask \<Rightarrow> Scheduler \<Rightarrow> Scheduler" where
  "decrementInFlight e task s =
     decrementIsolationCounts e task
       (if pt_Kind task = TaskKindEssential then
          (if cget (s_inFlightByKind s) TaskKindEssential > 0
           then s\<lparr>s_inFlightByKind := (s_inFlightByKind s)(TaskKindEssential \<mapsto> cget (s_inFlightByKind s) TaskKindEssential - 1)\<rparr>
           else s)
        else if cget (s_inFlightByClass s) (pt_VolatilityClass task) > 0
        then s\<lparr>s_inFlightByClass := (s_inFlightByClass s)(pt_VolatilityClass task \<mapsto> cget (s_inFlightByClass s) (pt_VolatilityClass task) - 1)\<rparr>
        else s)"

subsection \<open>Admission: class limits and isolation\<close>

definition noBlock :: isolationBlock where
  "noBlock = \<lparr>ib_reason = [], ib_scope = [], ib_scopeID = [], ib_scopeName = []\<rparr>"

text \<open>The loop over the device's areas returns the first site whose count reached the limit.\<close>

definition blockedSite :: "SchedEnv \<Rightarrow> (string \<rightharpoonup> int) \<Rightarrow> int \<Rightarrow> Device \<Rightarrow> string option" where
  "blockedSite e counts limit device =
     find (\<lambda>siteKey. siteKey \<noteq> [] \<and> cget counts siteKey \<ge> limit)
       (map (taskSiteKey (e_uuidString e)) (dev_AreaIDs device))"

definition computeIsolationBlock :: "SchedEnv \<Rightarrow> PollTask \<Rightarrow> Policy \<Rightarrow> Scheduler \<Rightarrow> isolationBlock" where
  "computeIsolationBlock e task policy s =
     (let task = normalizeTask task;
          essential = (pt_Kind task = TaskKindEssential);
          deviceCounts = (if essential then s_essentialByDevice s else s_inFlightByDevice s);
          siteCounts = (if essential then s_essentialBySite s else s_inFlightBySite s);
          subnetCounts = (if essential then s_essentialBySubnet s else s_inFlightBySubnet s);
          profileCounts = (if essential then s_essentialByProfile s else s_inFlightByProfile s);
          deviceKey = e_uuidString e (dev_ID (pt_Device task));
          site = (if pol_MaxWorkersPerSite policy > 0
                  then blockedSite e siteCounts (pol_MaxWorkersPerSite policy) (pt_Device task) else None);
          subnetKey = taskSubnetKey task;
          profileKey = taskProfileKey task
      in if pol_MaxWorkersPerDevice policy > 0 \<and> deviceKey \<noteq> [] \<and>
            cget deviceCounts deviceKey \<ge> pol_MaxWorkersPerDevice policy
         then \<lparr>ib_reason = ''device_limit'', ib_scope = ''device'', ib_scopeID = deviceKey,
               ib_scopeName = taskDeviceScopeName (e_uuidString e) (pt_Device task)\<rparr>
         else if site \<noteq> None
         then \<lparr>ib_reason = ''site_limit'', ib_scope = ''site'', ib_scopeID = the site, ib_scopeName = the site\<rparr>
         else if pol_MaxWorkersPerSubnet policy > 0 \<and> subnetKey \<noteq> [] \<and>
            cget subnetCounts subnetKey \<ge> pol_MaxWorkersPerSubnet policy
         then \<lparr>ib_reason = ''subnet_limit'', ib_scope = ''subnet'', ib_scopeID = subnetKey, ib_scopeName = subnetKey\<rparr>
         else if pol_MaxInflightPerProfile policy > 0 \<and> profileKey \<noteq> [] \<and>
            cget profileCounts profileKey \<ge> pol_MaxInflightPerProfile policy
         then \<lparr>ib_reason = ''profile_limit'', ib_scope = ''snmp_profile'',
               ib_scopeID = taskProfileScopeID profileKey, ib_scopeName = taskProfileScopeID profileKey\<rparr>
         else noBlock)"

definition dispatchBlockWithLimits :: "SchedEnv \<Rightarrow> PollTask \<Rightarrow> dispatchLimits \<Rightarrow> Scheduler \<Rightarrow> isolationBlock" where
  "dispatchBlockWithLimits e task limits s =
     (let task = normalizeTask task
      in if pt_Kind task = TaskKindEssential then
           (if cget (s_inFlightByKind s) TaskKindEssential \<ge> dl_essentialLimit limits
            then noBlock\<lparr>ib_reason := ''essential_limit''\<rparr>
            else computeIsolationBlock e task (dl_policy limits) s)
         else if cget (s_inFlightByClass s) (pt_VolatilityClass task) \<ge> cget (dl_budgets limits) (pt_VolatilityClass task)
         then noBlock\<lparr>ib_reason := ''class_limit''\<rparr>
         else computeIsolationBlock e task (dl_policy limits) s)"

subsection \<open>The scan state of one dispatch cycle\<close>

definition emptyScanState :: dispatchScanState where
  "emptyScanState =
     \<lparr>ss_classLimited = (\<lambda>_. False), ss_essentialLimited = False, ss_blockedMetrics = {}, ss_scopedMetrics = {}\<rparr>"

definition isKnownBlocked :: "dispatchScanState \<Rightarrow> PollTask \<Rightarrow> bool" where
  "isKnownBlocked state task =
     (let task = normalizeTask task
      in if pt_Kind task = TaskKindEssential then ss_essentialLimited state
         else let priority = VolatilityPriority (pt_VolatilityClass task)
              in priority \<ge> 0 \<and> priority < 3 \<and> ss_classLimited state (nat priority))"

definition recordBlockedDispatchMetrics ::
    "blockedDispatchMetric set \<Rightarrow> PollTask \<Rightarrow> string \<Rightarrow> blockedDispatchMetric set" where
  "recordBlockedDispatchMetrics blocked task reason =
     (let task = normalizeTask task
      in if pt_Kind task \<noteq> TaskKindEssential
         then insert (taskVolatilityForMetrics task, reason) blocked
         else let blocked = insert (VolatilityClassPerformance, ''essential_limit'') blocked
              in if reason \<noteq> ''essential_limit''
                 then insert (VolatilityClassPerformance, ''essential_'' @ reason) blocked else blocked)"

definition recordScopedBlockedDispatchMetrics ::
    "scopedBlockedDispatchMetric set \<Rightarrow> PollTask \<Rightarrow> isolationBlock \<Rightarrow> scopedBlockedDispatchMetric set" where
  "recordScopedBlockedDispatchMetrics blocked task block =
     (if ib_scope block = [] \<or> ib_scopeID block = [] then blocked
      else
        let task = normalizeTask task;
            reason = (if pt_Kind task = TaskKindEssential then ''essential_'' @ ib_reason block else ib_reason block)
        in insert \<lparr>sm_taskKind = TaskKind_str (pt_Kind task), sm_volatility = taskVolatilityForMetrics task,
                   sm_reason = reason, sm_scope = ib_scope block, sm_scopeID = ib_scopeID block,
                   sm_scopeName = ib_scopeName block\<rparr> blocked)"

definition recordBlocked :: "PollTask \<Rightarrow> isolationBlock \<Rightarrow> dispatchScanState \<Rightarrow> dispatchScanState" where
  "recordBlocked task block state =
     (let state = state\<lparr>ss_blockedMetrics := recordBlockedDispatchMetrics (ss_blockedMetrics state) task (ib_reason block),
                        ss_scopedMetrics := recordScopedBlockedDispatchMetrics (ss_scopedMetrics state) task block\<rparr>;
          task = normalizeTask task
      in if pt_Kind task = TaskKindEssential then
           (if ib_reason block = ''essential_limit'' then state\<lparr>ss_essentialLimited := True\<rparr> else state)
         else if ib_reason block \<noteq> ''class_limit'' then state
         else let priority = VolatilityPriority (pt_VolatilityClass task)
              in if priority \<ge> 0 \<and> priority < 3
                 then state\<lparr>ss_classLimited := (ss_classLimited state)(nat priority := True)\<rparr> else state)"

definition flushBlockedMetrics :: "dispatchScanState \<Rightarrow> Scheduler \<Rightarrow> dispatchScanState \<times> Scheduler" where
  "flushBlockedMetrics state s =
     (state\<lparr>ss_blockedMetrics := {}, ss_scopedMetrics := {}\<rparr>,
      s\<lparr>s_backpressure := (\<lambda>m. if m \<in> ss_blockedMetrics state then Suc (s_backpressure s m) else s_backpressure s m),
        s_scopedBackpressure := (\<lambda>m. if m \<in> ss_scopedMetrics state then Suc (s_scopedBackpressure s m)
                                     else s_scopedBackpressure s m)\<rparr>)"

definition recordBackpressure :: "string \<Rightarrow> Scheduler \<Rightarrow> Scheduler" where
  "recordBackpressure reason s =
     fold (\<lambda>v s. if s_ready s (nat (VolatilityPriority v)) = [] then s else IncSchedulerBackpressure v reason s)
       scheduledVolatilityClasses s"

subsection \<open>Ready queues\<close>

definition readyQueuesEmpty :: "Scheduler \<Rightarrow> bool" where
  "readyQueuesEmpty s \<longleftrightarrow> list_all (\<lambda>p. s_ready s p = []) [0..<3]"

text \<open>The index of the ready queue: an out-of-range priority goes to the last queue.\<close>

definition readyIndex :: "PollTask \<Rightarrow> nat" where
  "readyIndex task =
     (let priority = readyPriority task in if priority < 0 \<or> priority \<ge> 3 then 2 else nat priority)"

definition enqueueReady :: "ref \<Rightarrow> Scheduler \<Rightarrow> Scheduler" where
  "enqueueReady r s =
     (if hi_queued (s_mem s r) then s
      else
        let s = upd r (\<lambda>it. it\<lparr>hi_task := normalizeTask (hi_task it)\<rparr>) s;
            p = readyIndex (hi_task (s_mem s r));
            s = upd r (\<lambda>it. it\<lparr>hi_queued := True, hi_task := (hi_task it)\<lparr>pt_DueAt := hi_dueAt it\<rparr>\<rparr>) s
        in s\<lparr>s_ready := (s_ready s)(p := s_ready s p @ [r])\<rparr>)"

definition pushReadyFront :: "ref \<Rightarrow> Scheduler \<Rightarrow> Scheduler" where
  "pushReadyFront r s =
     (if hi_queued (s_mem s r) then s
      else
        let s = upd r (\<lambda>it. it\<lparr>hi_task := normalizeTask (hi_task it)\<rparr>) s;
            p = readyIndex (hi_task (s_mem s r));
            s = upd r (\<lambda>it. it\<lparr>hi_queued := True, hi_task := (hi_task it)\<lparr>pt_DueAt := hi_dueAt it\<rparr>\<rparr>) s
        in s\<lparr>s_ready := (s_ready s)(p := r # s_ready s p)\<rparr>)"

definition removeReadyItem :: "ref \<Rightarrow> Scheduler \<Rightarrow> Scheduler" where
  "removeReadyItem r s =
     (case find (\<lambda>p. r \<in> set (s_ready s p)) [0..<3] of
        None \<Rightarrow> s
      | Some p \<Rightarrow> upd r (\<lambda>it. it\<lparr>hi_queued := False\<rparr>)
                    (s\<lparr>s_ready := (s_ready s)(p := remove1 r (s_ready s p))\<rparr>))"

text \<open>
  \<open>scanQueue\<close> is the inner loop of \<open>popReadyEligibleKind\<close> over one queue; \<open>pre\<close> is the part
  already scanned. A hit closes the gap in the slice.
\<close>

definition kindSkipped :: "TaskKind \<Rightarrow> PollTask \<Rightarrow> bool" where
  "kindSkipped kind task \<longleftrightarrow>
     (if kind = TaskKindNone then pt_Kind task = TaskKindEssential \<or> pt_Kind task = TaskKindBootstrap
      else pt_Kind task \<noteq> kind)"

fun scanQueue :: "SchedEnv \<Rightarrow> dispatchLimits \<Rightarrow> TaskKind \<Rightarrow> nat \<Rightarrow> ref list \<Rightarrow> ref list \<Rightarrow>
    dispatchScanState \<Rightarrow> Scheduler \<Rightarrow> ref option \<times> dispatchScanState \<times> Scheduler" where
  "scanQueue e limits kind p pre [] state s = (None, state, s)"
| "scanQueue e limits kind p pre (r # rs) state s =
     (let s = upd r (\<lambda>it. it\<lparr>hi_task := normalizeTask (hi_task it)\<rparr>) s;
          task = hi_task (s_mem s r);
          block = dispatchBlockWithLimits e task limits s
      in if kindSkipped kind task then scanQueue e limits kind p (pre @ [r]) rs state s
         else if isKnownBlocked state task then scanQueue e limits kind p (pre @ [r]) rs state s
         else if ib_reason block \<noteq> []
         then scanQueue e limits kind p (pre @ [r]) rs (recordBlocked task block state) s
         else (Some r, state,
               upd r (\<lambda>it. it\<lparr>hi_queued := False\<rparr>) (s\<lparr>s_ready := (s_ready s)(p := pre @ rs)\<rparr>)))"

fun scanQueues :: "SchedEnv \<Rightarrow> dispatchLimits \<Rightarrow> TaskKind \<Rightarrow> nat list \<Rightarrow>
    dispatchScanState \<Rightarrow> Scheduler \<Rightarrow> ref option \<times> dispatchScanState \<times> Scheduler" where
  "scanQueues e limits kind [] state s = (None, state, s)"
| "scanQueues e limits kind (p # ps) state s =
     (case scanQueue e limits kind p [] (s_ready s p) state s of
        (None, state, s) \<Rightarrow> scanQueues e limits kind ps state s
      | found \<Rightarrow> found)"

definition popReadyEligibleKind :: "SchedEnv \<Rightarrow> dispatchLimits \<Rightarrow> TaskKind \<Rightarrow>
    dispatchScanState \<Rightarrow> Scheduler \<Rightarrow> ref option \<times> dispatchScanState \<times> Scheduler" where
  "popReadyEligibleKind e limits kind state s = scanQueues e limits kind [0..<3] state s"

fun popReadyKinds :: "SchedEnv \<Rightarrow> dispatchLimits \<Rightarrow> TaskKind list \<Rightarrow>
    dispatchScanState \<Rightarrow> Scheduler \<Rightarrow> ref option \<times> dispatchScanState \<times> Scheduler" where
  "popReadyKinds e limits [] state s = (let (state, s) = flushBlockedMetrics state s in (None, state, s))"
| "popReadyKinds e limits (kind # kinds) state s =
     (case popReadyEligibleKind e limits kind state s of
        (None, state, s) \<Rightarrow> popReadyKinds e limits kinds state s
      | found \<Rightarrow> found)"

definition popReadyEligible :: "SchedEnv \<Rightarrow> dispatchLimits \<Rightarrow>
    dispatchScanState \<Rightarrow> Scheduler \<Rightarrow> ref option \<times> dispatchScanState \<times> Scheduler" where
  "popReadyEligible e limits state s =
     popReadyKinds e limits [TaskKindEssential, TaskKindBootstrap, TaskKindNone] state s"

end
