(* ===== verification/Scheduler_Ops.thy ===== *)
theory Scheduler_Ops
  imports Scheduler_Model
begin

text \<open>
  The handlers of the scheduler: dispatching ready work, moving due work to the ready queues,
  inventory refresh, cadence changes, completions, and the lifecycle and entry points of
  \<open>scheduler.go\<close>. The two loops that are not structural, dispatching and draining the heap,
  terminate because each turn shortens a queue; the lemmas in front of them say so.
\<close>

subsection \<open>Dispatching\<close>

definition readyRefs :: "Scheduler \<Rightarrow> ref list" where
  "readyRefs s = s_ready s 0 @ s_ready s 1 @ s_ready s 2"

lemma readyRefs_cong: "s_ready t = s_ready s \<Longrightarrow> readyRefs t = readyRefs s"
  by (simp add: readyRefs_def)

lemma upd_frame [simp]:
  "s_ready (upd r f s) = s_ready s" "s_items (upd r f s) = s_items s" "s_heap (upd r f s) = s_heap s"
  "s_next (upd r f s) = s_next s" "s_inFlight (upd r f s) = s_inFlight s"
  "s_tasks (upd r f s) = s_tasks s" "s_tasksCap (upd r f s) = s_tasksCap s"
  "s_completions (upd r f s) = s_completions s" "s_completionsCap (upd r f s) = s_completionsCap s"
  "s_redueRequests (upd r f s) = s_redueRequests s" "s_redueCap (upd r f s) = s_redueCap s"
  "s_inFlightByClass (upd r f s) = s_inFlightByClass s" "s_inFlightByKind (upd r f s) = s_inFlightByKind s"
  "s_inFlightByDevice (upd r f s) = s_inFlightByDevice s"
  "s_essentialByDevice (upd r f s) = s_essentialByDevice s"
  "s_inFlightBySite (upd r f s) = s_inFlightBySite s" "s_essentialBySite (upd r f s) = s_essentialBySite s"
  "s_inFlightBySubnet (upd r f s) = s_inFlightBySubnet s" "s_essentialBySubnet (upd r f s) = s_essentialBySubnet s"
  "s_inFlightByProfile (upd r f s) = s_inFlightByProfile s" "s_essentialByProfile (upd r f s) = s_essentialByProfile s"
  "s_runID (upd r f s) = s_runID s" "s_running (upd r f s) = s_running s" "s_started (upd r f s) = s_started s"
  "s_mem (upd r f s) x = (if x = r then f (s_mem s r) else s_mem s x)"
  by (simp_all add: upd_def)

text \<open>The ready queues after a scan: unchanged, or one reference of a queue in \<open>P\<close> taken out.\<close>

definition ready_minus :: "ref option \<Rightarrow> nat set \<Rightarrow> (nat \<Rightarrow> ref list) \<Rightarrow> (nat \<Rightarrow> ref list) \<Rightarrow> bool" where
  "ready_minus x P q q' \<longleftrightarrow>
     (case x of None \<Rightarrow> q' = q
      | Some r \<Rightarrow> \<exists>p \<in> P. \<exists>as bs. q p = as @ r # bs \<and> q' = q(p := as @ bs))"

lemma ready_minus_None [simp]: "ready_minus None P q q' \<longleftrightarrow> q' = q"
  by (simp add: ready_minus_def)

lemma ready_minus_mono: "ready_minus x P q q' \<Longrightarrow> P \<subseteq> Q \<Longrightarrow> ready_minus x Q q q'"
  by (auto simp: ready_minus_def split: option.splits)

lemma ready_minus_hit: "q p = as @ r # bs \<Longrightarrow> q' = q(p := as @ bs) \<Longrightarrow> ready_minus (Some r) {p} q q'"
  by (auto simp: ready_minus_def)

lemma scanQueue_ready:
  "scanQueue e limits kind p pre q state s = (x, state', s') \<Longrightarrow> s_ready s p = pre @ q \<Longrightarrow>
   ready_minus x {p} (s_ready s) (s_ready s')"
proof (induction e limits kind p pre q state s rule: scanQueue.induct)
  case (2 e limits kind p pre r rs state s)
  let ?s = "upd r (\<lambda>it. it\<lparr>hi_task := normalizeTask (hi_task it)\<rparr>) s"
  let ?task = "hi_task (s_mem ?s r)"
  let ?block = "dispatchBlockWithLimits e ?task limits ?s"
  show ?case
  proof (cases "kindSkipped kind ?task \<or> isKnownBlocked state ?task \<or> ib_reason ?block \<noteq> []")
    case True
    then obtain st where "scanQueue e limits kind p (pre @ [r]) rs st ?s = (x, state', s')"
        "ready_minus x {p} (s_ready ?s) (s_ready s')"
      using "2.prems" "2.IH"(1) [OF refl refl refl] "2.IH"(2) [OF refl refl refl]
        "2.IH"(3) [OF refl refl refl]
      by (auto simp: Let_def split: if_splits)
    then show ?thesis by simp
  next
    case False
    then show ?thesis using "2.prems"
      by (auto simp: Let_def fun_upd_def intro!: ready_minus_hit [of _ _ pre _ rs])
  qed
qed simp

lemma scanQueues_ready:
  "scanQueues e limits kind ps state s = (x, state', s') \<Longrightarrow>
   ready_minus x (set ps) (s_ready s) (s_ready s')"
proof (induction ps arbitrary: state s)
  case (Cons p ps)
  obtain x1 st1 s1 where one: "scanQueue e limits kind p [] (s_ready s p) state s = (x1, st1, s1)"
    by (metis prod_cases3)
  have r: "ready_minus x1 {p} (s_ready s) (s_ready s1)" using scanQueue_ready [OF one] by simp
  show ?case
  proof (cases x1)
    case None
    then have "ready_minus x (set ps) (s_ready s) (s_ready s')"
      using Cons.IH [of st1 s1] Cons.prems one r by simp
    then show ?thesis by (rule ready_minus_mono) auto
  next
    case (Some r)
    then have "ready_minus x {p} (s_ready s) (s_ready s')" using r Cons.prems one by simp
    then show ?thesis by (rule ready_minus_mono) auto
  qed
qed simp

lemma popReadyKinds_ready:
  "popReadyKinds e limits kinds state s = (x, state', s') \<Longrightarrow>
   ready_minus x {..<3} (s_ready s) (s_ready s')"
proof (induction kinds arbitrary: state s)
  case (Cons kind kinds)
  obtain x1 st1 s1 where one: "popReadyEligibleKind e limits kind state s = (x1, st1, s1)"
    by (metis prod_cases3)
  have r: "ready_minus x1 {..<3} (s_ready s) (s_ready s1)"
    using scanQueues_ready [OF one [unfolded popReadyEligibleKind_def]] by (simp add: lessThan_atLeast0)
  show ?case
    using Cons.IH [of st1 s1] Cons.prems one r by (cases x1) auto
qed (auto simp: flushBlockedMetrics_def)

lemma ready_minus_mset:
  "ready_minus (Some r) {..<3} q q' \<Longrightarrow>
   mset (q 0 @ q 1 @ q 2) = add_mset r (mset (q' 0 @ q' 1 @ q' 2))"
  by (auto simp: ready_minus_def less_Suc_eq numeral_3_eq_3 split: if_splits)

lemma popReadyEligible_shrinks:
  "popReadyEligible e limits state s = (Some r, state', s') \<Longrightarrow>
   mset (readyRefs s) = add_mset r (mset (readyRefs s'))"
  unfolding popReadyEligible_def readyRefs_def by (intro ready_minus_mset popReadyKinds_ready)

text \<open>
  The task sent to the workers, from the item and the time of dispatch.
\<close>

definition dispatchTask :: "heapItem \<Rightarrow> 64 word \<Rightarrow> gotime \<Rightarrow> PollTask" where
  "dispatchTask item runID now =
     (let task = normalizeTask (hi_task item);
          lag = tSub now (hi_dueAt item);
          deadline = tAdd (hi_dueAt item) (hi_interval item)
      in task\<lparr>pt_RunID := runID, pt_DueAt := hi_dueAt item, pt_QueueLag := (if lag < 0 then 0 else lag),
              pt_DeadlineAt := deadline, pt_DeadlineMissed := (\<not> IsZero deadline \<and> tAfter now deadline),
              pt_SkippedWindows := hi_skippedWindows item\<rparr>)"

definition sendTask :: "SchedEnv \<Rightarrow> gotime \<Rightarrow> ref \<Rightarrow> Scheduler \<Rightarrow> Scheduler" where
  "sendTask e now r s =
     (let task = dispatchTask (s_mem s r) (s_runID s) now;
          s = s\<lparr>s_tasks := s_tasks s @ [task]\<rparr>;
          s = upd r (\<lambda>it. it\<lparr>hi_inFlight := True, hi_dispatchedAt := now, hi_runID := s_runID s, hi_task := task\<rparr>) s;
          s = incrementInFlight e task (s\<lparr>s_inFlight := s_inFlight s + 1\<rparr>)
      in if pt_Kind task = TaskKindEssential \<and> pt_DeadlineMissed task
         then s\<lparr>s_deadlineMissTotal := s_deadlineMissTotal s + 1\<rparr> else s)"

lemma incrementInFlight_ready [simp]: "s_ready (incrementInFlight e task s) = s_ready s"
  by (simp add: incrementInFlight_def incrementIsolationCounts_def Let_def)

lemma sendTask_ready [simp]: "s_ready (sendTask e now r s) = s_ready s"
  by (simp add: sendTask_def Let_def)

lemma deleteItem_ready [simp]: "s_ready (deleteItem k s) = s_ready s"
  by (simp add: deleteItem_def)

lemma popReadyEligible_shorter:
  "(Some r, state', s') = popReadyEligible e limits state s \<Longrightarrow> length (readyRefs s') < length (readyRefs s)"
  using arg_cong [OF popReadyEligible_shrinks [OF sym], of r state' s' e limits state s size] by simp

text \<open>
  Why a dispatch cycle ended. The source logs the first three; \<open>SendBlocked\<close> stands for the
  \<open>select\<close> that waits because the task channel is full and the context is not cancelled.
  \<open>ctxDone n\<close> says that the \<open>n\<close>-th \<open>select\<close> takes its \<open>ctx.Done\<close> branch.
\<close>

datatype StopReason = GlobalLimit | NoEligibleTask | ContextDone | SendBlocked | QueuesEmpty

function dispatchLoop :: "SchedEnv \<Rightarrow> dispatchLimits \<Rightarrow> (nat \<Rightarrow> bool) \<Rightarrow> gotime \<Rightarrow> nat \<Rightarrow>
    dispatchScanState \<Rightarrow> Scheduler \<Rightarrow> StopReason \<times> Scheduler" where
  "dispatchLoop e limits ctxDone now n state s =
     (if s_inFlight s \<ge> dl_globalLimit limits
      then (GlobalLimit, snd (flushBlockedMetrics state (recordBackpressure ''global_limit'' s)))
      else
        (case popReadyEligible e limits state s of
           (None, state, s) \<Rightarrow> (NoEligibleTask, snd (flushBlockedMetrics state s))
         | (Some r, state, s) \<Rightarrow>
             if hi_disabled (s_mem s r)
             then dispatchLoop e limits ctxDone now n state (deleteItem (pt_Key (hi_task (s_mem s r))) s)
             else if ctxDone n then (ContextDone, snd (flushBlockedMetrics state (pushReadyFront r s)))
             else if length (s_tasks s) < s_tasksCap s
             then dispatchLoop e limits ctxDone now (Suc n) state (sendTask e now r s)
             else (SendBlocked, s)))"
  by pat_completeness auto

termination
  by (relation "measure (\<lambda>(e, limits, ctxDone, now, n, state, s). length (readyRefs s))")
    (auto dest!: popReadyEligible_shorter simp: readyRefs_cong [OF sendTask_ready] readyRefs_cong [OF deleteItem_ready])

declare dispatchLoop.simps [simp del]

definition dispatchReady :: "SchedEnv \<Rightarrow> (nat \<Rightarrow> bool) \<Rightarrow> gotime \<Rightarrow> Scheduler \<Rightarrow> StopReason \<times> Scheduler" where
  "dispatchReady e ctxDone now s =
     (if readyQueuesEmpty s then (QueuesEmpty, s)
      else dispatchLoop e (computeDispatchLimits e s) ctxDone now 0 emptyScanState s)"

subsection \<open>Due work\<close>

definition markSkippedWindow :: "ref \<Rightarrow> Scheduler \<Rightarrow> Scheduler" where
  "markSkippedWindow r s =
     (if hi_pending (s_mem s r) then s
      else IncSchedulerBackpressure (taskVolatilityForMetrics (hi_task (s_mem s r))) ''skipped_window''
             (upd r (\<lambda>it. it\<lparr>hi_pending := True, hi_skippedWindows := hi_skippedWindows it + 1\<rparr>) s))"

definition markElapsedItem :: "gotime \<Rightarrow> TaskKey \<Rightarrow> Scheduler \<Rightarrow> Scheduler" where
  "markElapsedItem now key s =
     (case s_items s key of
        None \<Rightarrow> s
      | Some r \<Rightarrow>
          let item = s_mem s r
          in if \<not> hi_inFlight item \<or> tAfter (hi_dueAt item) now then s
             else if hi_interval item > 0 \<and> tBefore now (tAdd (hi_dueAt item) (hi_interval item)) then s
             else markSkippedWindow r s)"

definition markElapsedInFlightWindows :: "SchedEnv \<Rightarrow> gotime \<Rightarrow> Scheduler \<Rightarrow> Scheduler" where
  "markElapsedInFlightWindows e now s =
     (if s_inFlight s \<le> 0 then s else fold (markElapsedItem now) (e_range e (s_items s)) s)"

lemma enqueueReady_heap [simp]: "s_heap (enqueueReady r s) = s_heap s"
  by (simp add: enqueueReady_def Let_def)

lemma markSkippedWindow_heap [simp]: "s_heap (markSkippedWindow r s) = s_heap s"
  by (simp add: markSkippedWindow_def IncSchedulerBackpressure_def)

lemma popHeap_shorter:
  "s_heap s \<noteq> [] \<Longrightarrow> (r, s') = popHeap us s \<Longrightarrow> length (s_heap s') < length (s_heap s)"
  using heapPop_length [of "(s_mem s, s_heap s)" us] by (simp add: popHeap_def Let_def setStore_def)

function drainDue :: "(uuid \<Rightarrow> string) \<Rightarrow> gotime \<Rightarrow> Scheduler \<Rightarrow> Scheduler" where
  "drainDue us now s =
     (if s_heap s = [] then s
      else if tAfter (hi_dueAt (s_mem s (s_heap s ! 0))) now then s
      else
        let (r, s) = popHeap us s; item = s_mem s r
        in if hi_disabled item then drainDue us now (deleteItem (pt_Key (hi_task item)) s)
           else if hi_inFlight item then drainDue us now (markSkippedWindow r s)
           else if hi_queued item then drainDue us now (markSkippedWindow r s)
           else drainDue us now (enqueueReady r s))"
  by pat_completeness auto

termination
  by (relation "measure (\<lambda>(us, now, s). length (s_heap s))")
    (auto dest: popHeap_shorter simp: deleteItem_def)

declare drainDue.simps [simp del]

definition moveDueTasksToReady :: "SchedEnv \<Rightarrow> gotime \<Rightarrow> Scheduler \<Rightarrow> Scheduler" where
  "moveDueTasksToReady e now s = drainDue (e_uuidString e) now (markElapsedInFlightWindows e now s)"

definition nextWakeDelay :: "gotime \<Rightarrow> Scheduler \<Rightarrow> duration" where
  "nextWakeDelay now s =
     (if s_heap s = [] then s_refreshInterval s
      else let delay = tSub (hi_dueAt (s_mem s (s_heap s ! 0))) now in if delay < 0 then 0 else delay)"

subsection \<open>Scheduling recurring work\<close>

definition upsertScheduledItem :: "SchedEnv \<Rightarrow> Device \<Rightarrow> TaskKey \<Rightarrow> TaskKind \<Rightarrow> Lane \<Rightarrow> VolatilityClass \<Rightarrow>
    duration \<Rightarrow> gotime \<Rightarrow> Scheduler \<Rightarrow> Scheduler" where
  "upsertScheduledItem e device key kind lane volatility interval now s =
     (case s_items s key of
        Some r \<Rightarrow>
          upd r (\<lambda>it. it\<lparr>hi_disabled := False,
            hi_task := (hi_task it)\<lparr>pt_Key := key, pt_Kind := kind, pt_Lane := lane, pt_Device := device,
              pt_PollClass := dev_PollClass device, pt_VolatilityClass := volatility,
              pt_ExpectedInterval := interval, pt_DueAt := hi_dueAt it,
              pt_DeadlineAt := tAdd (hi_dueAt it) interval\<rparr>,
            hi_interval := interval\<rparr>) s
      | None \<Rightarrow>
          let dueAt = tAdd now (initialOffsetForKey key interval);
              task = newTask key kind lane device volatility interval dueAt;
              (r, s) = allocItem (newHeapItem task dueAt interval) s
          in putItem key r (pushHeap (e_uuidString e) r s))"

definition applySchedule :: "TaskKey \<Rightarrow> TaskKind \<Rightarrow> Lane \<Rightarrow> VolatilityClass \<Rightarrow> Device \<Rightarrow> gotime \<Rightarrow> duration \<Rightarrow>
    heapItem \<Rightarrow> heapItem" where
  "applySchedule key kind lane volatility device dueAt interval it =
     it\<lparr>hi_disabled := False,
        hi_task := (hi_task it)\<lparr>pt_Key := key, pt_Kind := kind, pt_Lane := lane, pt_Device := device,
          pt_PollClass := dev_PollClass device, pt_VolatilityClass := volatility,
          pt_ExpectedInterval := interval, pt_DueAt := dueAt, pt_DeadlineAt := tAdd dueAt interval\<rparr>,
        hi_interval := interval, hi_dueAt := dueAt\<rparr>"

definition applyBootstrapSchedule :: "ref \<Rightarrow> Device \<Rightarrow> gotime \<Rightarrow> duration \<Rightarrow> Scheduler \<Rightarrow> Scheduler" where
  "applyBootstrapSchedule r device dueAt interval s =
     upd r (applySchedule (NewBootstrapTaskKey (dev_ID device)) TaskKindBootstrap LaneBootstrap
       VolatilityClassStatic device dueAt interval) s"

definition applyPerformanceRedue :: "ref \<Rightarrow> Device \<Rightarrow> gotime \<Rightarrow> duration \<Rightarrow> Scheduler \<Rightarrow> Scheduler" where
  "applyPerformanceRedue r device changedAt interval s =
     upd r (applySchedule (NewTaskKey (dev_ID device) VolatilityClassPerformance) TaskKindBackground
       LaneBackground VolatilityClassPerformance device changedAt interval) s"

definition applyEssentialRedue :: "ref \<Rightarrow> Device \<Rightarrow> gotime \<Rightarrow> duration \<Rightarrow> Scheduler \<Rightarrow> Scheduler" where
  "applyEssentialRedue r device changedAt interval s =
     upd r (applySchedule (NewEssentialTaskKey (dev_ID device)) TaskKindEssential LaneEssential
       VolatilityClassNone device changedAt interval) s"

text \<open>
  The \<open>switch\<close> that ends each of the three re-scheduling handlers: an item in flight is marked to
  run again, a queued one moves to the front, one in the heap is moved to its new position.
\<close>

definition replaceItem :: "(uuid \<Rightarrow> string) \<Rightarrow> ref \<Rightarrow> Scheduler \<Rightarrow> Scheduler" where
  "replaceItem us r s =
     (if hi_inFlight (s_mem s r) then upd r (\<lambda>it. it\<lparr>hi_pending := True, hi_immediateRerun := True\<rparr>) s
      else if hi_queued (s_mem s r) then pushReadyFront r (removeReadyItem r s)
      else if hi_index (s_mem s r) \<ge> 0 then fixHeap us (hi_index (s_mem s r)) s
      else pushReadyFront r s)"

definition scheduleBootstrapItem :: "SchedEnv \<Rightarrow> Device \<Rightarrow> gotime \<Rightarrow> Scheduler \<Rightarrow> Scheduler" where
  "scheduleBootstrapItem e device dueAt s =
     (let key = NewBootstrapTaskKey (dev_ID device); interval = StaticClassInterval
      in case s_items s key of
           Some r \<Rightarrow> replaceItem (e_uuidString e) r (applyBootstrapSchedule r device dueAt interval s)
         | None \<Rightarrow>
             let task = newTask key TaskKindBootstrap LaneBootstrap device VolatilityClassStatic interval dueAt;
                 (r, s) = allocItem (newHeapItem task dueAt interval) s
             in pushReadyFront r (putItem key r s))"

definition scheduleBackgroundClass :: "SchedEnv \<Rightarrow> Device \<Rightarrow> gotime \<Rightarrow> VolatilityClass \<Rightarrow> Scheduler \<Rightarrow> Scheduler" where
  "scheduleBackgroundClass e device now volatility s =
     upsertScheduledItem e device (NewBackgroundTaskKey (dev_ID device) volatility) TaskKindBackground
       LaneBackground volatility (EffectiveInterval device volatility) now s"

text \<open>
  \<open>scheduledKeys\<close> are the keys the method enters in \<open>seen\<close>; the method itself only updates the
  scheduler.
\<close>

definition scheduledKeys :: "Device \<Rightarrow> TaskKey list" where
  "scheduledKeys device =
     (if shouldScheduleEssentialTask device then [NewEssentialTaskKey (dev_ID device)] else []) @
     (if shouldScheduleBootstrapTask device then [NewBootstrapTaskKey (dev_ID device)] else []) @
     map (NewBackgroundTaskKey (dev_ID device)) (scheduledBackgroundVolatilityClassesForDevice device)"

definition scheduleRecurringDeviceLocked :: "SchedEnv \<Rightarrow> Device \<Rightarrow> gotime \<Rightarrow> Scheduler \<Rightarrow> Scheduler" where
  "scheduleRecurringDeviceLocked e device now s =
     (let s = (if shouldScheduleEssentialTask device
               then upsertScheduledItem e device (NewEssentialTaskKey (dev_ID device)) TaskKindEssential
                      LaneEssential VolatilityClassNone (EssentialInterval device) now s
               else s);
          s = (if shouldScheduleBootstrapTask device
               then (case s_items s (NewBootstrapTaskKey (dev_ID device)) of
                       Some r \<Rightarrow> applyBootstrapSchedule r device (hi_dueAt (s_mem s r)) StaticClassInterval s
                     | None \<Rightarrow> scheduleBootstrapItem e device now s)
               else s)
      in fold (scheduleBackgroundClass e device now) (scheduledBackgroundVolatilityClassesForDevice device) s)"

definition refreshItem :: "SchedEnv \<Rightarrow> TaskKey set \<Rightarrow> TaskKey \<Rightarrow> Scheduler \<Rightarrow> Scheduler" where
  "refreshItem e seen key s =
     (case s_items s key of
        None \<Rightarrow> s
      | Some r \<Rightarrow>
          if key \<in> seen then s
          else if hi_inFlight (s_mem s r) \<or> hi_queued (s_mem s r)
          then upd r (\<lambda>it. it\<lparr>hi_disabled := True\<rparr>) s
          else deleteItem key
                 (if hi_index (s_mem s r) \<ge> 0 then removeHeap (e_uuidString e) (hi_index (s_mem s r)) s else s))"

definition refreshDevices :: "SchedEnv \<Rightarrow> gotime \<Rightarrow> Scheduler \<Rightarrow> Scheduler" where
  "refreshDevices e now s =
     (case e_devices e of
        None \<Rightarrow> s
      | Some devices \<Rightarrow>
          let recurring = filter shouldScheduleRecurringDevice devices;
              seen = set (concat (map scheduledKeys recurring));
              s = fold (\<lambda>device. scheduleRecurringDeviceLocked e device now) recurring s;
              s = fold (refreshItem e seen) (e_range e (s_items s)) s;
              (policy, warnings) = PolicyFromSettings (e_float e) (e_settings e) (managedDeviceCount devices)
                 (300 * Millisecond) (shortestEssentialInterval devices)
          in s\<lparr>s_lastWarnings := warnings, s_degradedRisk := pol_DegradedRisk policy\<rparr>)"

definition removeDeviceItem :: "SchedEnv \<Rightarrow> uuid \<Rightarrow> TaskKey \<Rightarrow> Scheduler \<Rightarrow> Scheduler" where
  "removeDeviceItem e deviceID key s =
     (case s_items s key of
        None \<Rightarrow> s
      | Some r \<Rightarrow>
          if tk_DeviceID key \<noteq> deviceID then s
          else
            let s = (if hi_queued (s_mem s r) then removeReadyItem r s else s);
                s = (if hi_index (s_mem s r) \<ge> 0 then removeHeap (e_uuidString e) (hi_index (s_mem s r)) s else s);
                s = upd r (\<lambda>it. it\<lparr>hi_pending := False\<rparr>) s
            in if hi_inFlight (s_mem s r) then upd r (\<lambda>it. it\<lparr>hi_disabled := True\<rparr>) s
               else deleteItem key s)"

definition removeDeviceTasksLocked :: "SchedEnv \<Rightarrow> uuid \<Rightarrow> Scheduler \<Rightarrow> Scheduler" where
  "removeDeviceTasksLocked e deviceID s = fold (removeDeviceItem e deviceID) (e_range e (s_items s)) s"

subsection \<open>Cadence changes\<close>

definition sourceIncludesDevice :: "SchedEnv \<Rightarrow> uuid \<Rightarrow> bool" where
  "sourceIncludesDevice e deviceID =
     (case e_gate e of
        None \<Rightarrow> True
      | Some gate \<Rightarrow> (case gate deviceID of None \<Rightarrow> False | Some included \<Rightarrow> included))"

definition handleReduePerformanceTask :: "SchedEnv \<Rightarrow> reduePerformanceTaskRequest \<Rightarrow> Scheduler \<Rightarrow> Scheduler" where
  "handleReduePerformanceTask e request s =
     (let device = rq_device request
      in if \<not> shouldScheduleRecurringDevice device then s
         else if \<not> sourceIncludesDevice e (dev_ID device) then s
         else if dev_DeviceType device = DeviceTypeVirtual then s
         else
           let changedAt = (if IsZero (rq_changedAt request) then e_now e else rq_changedAt request)
           in if shouldScheduleBootstrapTask device then scheduleBootstrapItem e device changedAt s
              else
                let key = NewTaskKey (dev_ID device) VolatilityClassPerformance;
                    interval = EffectiveInterval device VolatilityClassPerformance
                in case s_items s key of
                     Some r \<Rightarrow> replaceItem (e_uuidString e) r (applyPerformanceRedue r device changedAt interval s)
                   | None \<Rightarrow>
                       let task = newTask key TaskKindBackground LaneBackground device
                                    VolatilityClassPerformance interval changedAt;
                           (r, s) = allocItem (newHeapItem task changedAt interval) s
                       in pushReadyFront r (putItem key r s))"

definition handleRedueEssentialTask :: "SchedEnv \<Rightarrow> reduePerformanceTaskRequest \<Rightarrow> Scheduler \<Rightarrow> Scheduler" where
  "handleRedueEssentialTask e request s =
     (let device = rq_device request
      in if \<not> shouldScheduleRecurringDevice device then s
         else if \<not> sourceIncludesDevice e (dev_ID device) then s
         else if dev_DeviceType device = DeviceTypeVirtual then s
         else
           let changedAt = (if IsZero (rq_changedAt request) then e_now e else rq_changedAt request);
               key = NewEssentialTaskKey (dev_ID device);
               interval = EssentialInterval device
           in case s_items s key of
                Some r \<Rightarrow> replaceItem (e_uuidString e) r (applyEssentialRedue r device changedAt interval s)
              | None \<Rightarrow>
                  let task = newTask key TaskKindEssential LaneEssential device
                               VolatilityClassNone interval changedAt;
                      (r, s) = allocItem (newHeapItem task changedAt interval) s
                  in pushReadyFront r (putItem key r s))"

subsection \<open>Completions\<close>

text \<open>The tail of \<open>handleCompletion\<close>: where an item goes once its run is over.\<close>

definition rescheduleItem :: "SchedEnv \<Rightarrow> ref \<Rightarrow> gotime \<Rightarrow> Scheduler \<Rightarrow> Scheduler" where
  "rescheduleItem e r finishedAt s =
     (let item = s_mem s r;
          overdue = (hi_interval item > 0 \<and> tAfter finishedAt (tAdd (hi_dueAt item) (hi_interval item)));
          s = upd r (\<lambda>it. it\<lparr>hi_pending := False, hi_immediateRerun := False\<rparr>) s
      in if hi_immediateRerun item \<or> (pt_Kind (hi_task item) = TaskKindEssential \<and> (hi_pending item \<or> overdue))
         then enqueueReady r
                (upd r (\<lambda>it. it\<lparr>hi_dueAt := finishedAt,
                   hi_task := (hi_task it)\<lparr>pt_DueAt := finishedAt, pt_DeadlineAt := tAdd finishedAt (hi_interval it)\<rparr>\<rparr>) s)
         else
           let nxt = (if taskIsBackground (hi_task item)
                      then nextPhaseAfter (hi_dueAt item) (hi_interval item) finishedAt
                      else jitteredNext (e_float e) finishedAt (hi_interval item) (Some (e_draw e)))
           in pushHeap (e_uuidString e) r
                (upd r (\<lambda>it. it\<lparr>hi_dueAt := nxt,
                   hi_task := (hi_task it)\<lparr>pt_DueAt := nxt, pt_DeadlineAt := tAdd nxt (hi_interval it)\<rparr>,
                   hi_skippedWindows := 0\<rparr>) s))"

definition handleCompletion :: "SchedEnv \<Rightarrow> Completion \<Rightarrow> Scheduler \<Rightarrow> Scheduler" where
  "handleCompletion e c s =
     (case s_items s (cp_Key c) of
        None \<Rightarrow> s
      | Some r \<Rightarrow>
          let item = s_mem s r;
              finishedAt = (if IsZero (cp_FinishedAt c) then e_now e else cp_FinishedAt c)
          in if \<not> hi_inFlight item then s
             else if \<not> IsZero (hi_dispatchedAt item) \<and> tBefore finishedAt (hi_dispatchedAt item) then s
             else if cp_RunID c \<noteq> hi_runID item then s
             else
               let s = decrementInFlight e (hi_task item) (s\<lparr>s_inFlight := s_inFlight s - 1\<rparr>);
                   s = upd r (\<lambda>it. it\<lparr>hi_inFlight := False, hi_dispatchedAt := 0, hi_runID := 0,
                                      hi_task := (hi_task it)\<lparr>pt_RunID := 0\<rparr>\<rparr>) s
               in if hi_disabled item then deleteItem (cp_Key c) s
                  else rescheduleItem e r finishedAt s)"

subsection \<open>Health\<close>

definition queueLag :: "VolatilityClass \<Rightarrow> gotime \<Rightarrow> Scheduler \<Rightarrow> duration" where
  "queueLag volatility now s =
     (let priority = VolatilityPriority volatility
      in if priority < 0 \<or> priority \<ge> 3 \<or> s_ready s (nat priority) = [] then 0
         else
           let dues = map (\<lambda>r. hi_dueAt (s_mem s r)) (s_ready s (nat priority));
               oldestDue = foldl (\<lambda>old d. if tBefore d old then d else old) (hd dues) (tl dues)
           in if tAfter oldestDue now then 0 else tSub now oldestDue)"

definition considerItem :: "TaskKind \<Rightarrow> heapItem \<Rightarrow> gotime option \<Rightarrow> gotime option" where
  "considerItem kind item oldest =
     (if pt_Kind (normalizeTask (hi_task item)) \<noteq> kind then oldest
      else case oldest of
             None \<Rightarrow> Some (hi_dueAt item)
           | Some old \<Rightarrow> if tBefore (hi_dueAt item) old then Some (hi_dueAt item) else oldest)"

definition queueLagForKind :: "SchedEnv \<Rightarrow> TaskKind \<Rightarrow> gotime \<Rightarrow> Scheduler \<Rightarrow> duration" where
  "queueLagForKind e kind now s =
     (let oldest = fold (\<lambda>r. considerItem kind (s_mem s r)) (readyRefs s) None;
          oldest = fold (\<lambda>key oldest.
                     case s_items s key of
                       None \<Rightarrow> oldest
                     | Some r \<Rightarrow>
                         let item = s_mem s r
                         in if \<not> hi_inFlight item then oldest
                            else if hi_interval item > 0 \<and> tBefore now (tAdd (hi_dueAt item) (hi_interval item)) then oldest
                            else considerItem kind item oldest) (e_range e (s_items s)) oldest
      in case oldest of
           None \<Rightarrow> 0
         | Some old \<Rightarrow> if tAfter old now then 0 else tSub now old)"

definition queueSnapshotsLocked :: "SchedEnv \<Rightarrow> gotime \<Rightarrow> budgets \<Rightarrow> Scheduler \<Rightarrow> string \<rightharpoonup> QueueSnapshot" where
  "queueSnapshotsLocked e now budgets s =
     foldl (\<lambda>queues volatility.
       let priority = VolatilityPriority volatility;
           readyDepth = (if priority \<ge> 0 \<and> priority < 3 then int (length (s_ready s (nat priority))) else 0)
       in queues(VolatilityClass_str volatility \<mapsto>
            \<lparr>qs_ReadyDepth = readyDepth,
             qs_LagSeconds = Duration_Seconds (e_float e) (queueLag volatility now s),
             qs_ActiveWorkers = cget (s_inFlightByClass s) volatility,
             qs_ConfiguredWorkers = cget budgets volatility\<rparr>)) Map.empty scheduledVolatilityClasses"

definition pollingHealthLocked :: "SchedEnv \<Rightarrow> gotime \<Rightarrow> Scheduler \<Rightarrow> HealthSnapshot" where
  "pollingHealthLocked e now s =
     (let lag = queueLagForKind e TaskKindEssential now s;
          active = cget (s_inFlightByKind s) TaskKindEssential;
          configured = maxEssentialInFlight e s;
          budgets = classBudgets e s
      in \<lparr>hs_EssentialOverloaded = (lag > 0 \<and> active \<ge> configured),
          hs_DegradedRisk = s_degradedRisk s,
          hs_EssentialQueueLagSeconds = Duration_Seconds (e_float e) lag,
          hs_DeadlineMissTotal = s_deadlineMissTotal s,
          hs_ActiveWorkers = active,
          hs_ConfiguredWorkers = configured,
          hs_Queues = queueSnapshotsLocked e now budgets s,
          hs_Warnings = s_lastWarnings s\<rparr>)"

definition PollingHealth :: "SchedEnv \<Rightarrow> Scheduler \<Rightarrow> HealthSnapshot" where
  "PollingHealth e s = pollingHealthLocked e (e_now e) s"

subsection \<open>Lifecycle and entry points\<close>

datatype SchedulerError = ErrAlreadyStarted

definition Start :: "SchedEnv \<Rightarrow> Scheduler \<Rightarrow> SchedulerError + Scheduler" where
  "Start e s =
     (if s_started s then Inl ErrAlreadyStarted
      else Inr (refreshDevices e (e_now e)
                  (s\<lparr>s_started := True, s_runID := s_runID s + 1, s_running := True\<rparr>)))"

definition resetRuntimeState :: "Scheduler \<Rightarrow> Scheduler" where
  "resetRuntimeState s =
     s\<lparr>s_items := Map.empty, s_heap := [], s_ready := (\<lambda>_. []), s_inFlight := 0,
       s_inFlightByClass := Map.empty, s_inFlightByKind := Map.empty,
       s_inFlightByDevice := Map.empty, s_inFlightBySite := Map.empty,
       s_inFlightBySubnet := Map.empty, s_inFlightByProfile := Map.empty,
       s_essentialByDevice := Map.empty, s_essentialBySite := Map.empty,
       s_essentialBySubnet := Map.empty, s_essentialByProfile := Map.empty,
       s_deadlineMissTotal := 0, s_lastWarnings := [], s_degradedRisk := False,
       s_tasks := [], s_completions := [], s_redueRequests := []\<rparr>"

definition Stop :: "Scheduler \<Rightarrow> Scheduler" where
  "Stop s = (if \<not> s_started s then s else (resetRuntimeState (s\<lparr>s_running := False\<rparr>))\<lparr>s_started := False\<rparr>)"

definition Status :: "Scheduler \<Rightarrow> string" where
  "Status s = (if s_running s then ''running'' else ''stopped'')"

text \<open>
  A send on a channel: \<open>None\<close> when the buffer is full and the caller waits.
\<close>

definition Complete :: "Completion \<Rightarrow> Scheduler \<Rightarrow> Scheduler option" where
  "Complete c s =
     (if \<not> s_running s then Some s
      else if length (s_completions s) < s_completionsCap s
      then Some (s\<lparr>s_completions := s_completions s @ [c]\<rparr>) else None)"

definition sendRedue :: "reduePerformanceTaskRequest \<Rightarrow> Scheduler \<Rightarrow> Scheduler option" where
  "sendRedue request s =
     (if length (s_redueRequests s) < s_redueCap s
      then Some (s\<lparr>s_redueRequests := s_redueRequests s @ [request]\<rparr>) else None)"

definition ReduePerformanceTask :: "SchedEnv \<Rightarrow> Device \<Rightarrow> gotime \<Rightarrow> Scheduler \<Rightarrow> Scheduler option" where
  "ReduePerformanceTask e device changedAt s =
     (if \<not> s_running s then Some s
      else if \<not> shouldScheduleRecurringDevice device \<or> dev_DeviceType device = DeviceTypeVirtual then Some s
      else if \<not> sourceIncludesDevice e (dev_ID device) then Some s
      else sendRedue \<lparr>rq_device = device,
                      rq_changedAt = (if IsZero changedAt then e_now e else changedAt),
                      rq_taskKind = TaskKindBackground\<rparr> s)"

definition RedueEssentialTask :: "SchedEnv \<Rightarrow> Device \<Rightarrow> gotime \<Rightarrow> Scheduler \<Rightarrow> Scheduler option" where
  "RedueEssentialTask e device changedAt s =
     (if \<not> s_running s then Some s
      else if \<not> shouldScheduleRecurringDevice device \<or> dev_DeviceType device = DeviceTypeVirtual then Some s
      else if \<not> sourceIncludesDevice e (dev_ID device) then Some s
      else sendRedue \<lparr>rq_device = device,
                      rq_changedAt = (if IsZero changedAt then e_now e else changedAt),
                      rq_taskKind = TaskKindEssential\<rparr> s)"

text \<open>\<open>ScheduleBootstrap\<close> never waits: a full buffer is counted and reported as \<open>False\<close>.\<close>

definition ScheduleBootstrap :: "SchedEnv \<Rightarrow> Device \<Rightarrow> gotime \<Rightarrow> Scheduler \<Rightarrow> bool \<times> Scheduler" where
  "ScheduleBootstrap e device dueAt s =
     (if \<not> s_running s then (False, s)
      else if \<not> shouldScheduleBootstrapTask device then (False, s)
      else if \<not> sourceIncludesDevice e (dev_ID device) then (False, s)
      else case sendRedue \<lparr>rq_device = device, rq_changedAt = (if IsZero dueAt then e_now e else dueAt),
                            rq_taskKind = TaskKindBackground\<rparr> s of
             Some s \<Rightarrow> (True, s)
           | None \<Rightarrow> (False, IncSchedulerBackpressure VolatilityClassStatic ''bootstrap_queue_full'' s))"

definition ReconcileDeviceTasks :: "SchedEnv \<Rightarrow> Device \<Rightarrow> gotime \<Rightarrow> Scheduler \<Rightarrow> Scheduler" where
  "ReconcileDeviceTasks e device changedAt s =
     (let changedAt = (if IsZero changedAt then e_now e else changedAt);
          s = removeDeviceTasksLocked e (dev_ID device) s
      in if sourceIncludesDevice e (dev_ID device) \<and> shouldScheduleRecurringDevice device
         then scheduleRecurringDeviceLocked e device changedAt s else s)"

text \<open>
  The body of \<open>run\<close>: a cycle moves due work, dispatches, and computes the delay of the timer;
  then one event is taken from the ticker or a channel.
\<close>

definition runCycle :: "SchedEnv \<Rightarrow> (nat \<Rightarrow> bool) \<Rightarrow> Scheduler \<Rightarrow> StopReason \<times> Scheduler \<times> duration" where
  "runCycle e ctxDone s =
     (let now = e_now e;
          s = moveDueTasksToReady e now s;
          (reason, s) = dispatchReady e ctxDone now s
      in (reason, s, nextWakeDelay now s))"

datatype RunEvent = RefreshTick | RedueReceived | CompletionReceived | TimerFired

definition handleEvent :: "SchedEnv \<Rightarrow> RunEvent \<Rightarrow> Scheduler \<Rightarrow> Scheduler" where
  "handleEvent e ev s =
     (case ev of
        TimerFired \<Rightarrow> s
      | RefreshTick \<Rightarrow> refreshDevices e (e_now e) s
      | RedueReceived \<Rightarrow>
          (case s_redueRequests s of
             [] \<Rightarrow> s
           | request # rest \<Rightarrow>
               let s = s\<lparr>s_redueRequests := rest\<rparr>
               in if rq_taskKind request = TaskKindEssential then handleRedueEssentialTask e request s
                  else handleReduePerformanceTask e request s)
      | CompletionReceived \<Rightarrow>
          (case s_completions s of
             [] \<Rightarrow> s
           | c # rest \<Rightarrow> handleCompletion e c (s\<lparr>s_completions := rest\<rparr>)))"

end
