(* ===== verification/Scheduler_Inv.thy ===== *)
theory Scheduler_Inv
  imports Scheduler_Ops
begin

text \<open>
  The invariant of the scheduler. Every scheduled item is in exactly one place: the due-time
  heap, one ready queue, or in flight (\<open>places\<close>), except the items of the set \<open>L\<close>, which the
  running handler holds; its task agrees with its key (\<open>task_ok\<close>), its position and queue flags
  are accurate, the heap is ordered, and the in-flight counters count the items in flight
  (\<open>count_inv\<close>). The lemmas say how each primitive step of the handlers moves an item between
  places.
\<close>

subsection \<open>The invariant\<close>

definition key_ok :: "TaskKey \<Rightarrow> bool" where
  "key_ok k \<longleftrightarrow>
     (case tk_Kind k of
        TaskKindEssential \<Rightarrow> tk_VolatilityClass k = VolatilityClassNone
      | TaskKindBootstrap \<Rightarrow> tk_VolatilityClass k = VolatilityClassNone
      | TaskKindBackground \<Rightarrow> tk_VolatilityClass k \<noteq> VolatilityClassNone
      | TaskKindNone \<Rightarrow> False)"

definition key_lane :: "TaskKey \<Rightarrow> Lane" where
  "key_lane k =
     (case tk_Kind k of TaskKindEssential \<Rightarrow> LaneEssential | TaskKindBootstrap \<Rightarrow> LaneBootstrap
      | _ \<Rightarrow> LaneBackground)"

definition key_class :: "TaskKey \<Rightarrow> VolatilityClass" where
  "key_class k = (if tk_Kind k = TaskKindBootstrap then VolatilityClassStatic else tk_VolatilityClass k)"

definition task_ok :: "TaskKey \<Rightarrow> PollTask \<Rightarrow> bool" where
  "task_ok k t \<longleftrightarrow> key_ok k \<and> pt_Key t = k \<and> pt_Kind t = tk_Kind k \<and> pt_Lane t = key_lane k \<and>
     pt_VolatilityClass t = key_class k \<and> dev_ID (pt_Device t) = tk_DeviceID k"

definition places :: "Scheduler \<Rightarrow> ref \<Rightarrow> nat" where
  "places s r = (if r \<in> set (s_heap s) then 1 else 0) + (if hi_queued (s_mem s r) then 1 else 0) +
     (if hi_inFlight (s_mem s r) then 1 else 0)"

definition item_inv :: "ref set \<Rightarrow> Scheduler \<Rightarrow> TaskKey \<Rightarrow> ref \<Rightarrow> bool" where
  "item_inv L s k r \<longleftrightarrow> r < s_next s \<and> task_ok k (hi_task (s_mem s r)) \<and>
     (hi_queued (s_mem s r) \<longleftrightarrow> r \<in> set (readyRefs s)) \<and>
     (r \<notin> set (s_heap s) \<longrightarrow> hi_index (s_mem s r) = -1) \<and>
     places s r = (if r \<in> L then 0 else 1)"

definition place_inv :: "(uuid \<Rightarrow> string) \<Rightarrow> ref set \<Rightarrow> Scheduler \<Rightarrow> bool" where
  "place_inv us L s \<longleftrightarrow> finite (dom (s_items s)) \<and>
     (\<forall>k r. s_items s k = Some r \<longrightarrow> item_inv L s k r) \<and>
     heap_wf us (s_mem s, s_heap s) \<and> distinct (readyRefs s) \<and>
     set (s_heap s) \<union> set (readyRefs s) \<union> L \<subseteq> ran (s_items s) \<and>
     (\<forall>p r. r \<in> set (s_ready s p) \<longrightarrow> p < 3 \<and> readyIndex (hi_task (s_mem s r)) = p)"

definition flying :: "Scheduler \<Rightarrow> TaskKey set" where
  "flying s = {k. \<exists>r. s_items s k = Some r \<and> hi_inFlight (s_mem s r)}"

definition essential_key :: "TaskKey \<Rightarrow> bool" where
  "essential_key k \<longleftrightarrow> tk_Kind k = TaskKindEssential"

text \<open>The counters per site, subnet and profile follow device records that may change meanwhile.\<close>

definition scopes_nonneg :: "Scheduler \<Rightarrow> bool" where
  "scopes_nonneg s \<longleftrightarrow>
     (\<forall>x. 0 \<le> cget (s_essentialBySite s) x \<and> 0 \<le> cget (s_essentialBySubnet s) x \<and> 0 \<le> cget (s_essentialByProfile s) x)"

definition count_inv :: "(uuid \<Rightarrow> string) \<Rightarrow> Scheduler \<Rightarrow> bool" where
  "count_inv us s \<longleftrightarrow>
     s_inFlight s = int (card (flying s)) \<and>
     cget (s_inFlightByKind s) TaskKindEssential = int (card {k \<in> flying s. essential_key k}) \<and>
     (\<forall>v. cget (s_inFlightByClass s) v = int (card {k \<in> flying s. \<not> essential_key k \<and> key_class k = v})) \<and>
     (\<forall>d. d \<noteq> [] \<longrightarrow> cget (s_inFlightByDevice s) d = int (card {k \<in> flying s. us (tk_DeviceID k) = d}) \<and>
        cget (s_essentialByDevice s) d = int (card {k \<in> flying s. essential_key k \<and> us (tk_DeviceID k) = d})) \<and>
     scopes_nonneg s"

definition sched_inv :: "(uuid \<Rightarrow> string) \<Rightarrow> ref set \<Rightarrow> Scheduler \<Rightarrow> bool" where
  "sched_inv us L s \<longleftrightarrow> place_inv us L s \<and> count_inv us s"

text \<open>The fields the counters read.\<close>

definition same_counts :: "Scheduler \<Rightarrow> Scheduler \<Rightarrow> bool" where
  "same_counts s t \<longleftrightarrow> s_inFlight t = s_inFlight s \<and> s_inFlightByKind t = s_inFlightByKind s \<and>
     s_inFlightByClass t = s_inFlightByClass s \<and> s_inFlightByDevice t = s_inFlightByDevice s \<and>
     s_essentialByDevice t = s_essentialByDevice s \<and>
     s_inFlightBySite t = s_inFlightBySite s \<and> s_essentialBySite t = s_essentialBySite s \<and>
     s_inFlightBySubnet t = s_inFlightBySubnet s \<and> s_essentialBySubnet t = s_essentialBySubnet s \<and>
     s_inFlightByProfile t = s_inFlightByProfile s \<and> s_essentialByProfile t = s_essentialByProfile s"

text \<open>Entering a ready queue, at either end.\<close>

definition enter_ready :: "ref \<Rightarrow> nat \<Rightarrow> ref list \<Rightarrow> ref list \<Rightarrow> Scheduler \<Rightarrow> Scheduler \<Rightarrow> bool" where
  "enter_ready r p as bs s t \<longleftrightarrow> s_ready s p = as @ bs \<and> s_ready t = (s_ready s)(p := as @ r # bs)"

subsection \<open>Tasks\<close>

lemma normalize_ok [simp]: "task_ok k t \<Longrightarrow> normalizeTask t = t"
  by (auto simp: task_ok_def key_ok_def key_lane_def key_class_def normalizeTask_def Let_def
      split: TaskKind.splits)

lemma task_ok_heapPriority: "task_ok k t \<Longrightarrow> task_ok k t' \<Longrightarrow> heapPriority t' = heapPriority t"
  by (auto simp: heapPriority_def Let_def) (auto simp: task_ok_def)

lemma task_ok_readyIndex: "task_ok k t \<Longrightarrow> task_ok k t' \<Longrightarrow> readyIndex t' = readyIndex t"
  by (auto simp: readyIndex_def readyPriority_def Let_def) (auto simp: task_ok_def)

lemma readyIndex_less: "readyIndex t < 3"
  by (auto simp: readyIndex_def Let_def)

lemma task_ok_Key: "task_ok k t \<Longrightarrow> pt_Key t = k"
  by (simp add: task_ok_def)

lemma task_ok_upd [simp]:
  "task_ok k (t\<lparr>pt_DueAt := a\<rparr>) = task_ok k t" "task_ok k (t\<lparr>pt_DeadlineAt := a\<rparr>) = task_ok k t"
  "task_ok k (t\<lparr>pt_RunID := w\<rparr>) = task_ok k t" "task_ok k (t\<lparr>pt_QueueLag := a\<rparr>) = task_ok k t"
  "task_ok k (t\<lparr>pt_DeadlineMissed := b\<rparr>) = task_ok k t"
  "task_ok k (t\<lparr>pt_SkippedWindows := a\<rparr>) = task_ok k t"
  by (simp_all add: task_ok_def)

subsection \<open>Items up to their position\<close>

lemma same_item:
  assumes "a\<lparr>hi_index := 0\<rparr> = b\<lparr>hi_index := (0::int)\<rparr>"
  shows "hi_task a = hi_task b" "hi_dueAt a = hi_dueAt b" "hi_dispatchedAt a = hi_dispatchedAt b"
    "hi_runID a = hi_runID b" "hi_interval a = hi_interval b" "hi_queued a = hi_queued b"
    "hi_inFlight a = hi_inFlight b" "hi_pending a = hi_pending b"
    "hi_immediateRerun a = hi_immediateRerun b" "hi_disabled a = hi_disabled b"
    "hi_skippedWindows a = hi_skippedWindows b"
  using assms by (cases a; cases b; simp)+

lemma shapeD:
  assumes "shape m S st"
  shows "indexed st" "set (snd st) = S" "(fst st x)\<lparr>hi_index := 0\<rparr> = (m x)\<lparr>hi_index := 0\<rparr>"
    "x \<notin> S \<Longrightarrow> fst st x = m x"
  using assms by (auto simp: shape_def)

lemma flying_cong:
  assumes "s_items t = s_items s"
    and "\<And>k r. s_items s k = Some r \<Longrightarrow> hi_inFlight (s_mem t r) = hi_inFlight (s_mem s r)"
  shows "flying t = flying s"
  using assms by (auto simp: flying_def)

lemma flying_finite: "place_inv us L s \<Longrightarrow> finite (flying s)"
  by (rule finite_subset [of _ "dom (s_items s)"]) (auto simp: flying_def place_inv_def)

lemma item_inj:
  assumes "place_inv us L s" "s_items s k = Some r" "s_items s k' = Some r"
  shows "k' = k"
  using assms by (metis place_inv_def item_inv_def task_ok_Key)

lemma count_inv_cong: "count_inv us s \<Longrightarrow> same_counts s t \<Longrightarrow> flying t = flying s \<Longrightarrow> count_inv us t"
  by (simp add: count_inv_def same_counts_def scopes_nonneg_def)

lemma item_invD:
  assumes "place_inv us L s" and "s_items s k = Some r"
  shows "r < s_next s" "task_ok k (hi_task (s_mem s r))" "hi_queued (s_mem s r) \<longleftrightarrow> r \<in> set (readyRefs s)"
    "r \<notin> set (s_heap s) \<Longrightarrow> hi_index (s_mem s r) = -1" "places s r = (if r \<in> L then 0 else 1)"
  using assms by (auto simp: place_inv_def item_inv_def)

lemma less_three: "(p::nat) < 3 \<longleftrightarrow> p = 0 \<or> p = 1 \<or> p = 2"
  by auto

lemma ready_in_refs: "place_inv us L s \<Longrightarrow> x \<in> set (s_ready s q) \<Longrightarrow> x \<in> set (readyRefs s)"
  unfolding place_inv_def readyRefs_def less_three by fastforce

lemma ran_itemD: "r \<in> ran (s_items s) \<Longrightarrow> \<exists>k. s_items s k = Some r"
  by (auto simp: ran_def)

lemma readyRefs_frame [simp]:
  "readyRefs (upd r f s) = readyRefs s" "readyRefs (setStore st s) = readyRefs s"
  "readyRefs (deleteItem k s) = readyRefs s" "readyRefs (putItem k r s) = readyRefs s"
  by (auto intro!: readyRefs_cong simp: setStore_def deleteItem_def putItem_def)

subsection \<open>Changing the payload of an item\<close>

lemma payload_place:
  assumes inv: "place_inv us L s" and k: "s_items s k = Some r"
    and ok: "task_ok k (hi_task (f (s_mem s r)))"
    and same: "hi_queued (f (s_mem s r)) = hi_queued (s_mem s r)"
      "hi_inFlight (f (s_mem s r)) = hi_inFlight (s_mem s r)"
      "hi_index (f (s_mem s r)) = hi_index (s_mem s r)"
    and due: "r \<in> set (s_heap s) \<Longrightarrow> hi_dueAt (f (s_mem s r)) = hi_dueAt (s_mem s r)"
  shows "place_inv us L (upd r f s)"
proof -
  let ?t = "upd r f s"
  note D = item_invD [OF inv k]
  have key: "taskHeap_key us (s_mem ?t, s_heap s) x = taskHeap_key us (s_mem s, s_heap s) x"
    if "x \<in> set (s_heap s)" for x
    using that due task_ok_heapPriority [OF D(2) ok] task_ok_Key [OF D(2)] task_ok_Key [OF ok]
    by (auto simp: taskHeap_key_def Let_def)
  have "heap_wf us (s_mem ?t, s_heap s)"
    by (rule heap_wf_cong [of us "s_mem s"]) (use inv same(3) key in \<open>auto simp: place_inv_def\<close>)
  moreover have "item_inv L ?t j x" if "s_items s j = Some x" for j x
  proof -
    have "places ?t x = places s x" "readyRefs ?t = readyRefs s"
      using same by (auto simp: places_def intro: readyRefs_cong)
    moreover have "x = r \<Longrightarrow> j = k" using that item_inj [OF inv k] by auto
    ultimately show ?thesis using item_invD [OF inv that] ok same by (cases "x = r") (auto simp: item_inv_def)
  qed
  moreover have "readyIndex (hi_task (s_mem ?t x)) = readyIndex (hi_task (s_mem s x))" for x
    using task_ok_readyIndex [OF D(2) ok] by simp
  ultimately show ?thesis using inv by (simp add: place_inv_def)
qed

lemma payload_inv:
  assumes "sched_inv us L s" and "s_items s k = Some r"
    and "task_ok k (hi_task (f (s_mem s r)))"
    and "hi_queued (f (s_mem s r)) = hi_queued (s_mem s r)"
    and "hi_inFlight (f (s_mem s r)) = hi_inFlight (s_mem s r)"
    and "hi_index (f (s_mem s r)) = hi_index (s_mem s r)"
    and "r \<in> set (s_heap s) \<Longrightarrow> hi_dueAt (f (s_mem s r)) = hi_dueAt (s_mem s r)"
  shows "sched_inv us L (upd r f s)"
  using assms payload_place [of us L s k r f] count_inv_cong [of us s "upd r f s"]
    flying_cong [of "upd r f s" s]
  by (simp add: sched_inv_def same_counts_def)

subsection \<open>The heap\<close>

lemma setStore_simps [simp]:
  "s_mem (setStore st s) = fst st" "s_heap (setStore st s) = snd st" "s_items (setStore st s) = s_items s"
  "s_ready (setStore st s) = s_ready s" "s_next (setStore st s) = s_next s"
  "s_tasks (setStore st s) = s_tasks s" "s_tasksCap (setStore st s) = s_tasksCap s"
  "s_completions (setStore st s) = s_completions s" "s_completionsCap (setStore st s) = s_completionsCap s"
  "s_runID (setStore st s) = s_runID s"
  "same_counts s (setStore st s)"
  by (simp_all add: setStore_def same_counts_def)

lemma store_place:
  assumes inv: "place_inv us L s" and wf: "heap_wf us st"
    and same: "\<And>x. (fst st x)\<lparr>hi_index := 0\<rparr> = (s_mem s x)\<lparr>hi_index := 0\<rparr>"
    and idx: "\<And>k x. s_items s k = Some x \<Longrightarrow> x \<notin> set (snd st) \<Longrightarrow> hi_index (fst st x) = -1"
    and sub: "set (snd st) \<union> L' \<subseteq> ran (s_items s)"
    and pl: "\<And>k x. s_items s k = Some x \<Longrightarrow>
      (x \<in> set (snd st)) = (if x \<in> L' then False else x \<in> set (s_heap s) \<or> x \<in> L) \<and>
      (x \<in> L' \<longrightarrow> x \<in> L \<or> x \<in> set (s_heap s))"
  shows "place_inv us L' (setStore st s)"
proof -
  note F = same_item [OF same]
  have "item_inv L' (setStore st s) k x" if k: "s_items s k = Some x" for k x
  proof -
    note D = item_invD [OF inv k]
    have "(if x \<in> set (snd st) then 1 else 0) + (if hi_queued (s_mem s x) then 1 else 0) +
          (if hi_inFlight (s_mem s x) then 1 else 0) = (if x \<in> L' then 0 else 1 :: nat)"
      using D(5) pl [OF k] by (auto simp: places_def split: if_splits)
    then show ?thesis using D idx [OF k] by (simp add: item_inv_def places_def F)
  qed
  then show ?thesis using inv wf sub by (simp add: place_inv_def F)
qed

lemma store_inv:
  assumes "sched_inv us L s" and "heap_wf us st"
    and same: "\<And>x. (fst st x)\<lparr>hi_index := 0\<rparr> = (s_mem s x)\<lparr>hi_index := 0\<rparr>"
    and "\<And>k x. s_items s k = Some x \<Longrightarrow> x \<notin> set (snd st) \<Longrightarrow> hi_index (fst st x) = -1"
    and "set (snd st) \<union> L' \<subseteq> ran (s_items s)"
    and "\<And>k x. s_items s k = Some x \<Longrightarrow>
      (x \<in> set (snd st)) = (if x \<in> L' then False else x \<in> set (s_heap s) \<or> x \<in> L) \<and>
      (x \<in> L' \<longrightarrow> x \<in> L \<or> x \<in> set (s_heap s))"
  shows "sched_inv us L' (setStore st s)"
proof -
  have "flying (setStore st s) = flying s"
    by (rule flying_cong) (simp_all add: same_item(7) [OF same])
  then show ?thesis
    using assms store_place [of us L s st L'] count_inv_cong [of us s "setStore st s"]
    by (simp add: sched_inv_def)
qed

lemma pushHeap_inv:
  assumes inv: "sched_inv us L s" and r: "r \<in> L"
  shows "sched_inv us (L - {r}) (pushHeap us r s)"
proof -
  let ?st = "(s_mem s, s_heap s)"
  have p: "place_inv us L s" using inv by (simp add: sched_inv_def)
  obtain k where k: "s_items s k = Some r" using p r by (auto simp: place_inv_def ran_def)
  have nh: "r \<notin> set (s_heap s)" using item_invD(5) [OF p k] r by (auto simp: places_def split: if_splits)
  have wf: "heap_wf us ?st" using p by (simp add: place_inv_def)
  note W = heapPush_wf [OF wf, of r]
  have sh: "shape (s_mem s) (insert r (set (s_heap s))) (heapPush us r ?st)" using W(2) nh by simp
  show ?thesis
    unfolding pushHeap_def
  proof (rule store_inv [OF inv])
    show "heap_wf us (heapPush us r ?st)" using W(1) nh by simp
    show "set (snd (heapPush us r ?st)) \<union> (L - {r}) \<subseteq> ran (s_items s)"
      using sh p r by (auto simp: shape_def place_inv_def)
    show "hi_index (fst (heapPush us r ?st) x) = - 1" if "s_items s j = Some x" "x \<notin> set (snd (heapPush us r ?st))" for j x
      using that sh item_invD(4) [OF p that(1)] by (auto simp: shape_def)
    show "(x \<in> set (snd (heapPush us r ?st))) = (if x \<in> L - {r} then False else x \<in> set (s_heap s) \<or> x \<in> L) \<and>
        (x \<in> L - {r} \<longrightarrow> x \<in> L \<or> x \<in> set (s_heap s))" if "s_items s j = Some x" for j x
      using sh r item_invD(5) [OF p that] by (auto simp: shape_def places_def split: if_splits)
  qed (use sh in \<open>simp add: shape_def\<close>)
qed

subsection \<open>Leaving and re-ordering the heap\<close>

lemma removed_inv:
  assumes inv: "sched_inv us L s" and k: "s_items s k = Some r" and h: "r \<in> set (s_heap s)"
    and wf: "heap_wf us st" and rm: "removed (s_mem s, s_heap s) r st"
  shows "sched_inv us (insert r L) (setStore st s)"
proof (rule store_inv [OF inv wf])
  have p: "place_inv us L s" using inv by (simp add: sched_inv_def)
  note R = rm [unfolded removed_def, simplified]
  show "(fst st x)\<lparr>hi_index := 0\<rparr> = (s_mem s x)\<lparr>hi_index := 0\<rparr>" for x using R by simp
  show "set (snd st) \<union> insert r L \<subseteq> ran (s_items s)"
    using R p k by (auto simp: place_inv_def intro: ranI)
  show "hi_index (fst st x) = - 1" if "s_items s j = Some x" "x \<notin> set (snd st)" for j x
  proof (cases "x = r")
    case False
    then have "x \<notin> set (s_heap s)" using that R by auto
    then show ?thesis using R item_invD(4) [OF p that(1)] by simp
  qed (use R in simp)
  show "(x \<in> set (snd st)) = (if x \<in> insert r L then False else x \<in> set (s_heap s) \<or> x \<in> L) \<and>
      (x \<in> insert r L \<longrightarrow> x \<in> L \<or> x \<in> set (s_heap s))" if "s_items s j = Some x" for j x
    using R h item_invD(5) [OF p that] by (auto simp: places_def split: if_splits)
qed

lemma index_of_item:
  assumes "heap_wf us (m, h)" and "r \<in> set h"
  shows "0 \<le> hi_index (m r)" "nat (hi_index (m r)) < length h" "h ! nat (hi_index (m r)) = r"
  using assms by (auto simp: heap_wf_def indexed_def in_set_conv_nth)

lemma in_heap_iff:
  assumes "place_inv us L s" and "s_items s k = Some r"
  shows "0 \<le> hi_index (s_mem s r) \<longleftrightarrow> r \<in> set (s_heap s)"
proof (cases "r \<in> set (s_heap s)")
  case True
  then show ?thesis using index_of_item(1) [of us "s_mem s" "s_heap s" r] assms(1) by (simp add: place_inv_def)
qed (use item_invD(4) [OF assms] in simp)

lemma removeHeap_inv:
  assumes inv: "sched_inv us L s" and k: "s_items s k = Some r" and h: "r \<in> set (s_heap s)"
  shows "sched_inv us (insert r L) (removeHeap us (hi_index (s_mem s r)) s)"
    and "s_mem (removeHeap us (hi_index (s_mem s r)) s) r = (s_mem s r)\<lparr>hi_index := -1\<rparr>"
proof -
  have wf: "heap_wf us (s_mem s, s_heap s)" using inv by (simp add: sched_inv_def place_inv_def)
  note ix = index_of_item [OF wf h]
  note W = heapRemove_wf [OF wf, simplified, OF ix(2), unfolded ix(3)]
  show "sched_inv us (insert r L) (removeHeap us (hi_index (s_mem s r)) s)"
    unfolding removeHeap_def by (rule removed_inv [OF inv k h W(2,3)])
  show "s_mem (removeHeap us (hi_index (s_mem s r)) s) r = (s_mem s r)\<lparr>hi_index := -1\<rparr>"
    using W(3) by (simp add: removeHeap_def removed_def)
qed

lemma popHeap_inv:
  assumes inv: "sched_inv us L s" and ne: "s_heap s \<noteq> []" and pop: "popHeap us s = (r, s')"
  shows "r = s_heap s ! 0" and "sched_inv us (insert r L) s'" and "s_items s' = s_items s"
    and "\<exists>k. s_items s k = Some r" and "s_mem s' r = (s_mem s r)\<lparr>hi_index := -1\<rparr>"
proof -
  have p: "place_inv us L s" and wf: "heap_wf us (s_mem s, s_heap s)"
    using inv by (auto simp: sched_inv_def place_inv_def)
  note W = heapPop_wf [OF wf, simplified, OF ne]
  show r: "r = s_heap s ! 0" using pop W(1) by (simp add: popHeap_def Let_def)
  then have h: "r \<in> set (s_heap s)" using ne by simp
  then show k: "\<exists>k. s_items s k = Some r" using p by (auto simp: place_inv_def ran_def)
  have s': "s' = setStore (snd (heapPop us (s_mem s, s_heap s))) s" using pop by (simp add: popHeap_def Let_def)
  then show "s_items s' = s_items s" by simp
  show "sched_inv us (insert r L) s'" using removed_inv [OF inv _ h W(2)] W(3) r k s' by auto
  show "s_mem s' r = (s_mem s r)\<lparr>hi_index := -1\<rparr>" using W(3) r by (simp add: s' removed_def)
qed

text \<open>A new due time of an item in the heap, followed by \<open>heap.Fix\<close>.\<close>

lemma fixHeap_inv:
  assumes inv: "sched_inv us L s" and k: "s_items s k = Some r" and h: "r \<in> set (s_heap s)"
    and ok: "task_ok k (hi_task (f (s_mem s r)))"
    and same: "hi_queued (f (s_mem s r)) = hi_queued (s_mem s r)"
      "hi_inFlight (f (s_mem s r)) = hi_inFlight (s_mem s r)"
      "hi_index (f (s_mem s r)) = hi_index (s_mem s r)"
  shows "sched_inv us L (fixHeap us (hi_index (s_mem (upd r f s) r)) (upd r f s))"
proof -
  let ?t = "upd r f s"
  have p: "place_inv us L s" and wf: "heap_wf us (s_mem s, s_heap s)"
    using inv by (auto simp: sched_inv_def place_inv_def)
  note ix = index_of_item [OF wf h]
  define st where "st = heapFix us (nat (hi_index (s_mem s r))) (s_mem ?t, s_heap s)"
  have W: "heap_wf us st" "shape (s_mem ?t) (set (s_heap s)) st"
    using heapFix_wf [OF wf, of "nat (hi_index (s_mem s r))" r "(s_mem ?t, s_heap s)" "f (s_mem s r)"] ix same(3)
    by (simp_all add: st_def upd_def)
  have F: "(fst st x)\<lparr>hi_index := 0\<rparr> = (s_mem ?t x)\<lparr>hi_index := 0\<rparr>" for x by (rule shapeD(3) [OF W(2)])
  note F = same_item [OF F]
  have sst: "set (snd st) = set (s_heap s)" by (rule shapeD(2) [OF W(2)])
  have out: "fst st x = s_mem ?t x" if "x \<notin> set (s_heap s)" for x by (rule shapeD(4) [OF W(2) that])
  have pl: "place_inv us L (setStore st ?t)"
  proof -
    have "item_inv L (setStore st ?t) j x" if j: "s_items s j = Some x" for j x
    proof -
      note D = item_invD [OF p j]
      have "places (setStore st ?t) x = places s x"
        using same by (simp add: places_def F sst)
      moreover have "task_ok j (hi_task (s_mem ?t x))" using j item_inj [OF p k] D(2) ok by auto
      moreover have "x \<notin> set (s_heap s) \<Longrightarrow> hi_index (fst st x) = -1"
        using out [of x] h D(4) by auto
      moreover have "hi_queued (s_mem ?t x) = hi_queued (s_mem s x)" using same by simp
      ultimately show ?thesis using D(1,3,5) by (auto simp only: item_inv_def F sst setStore_simps upd_frame readyRefs_frame)
    qed
    moreover have "readyIndex (hi_task (fst st x)) = readyIndex (hi_task (s_mem s x))" for x
      using task_ok_readyIndex [OF item_invD(2) [OF p k] ok] by (simp add: F)
    ultimately show ?thesis using p W(1) by (simp add: place_inv_def sst)
  qed
  have "flying (setStore st ?t) = flying s" by (rule flying_cong) (use same in \<open>simp_all add: F\<close>)
  then have "count_inv us (setStore st ?t)"
    using inv count_inv_cong [of us s "setStore st ?t"]
    by (simp add: sched_inv_def same_counts_def setStore_def)
  moreover have "fixHeap us (hi_index (s_mem ?t r)) ?t = setStore st ?t"
    by (simp add: fixHeap_def st_def same)
  ultimately show ?thesis using pl by (simp add: sched_inv_def)
qed

subsection \<open>The ready queues\<close>

lemma enter_ready_refs:
  assumes "enter_ready r p as bs s t" and "p < 3"
  shows "mset (readyRefs t) = add_mset r (mset (readyRefs s))"
  using assms by (auto simp: enter_ready_def readyRefs_def less_Suc_eq numeral_3_eq_3)

lemma enter_inv:
  assumes inv: "sched_inv us L s" and k: "s_items s k = Some r" and r: "r \<in> L"
    and t: "t = (upd r f s)\<lparr>s_ready := q\<rparr>"
    and f: "hi_queued (f (s_mem s r))" "hi_inFlight (f (s_mem s r)) = hi_inFlight (s_mem s r)"
      "hi_index (f (s_mem s r)) = hi_index (s_mem s r)" "task_ok k (hi_task (f (s_mem s r)))"
    and e: "enter_ready r (readyIndex (hi_task (s_mem s r))) as bs s t"
  shows "sched_inv us (L - {r}) t"
proof -
  let ?p = "readyIndex (hi_task (s_mem s r))"
  have p: "place_inv us L s" using inv by (simp add: sched_inv_def)
  note D = item_invD [OF p k]
  have out: "r \<notin> set (s_heap s)" "\<not> hi_queued (s_mem s r)" "\<not> hi_inFlight (s_mem s r)"
    using D(5) r by (auto simp: places_def split: if_splits)
  have refs: "mset (readyRefs t) = add_mset r (mset (readyRefs s))"
    by (rule enter_ready_refs [OF e readyIndex_less])
  then have sr: "set (readyRefs t) = insert r (set (readyRefs s))"
    by (metis set_mset_add_mset_insert set_mset_mset)
  have "distinct (readyRefs s)" "r \<notin> set (readyRefs s)" using p D(3) out by (simp_all add: place_inv_def)
  then have dt: "distinct (readyRefs t)"
    using refs by (metis distinct.simps(2) mset.simps(2) mset_eq_imp_distinct_iff)
  have mem: "x \<in> set (s_ready t q) \<longleftrightarrow> x \<in> set (s_ready s q) \<or> (x = r \<and> q = ?p)" for x q
    using e by (auto simp: enter_ready_def)
  have fr: "s_items t = s_items s" "s_heap t = s_heap s" "s_next t = s_next s"
      "\<And>x. s_mem t x = (if x = r then f (s_mem s r) else s_mem s x)" by (simp_all add: t)
  have "item_inv (L - {r}) t j x" if j: "s_items s j = Some x" for j x
  proof (cases "x = r")
    case True
    then have "j = k" using j item_inj [OF p k] by auto
    then show ?thesis using True D(1,4) f out sr by (simp add: item_inv_def fr places_def)
  next
    case False
    then show ?thesis using item_invD [OF p j] sr by (simp add: item_inv_def fr places_def)
  qed
  moreover have "heap_wf us (s_mem t, s_heap s)"
    by (rule heap_wf_cong [of us "s_mem s"]) (use p out fr in \<open>auto simp: place_inv_def taskHeap_key_def\<close>)
  moreover have "q < 3 \<and> readyIndex (hi_task (s_mem t x)) = q" if x: "x \<in> set (s_ready t q)" for q x
  proof (cases "x = r")
    case True
    have "r \<notin> set (s_ready s q)" using ready_in_refs [OF p] \<open>r \<notin> set (readyRefs s)\<close> by blast
    then show ?thesis using x True mem readyIndex_less task_ok_readyIndex [OF D(2) f(4)] by (simp add: fr)
  next
    case False
    then show ?thesis using x mem p by (simp add: fr place_inv_def)
  qed
  ultimately have "place_inv us (L - {r}) t"
    using p dt sr ranI [of "s_items s" k r] k by (auto simp: place_inv_def fr)
  moreover have "flying t = flying s" by (rule flying_cong) (use f fr in auto)
  then have "count_inv us t"
    using inv count_inv_cong [of us s t] by (simp add: sched_inv_def same_counts_def t)
  ultimately show ?thesis by (simp add: sched_inv_def)
qed

end
