(* ===== verification/Scheduler_Moves.thy ===== *)
theory Scheduler_Moves
  imports Scheduler_Inv
begin

text \<open>
  How the small operations of the scheduler move one item between its places: into and out of a
  ready queue, into flight and back, and in and out of the item map. Each lemma keeps the
  invariant of \<open>Scheduler_Inv\<close>, with the set of items the running handler holds changed to match.
\<close>

lemma upd_id: "f (s_mem s r) = s_mem s r \<Longrightarrow> upd r f s = s"
  by (simp add: upd_def)

lemma upd_upd: "upd r f (upd r g s) = upd r (\<lambda>it. f (g it)) s"
  by (simp add: upd_def)

lemma place_of: "sched_inv us L s \<Longrightarrow> place_inv us L s"
  by (simp add: sched_inv_def)

lemma limbo_item:
  assumes "sched_inv us L s" and "r \<in> L"
  shows "\<exists>k. s_items s k = Some r" and "r \<notin> set (s_heap s)" and "\<not> hi_queued (s_mem s r)"
    and "\<not> hi_inFlight (s_mem s r)" and "hi_index (s_mem s r) = -1"
proof -
  have p: "place_inv us L s" using assms(1) by (rule place_of)
  show "\<exists>k. s_items s k = Some r" using p assms(2) by (auto simp: place_inv_def ran_def)
  then obtain k where k: "s_items s k = Some r" by auto
  show "r \<notin> set (s_heap s)" "\<not> hi_queued (s_mem s r)" "\<not> hi_inFlight (s_mem s r)"
    using item_invD(5) [OF p k] assms(2) by (auto simp: places_def split: if_splits)
  then show "hi_index (s_mem s r) = -1" using item_invD(4) [OF p k] by simp
qed

lemma enqueueReady_inv:
  assumes inv: "sched_inv us L s" and r: "r \<in> L"
  shows "sched_inv us (L - {r}) (enqueueReady r s)"
proof -
  obtain k where k: "s_items s k = Some r" using limbo_item(1) [OF assms] by auto
  note ok = item_invD(2) [OF place_of [OF inv] k]
  let ?f = "\<lambda>it. it\<lparr>hi_queued := True, hi_task := (normalizeTask (hi_task it))\<lparr>pt_DueAt := hi_dueAt it\<rparr>\<rparr>"
  let ?p = "readyIndex (hi_task (s_mem s r))"
  have e: "enqueueReady r s = (upd r ?f s)\<lparr>s_ready := (s_ready s)(?p := s_ready s ?p @ [r])\<rparr>"
    using limbo_item(3) [OF assms] ok by (simp add: enqueueReady_def Let_def upd_upd normalize_ok [OF ok])
  show ?thesis
    by (rule enter_inv [OF inv k r e, where as = "s_ready s ?p" and bs = "[]"])
      (use ok in \<open>simp_all add: normalize_ok [OF ok] e enter_ready_def\<close>)
qed

lemma pushReadyFront_inv:
  assumes inv: "sched_inv us L s" and r: "r \<in> L"
  shows "sched_inv us (L - {r}) (pushReadyFront r s)"
proof -
  obtain k where k: "s_items s k = Some r" using limbo_item(1) [OF assms] by auto
  note ok = item_invD(2) [OF place_of [OF inv] k]
  let ?f = "\<lambda>it. it\<lparr>hi_queued := True, hi_task := (normalizeTask (hi_task it))\<lparr>pt_DueAt := hi_dueAt it\<rparr>\<rparr>"
  let ?p = "readyIndex (hi_task (s_mem s r))"
  have e: "pushReadyFront r s = (upd r ?f s)\<lparr>s_ready := (s_ready s)(?p := r # s_ready s ?p)\<rparr>"
    using limbo_item(3) [OF assms] ok by (simp add: pushReadyFront_def Let_def upd_upd normalize_ok [OF ok])
  show ?thesis
    by (rule enter_inv [OF inv k r e, where as = "[]" and bs = "s_ready s ?p"])
      (use ok in \<open>simp_all add: normalize_ok [OF ok] e enter_ready_def\<close>)
qed

text \<open>Leaving a ready queue.\<close>

lemma leave_inv:
  assumes inv: "sched_inv us L s" and q: "ready_minus (Some r) {..<3} (s_ready s) q"
    and t: "t = upd r (\<lambda>it. it\<lparr>hi_queued := False\<rparr>) (s\<lparr>s_ready := q\<rparr>)"
  shows "sched_inv us (insert r L) t" and "\<exists>k. s_items s k = Some r"
proof -
  have p: "place_inv us L s" using inv by (rule place_of)
  have refs: "mset (readyRefs s) = add_mset r (mset (readyRefs t))"
    using ready_minus_mset [OF q] by (simp add: readyRefs_def t)
  then have sr: "set (readyRefs s) = insert r (set (readyRefs t))"
    by (metis set_mset_add_mset_insert set_mset_mset)
  then show ex: "\<exists>k. s_items s k = Some r" using p by (auto simp: place_inv_def ran_def)
  then obtain k where k: "s_items s k = Some r" by auto
  note D = item_invD [OF p k]
  have "distinct (readyRefs s)" using p by (simp add: place_inv_def)
  then have dt: "distinct (readyRefs t)" "r \<notin> set (readyRefs t)"
    using refs by (metis distinct.simps(2) mset.simps(2) mset_eq_imp_distinct_iff)+
  have out: "r \<notin> set (s_heap s)" "hi_queued (s_mem s r)" "\<not> hi_inFlight (s_mem s r)" "r \<notin> L"
    using D(3,5) sr by (auto simp: places_def split: if_splits)
  have sub: "x \<in> set (q p) \<Longrightarrow> x \<in> set (s_ready s p)" for x p
    using q by (auto simp: ready_minus_def split: if_splits)
  have fr: "s_items t = s_items s" "s_heap t = s_heap s" "s_next t = s_next s" "s_ready t = q"
      "\<And>x. s_mem t x = (if x = r then (s_mem s r)\<lparr>hi_queued := False\<rparr> else s_mem s x)" by (simp_all add: t)
  have "item_inv (insert r L) t j x" if j: "s_items s j = Some x" for j x
  proof (cases "x = r")
    case True
    then have "j = k" using j item_inj [OF p k] by auto
    then show ?thesis using True D(1,2,4) out dt by (simp add: item_inv_def fr places_def)
  next
    case False
    then show ?thesis using item_invD [OF p j] sr by (simp add: item_inv_def fr places_def)
  qed
  moreover have "heap_wf us (s_mem t, s_heap s)"
    by (rule heap_wf_cong [of us "s_mem s"]) (use p out fr in \<open>auto simp: place_inv_def taskHeap_key_def\<close>)
  moreover have "n < 3 \<and> readyIndex (hi_task (s_mem t x)) = n" if "x \<in> set (q n)" for n x
  proof -
    have "n < 3 \<and> readyIndex (hi_task (s_mem s x)) = n" using sub [OF that] p by (simp add: place_inv_def)
    then show ?thesis by (auto simp: fr)
  qed
  ultimately have "place_inv us (insert r L) t"
    using p dt sr ranI [of "s_items s" k r] k by (auto simp: place_inv_def fr)
  moreover have "flying t = flying s" by (rule flying_cong) (use fr in auto)
  then have "count_inv us t"
    using inv count_inv_cong [of us s t] by (simp add: sched_inv_def same_counts_def t)
  ultimately show "sched_inv us (insert r L) t" by (simp add: sched_inv_def)
qed

lemma removeReadyItem_inv:
  assumes inv: "sched_inv us L s" and k: "s_items s k = Some r" and q: "hi_queued (s_mem s r)"
  shows "sched_inv us (insert r L) (removeReadyItem r s)"
    and "s_mem (removeReadyItem r s) = (s_mem s)(r := (s_mem s r)\<lparr>hi_queued := False\<rparr>)"
    and "s_items (removeReadyItem r s) = s_items s" and "s_heap (removeReadyItem r s) = s_heap s"
proof -
  have "r \<in> set (readyRefs s)" using item_invD(3) [OF place_of [OF inv] k] q by simp
  then have "\<exists>p. find (\<lambda>p. r \<in> set (s_ready s p)) [0..<3] = Some p"
    by (auto simp: readyRefs_def upt_rec numeral_2_eq_2)
  then obtain p where p: "find (\<lambda>p. r \<in> set (s_ready s p)) [0..<3] = Some p" by auto
  then have p3: "p < 3" "r \<in> set (s_ready s p)" by (auto simp: find_Some_iff)
  obtain as bs where ab: "s_ready s p = as @ r # bs" "r \<notin> set as" using p3(2) by (metis split_list_first)
  have t: "removeReadyItem r s = upd r (\<lambda>it. it\<lparr>hi_queued := False\<rparr>) (s\<lparr>s_ready := (s_ready s)(p := as @ bs)\<rparr>)"
    using p ab by (simp add: removeReadyItem_def remove1_append)
  have "ready_minus (Some r) {..<3} (s_ready s) ((s_ready s)(p := as @ bs))"
    using ready_minus_hit [of "s_ready s" p as r bs] ab(1) p3(1)
    by (auto intro: ready_minus_mono [of _ "{p}"])
  then show "sched_inv us (insert r L) (removeReadyItem r s)" using leave_inv(1) [OF inv _ t] by simp
  show "s_mem (removeReadyItem r s) = (s_mem s)(r := (s_mem s r)\<lparr>hi_queued := False\<rparr>)"
    "s_items (removeReadyItem r s) = s_items s" "s_heap (removeReadyItem r s) = s_heap s"
    by (simp_all add: t) (simp add: upd_def)
qed

subsection \<open>Creating and deleting items\<close>

lemma ran_del:
  assumes "m k = Some r" and "\<And>j. m j = Some r \<Longrightarrow> j = k"
  shows "ran (m(k := None)) = ran m - {r}"
proof (intro set_eqI iffI)
  fix x assume "x \<in> ran (m(k := None))"
  then obtain j where "j \<noteq> k" "m j = Some x" by (auto simp: ran_def split: if_splits)
  then have "x \<noteq> r" using assms(2) by blast
  with \<open>m j = Some x\<close> show "x \<in> ran m - {r}" by (auto simp: ran_def)
next
  fix x assume "x \<in> ran m - {r}"
  then obtain j where j: "m j = Some x" "x \<noteq> r" by (auto simp: ran_def)
  then have "(m(k := None)) j = Some x" using assms(1) by auto
  then show "x \<in> ran (m(k := None))" unfolding ran_def by blast
qed

lemma deleteItem_frame [simp]:
  "s_items (deleteItem k s) = (s_items s)(k := None)" "s_mem (deleteItem k s) = s_mem s"
  "s_heap (deleteItem k s) = s_heap s" "s_next (deleteItem k s) = s_next s"
  "s_tasks (deleteItem k s) = s_tasks s" "s_tasksCap (deleteItem k s) = s_tasksCap s"
  "s_completions (deleteItem k s) = s_completions s" "s_completionsCap (deleteItem k s) = s_completionsCap s"
  "s_runID (deleteItem k s) = s_runID s" "same_counts s (deleteItem k s)"
  by (simp_all add: deleteItem_def same_counts_def)

lemma putItem_frame [simp]:
  "s_items (putItem k r s) = (s_items s)(k \<mapsto> r)" "s_mem (putItem k r s) = s_mem s"
  "s_heap (putItem k r s) = s_heap s" "s_next (putItem k r s) = s_next s" "s_ready (putItem k r s) = s_ready s"
  "s_tasks (putItem k r s) = s_tasks s" "s_tasksCap (putItem k r s) = s_tasksCap s"
  "s_completions (putItem k r s) = s_completions s" "s_completionsCap (putItem k r s) = s_completionsCap s"
  "s_runID (putItem k r s) = s_runID s" "same_counts s (putItem k r s)"
  by (simp_all add: putItem_def same_counts_def)

lemma deleteItem_inv:
  assumes inv: "sched_inv us L s" and k: "s_items s k = Some r" and r: "r \<in> L"
  shows "sched_inv us (L - {r}) (deleteItem k s)"
proof -
  let ?t = "deleteItem k s"
  have p: "place_inv us L s" using inv by (rule place_of)
  note out = limbo_item [OF inv r]
  have ran: "ran (s_items ?t) = ran (s_items s) - {r}"
    unfolding deleteItem_frame using ran_del [of "s_items s" k r] k item_inj [OF p k] by blast
  have "r \<notin> set (readyRefs s)" using item_invD(3) [OF p k] out by simp
  then have "set (s_heap s) \<union> set (readyRefs s) \<union> (L - {r}) \<subseteq> ran (s_items ?t)"
    unfolding ran using p out by (auto simp: place_inv_def)
  moreover have "item_inv (L - {r}) ?t j x" if "s_items ?t j = Some x" for j x
  proof -
    have j: "j \<noteq> k" "s_items s j = Some x" using that by (auto split: if_splits)
    then have "x \<noteq> r" using item_inj [OF p k] by auto
    then show ?thesis using item_invD [OF p j(2)] by (simp add: item_inv_def places_def)
  qed
  ultimately have "place_inv us (L - {r}) ?t" using p by (simp add: place_inv_def)
  moreover have "flying ?t = flying s"
  proof -
    have "\<not> (\<exists>r. s_items s k = Some r \<and> hi_inFlight (s_mem s r))" using out(4) k by simp
    then show ?thesis unfolding flying_def deleteItem_frame by (auto split: if_splits)
  qed
  then have "count_inv us ?t"
    using inv count_inv_cong [of us s ?t] by (simp only: sched_inv_def deleteItem_frame)
  ultimately show ?thesis by (simp add: sched_inv_def)
qed

lemma newItem_inv:
  assumes inv: "sched_inv us L s" and k: "s_items s k = None"
    and a: "allocItem it s = (r, s')" and ok: "task_ok k (hi_task it)"
    and it: "\<not> hi_queued it" "\<not> hi_inFlight it" "hi_index it = -1"
  shows "sched_inv us (insert r L) (putItem k r s')"
proof -
  let ?t = "putItem k r s'"
  have p: "place_inv us L s" using inv by (rule place_of)
  have fr: "s_items ?t = (s_items s)(k \<mapsto> r)" "s_mem ?t = (s_mem s)(r := it)" "s_heap ?t = s_heap s"
      "s_ready ?t = s_ready s" "s_next ?t = Suc r" "readyRefs ?t = readyRefs s" "same_counts s ?t"
    using a by (auto simp: allocItem_def readyRefs_def same_counts_def putItem_def)
  have rn: "s_next s = r" using a by (simp add: allocItem_def)
  have new: "x \<noteq> r" if "x \<in> ran (s_items s)" for x
    using that item_invD(1) [OF p] rn by (auto simp: ran_def)
  have "set (s_heap s) \<subseteq> ran (s_items s)" "set (readyRefs s) \<subseteq> ran (s_items s)"
    using p by (simp_all add: place_inv_def)
  then have new': "r \<notin> set (s_heap s)" "r \<notin> set (readyRefs s)" using new by blast+
  have "item_inv (insert r L) ?t j x" if "s_items ?t j = Some x" for j x
  proof (cases "j = k")
    case True
    then show ?thesis using that ok it new' unfolding item_inv_def places_def fr by auto
  next
    case False
    then have j: "s_items s j = Some x" using that unfolding fr by simp
    then have "x \<noteq> r" using new by (auto simp: ran_def)
    then show ?thesis using item_invD [OF p j] rn unfolding item_inv_def places_def fr by simp
  qed
  moreover have "s_mem ?t x = s_mem s x" if "x \<in> set (s_heap s)" for x using that new' unfolding fr by auto
  then have "heap_wf us (s_mem ?t, s_heap s)"
    using heap_wf_cong [of us "s_mem s" "s_heap s" "s_mem ?t"] p by (simp add: place_inv_def taskHeap_key_def)
  moreover have "ran (s_items ?t) = insert r (ran (s_items s))" unfolding fr using k by simp
  moreover have "n < 3 \<and> readyIndex (hi_task (s_mem ?t x)) = n" if x: "x \<in> set (s_ready s n)" for n x
    using x p new' ready_in_refs [OF p x] unfolding fr place_inv_def by auto
  ultimately have "place_inv us (insert r L) ?t" using p unfolding place_inv_def fr by auto
  moreover have "flying ?t = flying s"
  proof (rule set_eqI)
    fix j
    have "x \<noteq> r" if "s_items s j = Some x" for x
      using new [of x] that by (auto simp: ran_def)
    then show "j \<in> flying ?t \<longleftrightarrow> j \<in> flying s"
      using k it(2) unfolding flying_def mem_Collect_eq fr by (cases "j = k") auto
  qed
  then have "count_inv us ?t"
    using inv count_inv_cong [of us s ?t] fr(7) by (simp only: sched_inv_def)
  ultimately show ?thesis by (simp add: sched_inv_def)
qed

subsection \<open>Entering and leaving flight\<close>

lemma count_insert:
  assumes "finite F" and "k \<notin> F"
  shows "int (card {x \<in> insert k F. P x}) = int (card {x \<in> F. P x}) + (if P k then 1 else 0)"
proof -
  have "{x \<in> insert k F. P x} = (if P k then insert k {x \<in> F. P x} else {x \<in> F. P x})" by auto
  then show ?thesis using assms by simp
qed

lemma count_remove:
  assumes "finite F" and "k \<in> F"
  shows "int (card {x \<in> F - {k}. P x}) = int (card {x \<in> F. P x}) - (if P k then 1 else 0)"
proof -
  have "insert k (F - {k}) = F" using assms(2) by auto
  then show ?thesis using count_insert [of "F - {k}" k P] assms by simp
qed

text \<open>What the increments and decrements do to the exact counters.\<close>

lemma incrementInFlight_counts:
  assumes ok: "task_ok k task" and us: "us = e_uuidString e"
    and t: "t = incrementInFlight e task s"
  shows "s_inFlight t = s_inFlight s"
    and "cget (s_inFlightByKind t) TaskKindEssential =
      cget (s_inFlightByKind s) TaskKindEssential + (if essential_key k then 1 else 0)"
    and "cget (s_inFlightByClass t) v =
      cget (s_inFlightByClass s) v + (if \<not> essential_key k \<and> key_class k = v then 1 else 0)"
    and "d \<noteq> [] \<Longrightarrow> cget (s_inFlightByDevice t) d =
      cget (s_inFlightByDevice s) d + (if us (tk_DeviceID k) = d then 1 else 0)"
    and "d \<noteq> [] \<Longrightarrow> cget (s_essentialByDevice t) d =
      cget (s_essentialByDevice s) d + (if essential_key k \<and> us (tk_DeviceID k) = d then 1 else 0)"
  using ok unfolding t us
  by (auto simp: incrementInFlight_def incrementIsolationCounts_def Let_def incrementCount_def cget_upd
      normalize_ok [OF ok] task_ok_def essential_key_def)

lemma decrementInFlight_counts:
  assumes ok: "task_ok k task" and us: "us = e_uuidString e"
    and pos: "essential_key k \<Longrightarrow> 0 < cget (s_inFlightByKind s) TaskKindEssential"
      "\<not> essential_key k \<Longrightarrow> 0 < cget (s_inFlightByClass s) (key_class k)"
      "us (tk_DeviceID k) \<noteq> [] \<Longrightarrow> 0 < cget (s_inFlightByDevice s) (us (tk_DeviceID k))"
      "us (tk_DeviceID k) \<noteq> [] \<Longrightarrow> essential_key k \<Longrightarrow> 0 < cget (s_essentialByDevice s) (us (tk_DeviceID k))"
    and t: "t = decrementInFlight e task s"
  shows "s_inFlight t = s_inFlight s"
    and "cget (s_inFlightByKind t) TaskKindEssential =
      cget (s_inFlightByKind s) TaskKindEssential - (if essential_key k then 1 else 0)"
    and "cget (s_inFlightByClass t) v =
      cget (s_inFlightByClass s) v - (if \<not> essential_key k \<and> key_class k = v then 1 else 0)"
    and "d \<noteq> [] \<Longrightarrow> cget (s_inFlightByDevice t) d =
      cget (s_inFlightByDevice s) d - (if us (tk_DeviceID k) = d then 1 else 0)"
    and "d \<noteq> [] \<Longrightarrow> cget (s_essentialByDevice t) d =
      cget (s_essentialByDevice s) d - (if essential_key k \<and> us (tk_DeviceID k) = d then 1 else 0)"
  using ok pos unfolding t us
  by (auto simp: decrementInFlight_def decrementIsolationCounts_def Let_def decrementCount_def cget_upd cget_del
      normalize_ok [OF ok] task_ok_def essential_key_def)

lemma fold_incrementCount:
  "x \<noteq> [] \<Longrightarrow> cget (fold incrementCount xs m) x = cget m x + int (count_list xs x)"
  by (induction xs arbitrary: m) (auto simp: incrementCount_def cget_upd)

lemma decrementCount_nonneg: "\<forall>x. 0 \<le> cget m x \<Longrightarrow> 0 \<le> cget (decrementCount k m) x"
  by (auto simp: decrementCount_def cget_upd cget_del)

lemma incrementCount_nonneg: "\<forall>x. 0 \<le> cget m x \<Longrightarrow> 0 \<le> cget (incrementCount k m) x"
  by (auto simp: incrementCount_def cget_upd)

lemma fold_count_nonneg:
  assumes "\<And>k m x. \<forall>x. 0 \<le> cget m x \<Longrightarrow> (0::int) \<le> cget (f k m) x"
  shows "\<forall>x. 0 \<le> cget m x \<Longrightarrow> 0 \<le> cget (fold f ks m) x"
proof (induction ks arbitrary: m)
  case (Cons k ks)
  have "\<forall>x. 0 \<le> cget (f k m) x" using assms [OF Cons.prems] by blast
  then show ?case using Cons.IH by simp
qed simp

lemmas counts_nonneg = incrementCount_nonneg decrementCount_nonneg
  fold_count_nonneg [OF incrementCount_nonneg] fold_count_nonneg [OF decrementCount_nonneg]

lemma incrementInFlight_scopes: "scopes_nonneg s \<Longrightarrow> scopes_nonneg (incrementInFlight e task s)"
  by (simp add: scopes_nonneg_def incrementInFlight_def incrementIsolationCounts_def Let_def counts_nonneg)

lemma decrementInFlight_scopes: "scopes_nonneg s \<Longrightarrow> scopes_nonneg (decrementInFlight e task s)"
  by (simp add: scopes_nonneg_def decrementInFlight_def decrementIsolationCounts_def Let_def counts_nonneg)

lemma counters_frame [simp]:
  "s_mem (incrementInFlight e task s) = s_mem s" "s_items (incrementInFlight e task s) = s_items s"
  "s_heap (incrementInFlight e task s) = s_heap s" "s_next (incrementInFlight e task s) = s_next s"
  "s_tasks (incrementInFlight e task s) = s_tasks s" "s_tasksCap (incrementInFlight e task s) = s_tasksCap s"
  "s_completions (incrementInFlight e task s) = s_completions s"
  "s_completionsCap (incrementInFlight e task s) = s_completionsCap s"
  "s_runID (incrementInFlight e task s) = s_runID s"
  "s_mem (decrementInFlight e task s) = s_mem s" "s_items (decrementInFlight e task s) = s_items s"
  "s_heap (decrementInFlight e task s) = s_heap s" "s_next (decrementInFlight e task s) = s_next s"
  "s_ready (decrementInFlight e task s) = s_ready s"
  "s_tasks (decrementInFlight e task s) = s_tasks s" "s_tasksCap (decrementInFlight e task s) = s_tasksCap s"
  "s_completions (decrementInFlight e task s) = s_completions s"
  "s_completionsCap (decrementInFlight e task s) = s_completionsCap s"
  "s_runID (decrementInFlight e task s) = s_runID s"
  by (simp_all add: incrementInFlight_def incrementIsolationCounts_def decrementInFlight_def
      decrementIsolationCounts_def Let_def)

text \<open>Changing the in-flight flag of an item outside the heap.\<close>

lemma flight_place:
  assumes p: "place_inv us L s" and k: "s_items s k = Some r"
    and ok: "task_ok k (hi_task (f (s_mem s r)))"
    and same: "hi_queued (f (s_mem s r)) = hi_queued (s_mem s r)" "hi_index (f (s_mem s r)) = hi_index (s_mem s r)"
    and fl: "if hi_inFlight (f (s_mem s r)) then r \<in> L \<and> L' = L - {r}
             else hi_inFlight (s_mem s r) \<and> L' = insert r L"
  shows "place_inv us L' (upd r f s)"
proof -
  let ?t = "upd r f s"
  note D = item_invD [OF p k]
  have out: "r \<notin> set (s_heap s)" "\<not> hi_queued (s_mem s r)"
    using D(5) fl by (auto simp: places_def split: if_splits)
  have "s_mem ?t x = s_mem s x" if "x \<in> set (s_heap s)" for x using that out by auto
  then have "heap_wf us (s_mem ?t, s_heap s)"
    using heap_wf_cong [of us "s_mem s" "s_heap s" "s_mem ?t"] p
    by (simp add: place_inv_def taskHeap_key_def del: upd_frame(19))
  moreover have "item_inv L' ?t j x" if j: "s_items s j = Some x" for j x
  proof (cases "x = r")
    case True
    then have "j = k" using j item_inj [OF p k] by auto
    moreover have "places ?t r = (if r \<in> L' then 0 else 1)"
      using out same fl by (auto simp: places_def split: if_splits)
    ultimately show ?thesis using True D ok same by (simp add: item_inv_def)
  next
    case False
    then have "(x \<in> L') = (x \<in> L)" using fl by (auto split: if_splits)
    then show ?thesis using False item_invD [OF p j] by (simp add: item_inv_def places_def)
  qed
  moreover have "readyIndex (hi_task (s_mem ?t x)) = readyIndex (hi_task (s_mem s x))" for x
    using task_ok_readyIndex [OF D(2) ok] by simp
  moreover have "L' \<subseteq> ran (s_items s)"
    using p fl ranI [of "s_items s" k r] k by (auto simp: place_inv_def split: if_splits)
  ultimately show ?thesis using p by (simp add: place_inv_def)
qed

lemma place_inv_cong:
  assumes "place_inv us L s" and "s_items t = s_items s" "s_mem t = s_mem s" "s_heap t = s_heap s"
    "s_ready t = s_ready s" "s_next t = s_next s"
  shows "place_inv us L t"
  using assms(1) unfolding place_inv_def item_inv_def places_def assms(2-6) readyRefs_cong [OF assms(5)] .

lemma dispatchTask_ok: "task_ok k (hi_task item) \<Longrightarrow> task_ok k (dispatchTask item w now)"
  by (simp add: dispatchTask_def Let_def)

text \<open>One more or one fewer key in flight.\<close>

lemma take_off_count:
  assumes ci: "count_inv us s" and F: "finite (flying s)" and k: "k \<notin> flying s"
    and fly: "flying t = insert k (flying s)"
    and n: "s_inFlight t = s_inFlight s + 1"
    and c: "cget (s_inFlightByKind t) TaskKindEssential =
      cget (s_inFlightByKind s) TaskKindEssential + (if essential_key k then 1 else 0)"
      "\<And>v. cget (s_inFlightByClass t) v =
        cget (s_inFlightByClass s) v + (if \<not> essential_key k \<and> key_class k = v then 1 else 0)"
      "\<And>d. d \<noteq> [] \<Longrightarrow> cget (s_inFlightByDevice t) d =
        cget (s_inFlightByDevice s) d + (if us (tk_DeviceID k) = d then 1 else 0)"
      "\<And>d. d \<noteq> [] \<Longrightarrow> cget (s_essentialByDevice t) d =
        cget (s_essentialByDevice s) d + (if essential_key k \<and> us (tk_DeviceID k) = d then 1 else 0)"
    and nn: "scopes_nonneg t"
  shows "count_inv us t"
  using ci F k n c(3,4) nn unfolding count_inv_def fly count_insert [OF F k] c(1,2) by simp

lemma land_count:
  assumes ci: "count_inv us s" and F: "finite (flying s)" and k: "k \<in> flying s"
    and fly: "flying t = flying s - {k}"
    and n: "s_inFlight t = s_inFlight s - 1"
    and c: "cget (s_inFlightByKind t) TaskKindEssential =
      cget (s_inFlightByKind s) TaskKindEssential - (if essential_key k then 1 else 0)"
      "\<And>v. cget (s_inFlightByClass t) v =
        cget (s_inFlightByClass s) v - (if \<not> essential_key k \<and> key_class k = v then 1 else 0)"
      "\<And>d. d \<noteq> [] \<Longrightarrow> cget (s_inFlightByDevice t) d =
        cget (s_inFlightByDevice s) d - (if us (tk_DeviceID k) = d then 1 else 0)"
      "\<And>d. d \<noteq> [] \<Longrightarrow> cget (s_essentialByDevice t) d =
        cget (s_essentialByDevice s) d - (if essential_key k \<and> us (tk_DeviceID k) = d then 1 else 0)"
    and nn: "scopes_nonneg t"
  shows "count_inv us t"
proof -
  have "int (card (flying s - {k})) = int (card (flying s)) - 1"
    using count_remove [OF F k, of "\<lambda>_. True"] by (simp add: set_diff_eq)
  then show ?thesis
    using ci n c(3,4) nn unfolding count_inv_def fly count_remove [OF F k] c(1,2) by simp
qed

lemma count_positive:
  assumes ci: "count_inv us s" and F: "finite (flying s)" and k: "k \<in> flying s"
  shows "essential_key k \<Longrightarrow> 0 < cget (s_inFlightByKind s) TaskKindEssential"
    and "\<not> essential_key k \<Longrightarrow> 0 < cget (s_inFlightByClass s) (key_class k)"
    and "us (tk_DeviceID k) \<noteq> [] \<Longrightarrow> 0 < cget (s_inFlightByDevice s) (us (tk_DeviceID k))"
    and "us (tk_DeviceID k) \<noteq> [] \<Longrightarrow> essential_key k \<Longrightarrow> 0 < cget (s_essentialByDevice s) (us (tk_DeviceID k))"
proof -
  have pos: "0 < int (card {x \<in> flying s. P x})" if "P k" for P
    using F k that by (auto simp: card_gt_0_iff)
  show "essential_key k \<Longrightarrow> 0 < cget (s_inFlightByKind s) TaskKindEssential"
    using ci pos [of essential_key] by (simp add: count_inv_def)
  show "\<not> essential_key k \<Longrightarrow> 0 < cget (s_inFlightByClass s) (key_class k)"
    using ci pos [of "\<lambda>x. \<not> essential_key x \<and> key_class x = key_class k"] by (simp add: count_inv_def)
  show "us (tk_DeviceID k) \<noteq> [] \<Longrightarrow> 0 < cget (s_inFlightByDevice s) (us (tk_DeviceID k))"
    using ci pos [of "\<lambda>x. us (tk_DeviceID x) = us (tk_DeviceID k)"] by (simp add: count_inv_def)
  show "us (tk_DeviceID k) \<noteq> [] \<Longrightarrow> essential_key k \<Longrightarrow> 0 < cget (s_essentialByDevice s) (us (tk_DeviceID k))"
    using ci pos [of "\<lambda>x. essential_key x \<and> us (tk_DeviceID x) = us (tk_DeviceID k)"] by (simp add: count_inv_def)
qed

lemma flying_upd:
  assumes p: "place_inv us L s" and k: "s_items s k = Some r"
    and t: "s_items t = s_items s" "s_mem t = s_mem (upd r f s)"
  shows "flying t = (if hi_inFlight (f (s_mem s r)) then insert k (flying s) else flying s - {k})"
proof -
  have uniq: "y \<noteq> r" if "s_items s x = Some y" "x \<noteq> k" for x y using item_inj [OF p k] that by blast
  have "x \<in> flying t \<longleftrightarrow> (if x = k then hi_inFlight (f (s_mem s r)) else x \<in> flying s)" for x
    using k uniq [of x] by (cases "x = k") (auto simp: flying_def t)
  then show ?thesis by (simp add: set_eq_iff)
qed

lemma sendTask_inv:
  assumes inv: "sched_inv us L s" and r: "r \<in> L" and us: "us = e_uuidString e"
  shows "sched_inv us (L - {r}) (sendTask e now r s)"
proof -
  obtain k where k: "s_items s k = Some r" using limbo_item(1) [OF inv r] by auto
  have p: "place_inv us L s" by (rule place_of [OF inv])
  define task where "task = dispatchTask (s_mem s r) (s_runID s) now"
  let ?f = "\<lambda>it. it\<lparr>hi_inFlight := True, hi_dispatchedAt := now, hi_runID := s_runID s, hi_task := task\<rparr>"
  define u where "u = (upd r ?f (s\<lparr>s_tasks := s_tasks s @ [task]\<rparr>))\<lparr>s_inFlight := s_inFlight s + 1\<rparr>"
  define t where "t = incrementInFlight e task u"
  let ?t = "sendTask e now r s"
  have eq: "?t = (if pt_Kind task = TaskKindEssential \<and> pt_DeadlineMissed task
      then t\<lparr>s_deadlineMissTotal := s_deadlineMissTotal t + 1\<rparr> else t)"
    by (simp add: sendTask_def Let_def t_def u_def task_def)
  have F: "s_items ?t = s_items s" "s_mem ?t = s_mem (upd r ?f s)" "s_heap ?t = s_heap s"
      "s_ready ?t = s_ready s" "s_next ?t = s_next s" "s_inFlight ?t = s_inFlight t"
      "s_inFlightByKind ?t = s_inFlightByKind t" "s_inFlightByClass ?t = s_inFlightByClass t"
      "s_inFlightByDevice ?t = s_inFlightByDevice t" "s_essentialByDevice ?t = s_essentialByDevice t"
    unfolding eq by (simp_all add: t_def u_def upd_def)
  have u: "s_inFlight u = s_inFlight s + 1" "s_inFlightByKind u = s_inFlightByKind s"
    "s_inFlightByClass u = s_inFlightByClass s" "s_inFlightByDevice u = s_inFlightByDevice s"
    "s_essentialByDevice u = s_essentialByDevice s" by (simp_all add: u_def)
  have ok: "task_ok k task" using item_invD(2) [OF p k] by (simp add: task_def dispatchTask_ok)
  have "place_inv us (L - {r}) (upd r ?f s)"
    by (rule flight_place [OF p k]) (use ok r in simp_all)
  then have "place_inv us (L - {r}) ?t" by (rule place_inv_cong) (simp_all add: F)
  moreover have "count_inv us ?t"
  proof (rule take_off_count [of us s k])
    show "flying ?t = insert k (flying s)" using flying_upd [OF p k F(1,2)] by simp
    show "k \<notin> flying s" using limbo_item(4) [OF inv r] k by (auto simp: flying_def)
    have "scopes_nonneg u" using inv by (simp add: sched_inv_def count_inv_def scopes_nonneg_def u_def)
    then have "scopes_nonneg t" unfolding t_def by (rule incrementInFlight_scopes)
    then show "scopes_nonneg ?t" unfolding eq by (simp add: scopes_nonneg_def)
  qed (use inv flying_finite [OF p] in \<open>simp_all add: F sched_inv_def incrementInFlight_counts [OF ok us t_def] u\<close>)
  ultimately show ?thesis by (simp add: sched_inv_def)
qed

text \<open>The first half of a completion: the item leaves flight and the counters follow.\<close>

lemma land_inv:
  assumes inv: "sched_inv us L s" and k: "s_items s k = Some r" and fl: "hi_inFlight (s_mem s r)"
    and us: "us = e_uuidString e"
    and task: "task_ok k task"
    and f: "\<not> hi_inFlight (f (s_mem s r))" "task_ok k (hi_task (f (s_mem s r)))"
      "hi_queued (f (s_mem s r)) = hi_queued (s_mem s r)" "hi_index (f (s_mem s r)) = hi_index (s_mem s r)"
    and d: "d = decrementInFlight e task s"
    and t: "s_items t = s_items s" "s_mem t = s_mem (upd r f s)" "s_heap t = s_heap s"
      "s_ready t = s_ready s" "s_next t = s_next s" "s_inFlight t = s_inFlight s - 1"
      "s_inFlightByKind t = s_inFlightByKind d" "s_inFlightByClass t = s_inFlightByClass d"
      "s_inFlightByDevice t = s_inFlightByDevice d" "s_essentialByDevice t = s_essentialByDevice d"
      "s_essentialBySite t = s_essentialBySite d" "s_essentialBySubnet t = s_essentialBySubnet d"
      "s_essentialByProfile t = s_essentialByProfile d"
  shows "sched_inv us (insert r L) t"
proof -
  have p: "place_inv us L s" and ci: "count_inv us s" using inv by (simp_all add: sched_inv_def)
  have mem: "k \<in> flying s" using k fl by (auto simp: flying_def)
  have F: "finite (flying s)" by (rule flying_finite [OF p])
  note C = decrementInFlight_counts [OF task us count_positive [OF ci F mem, folded us] d]
  have "place_inv us (insert r L) (upd r f s)"
    by (rule flight_place [OF p k]) (use f fl in simp_all)
  then have "place_inv us (insert r L) t" by (rule place_inv_cong) (simp_all add: t)
  moreover have "scopes_nonneg t"
    using decrementInFlight_scopes [of s e task] ci by (simp add: scopes_nonneg_def t d count_inv_def)
  then have "count_inv us t"
    by (intro land_count [OF ci F mem]) (use f flying_upd [OF p k t(1,2)] in \<open>simp_all add: t(6-10) C\<close>)
  ultimately show ?thesis by (simp add: sched_inv_def)
qed

end
