(* ===== verification/Scheduler_Dispatch.thy ===== *)
theory Scheduler_Dispatch
  imports Scheduler_Moves
begin

text \<open>
  The dispatch cycle. A scan of the ready queues returns an admissible task, or finds that there is
  none (\<open>pop_result\<close>); the loop is a sequence of atomic moves (\<open>dispatch_move\<close>), from which the
  facts on the sent tasks (\<open>sent\<close>) and on the limits (\<open>capped\<close>) follow by rule induction.
\<close>

text \<open>Fields the invariant does not read.\<close>

lemma sched_inv_cong:
  assumes "sched_inv us L s" and "s_items t = s_items s" "s_mem t = s_mem s" "s_heap t = s_heap s"
    "s_ready t = s_ready s" "s_next t = s_next s" and "same_counts s t"
  shows "sched_inv us L t"
proof -
  have "place_inv us L t" using place_of [OF assms(1)] assms(2-6) by (rule place_inv_cong)
  moreover have "flying t = flying s" using assms(2,3) by (simp add: flying_def)
  ultimately show ?thesis using count_inv_cong [of us s t] assms(1,7) by (simp add: sched_inv_def)
qed

lemma sched_inv_frame [simp]:
  "sched_inv us L (snd (flushBlockedMetrics state s)) = sched_inv us L s"
  "sched_inv us L (IncSchedulerBackpressure v reason s) = sched_inv us L s"
  "sched_inv us L (s\<lparr>s_redueRequests := rs\<rparr>) = sched_inv us L s"
  "sched_inv us L (s\<lparr>s_completions := cs\<rparr>) = sched_inv us L s"
  "sched_inv us L (s\<lparr>s_tasks := ts\<rparr>) = sched_inv us L s"
  "sched_inv us L (s\<lparr>s_lastWarnings := ws, s_degradedRisk := b\<rparr>) = sched_inv us L s"
  "sched_inv us L (s\<lparr>s_started := b1, s_runID := w, s_running := b2\<rparr>) = sched_inv us L s"
  by (rule iffI; erule sched_inv_cong;
      simp add: flushBlockedMetrics_def IncSchedulerBackpressure_def same_counts_def)+

lemma recordBackpressure_inv [simp]: "sched_inv us L (recordBackpressure reason s) = sched_inv us L s"
  by (simp add: recordBackpressure_def scheduledVolatilityClasses_def)

subsection \<open>One scan of the ready queues\<close>

text \<open>The first check of the scan that every ready task passes or fails: no limit blocks it.\<close>

definition admissible :: "SchedEnv \<Rightarrow> dispatchLimits \<Rightarrow> Scheduler \<Rightarrow> ref \<Rightarrow> bool" where
  "admissible e limits s r \<longleftrightarrow> ib_reason (dispatchBlockWithLimits e (hi_task (s_mem s r)) limits s) = []"

definition normal_refs :: "ref list \<Rightarrow> Scheduler \<Rightarrow> bool" where
  "normal_refs q s \<longleftrightarrow> (\<forall>x\<in>set q. normalizeTask (hi_task (s_mem s x)) = hi_task (s_mem s x))"

definition take_out :: "nat \<Rightarrow> ref list \<Rightarrow> ref \<Rightarrow> Scheduler \<Rightarrow> Scheduler" where
  "take_out p q r s = upd r (\<lambda>it. it\<lparr>hi_queued := False\<rparr>) (s\<lparr>s_ready := (s_ready s)(p := q)\<rparr>)"

text \<open>What is known of the counters from the scans so far.\<close>

definition known_sound :: "dispatchLimits \<Rightarrow> dispatchScanState \<Rightarrow> Scheduler \<Rightarrow> bool" where
  "known_sound limits state s \<longleftrightarrow>
     (ss_essentialLimited state \<longrightarrow> dl_essentialLimit limits \<le> cget (s_inFlightByKind s) TaskKindEssential) \<and>
     (\<forall>v. 0 \<le> VolatilityPriority v \<and> VolatilityPriority v < 3 \<and> ss_classLimited state (nat (VolatilityPriority v)) \<longrightarrow>
        cget (dl_budgets limits) v \<le> cget (s_inFlightByClass s) v)"

lemma VolatilityPriority_inj:
  "VolatilityPriority v = VolatilityPriority w \<Longrightarrow> 0 \<le> VolatilityPriority v \<Longrightarrow> VolatilityPriority v < 3 \<Longrightarrow> v = w"
  by (cases v; cases w) (auto simp: VolatilityPriority_def split: if_splits)

lemma known_blocked:
  assumes "known_sound limits state s" and "isKnownBlocked state task"
  shows "ib_reason (dispatchBlockWithLimits e task limits s) \<noteq> []"
  using assms by (auto simp: known_sound_def isKnownBlocked_def dispatchBlockWithLimits_def Let_def noBlock_def split: if_splits)

lemma computeIsolationBlock_reason:
  "ib_reason (computeIsolationBlock e task policy s) \<notin> {''essential_limit'', ''class_limit''}"
  by (simp add: computeIsolationBlock_def Let_def noBlock_def)

lemma recordBlocked_sound:
  assumes k: "known_sound limits state s" and b: "block = dispatchBlockWithLimits e task limits s"
  shows "known_sound limits (recordBlocked task block state) s"
proof (cases "pt_Kind (normalizeTask task) = TaskKindEssential")
  case True
  then show ?thesis
    using k computeIsolationBlock_reason [of e "normalizeTask task" "dl_policy limits" s]
    by (auto simp: b known_sound_def recordBlocked_def dispatchBlockWithLimits_def Let_def noBlock_def)
next
  case False
  let ?v = "pt_VolatilityClass (normalizeTask task)"
  have "cget (dl_budgets limits) ?v \<le> cget (s_inFlightByClass s) ?v" if "ib_reason block = ''class_limit''"
    using False that computeIsolationBlock_reason [of e "normalizeTask task" "dl_policy limits" s]
    by (auto simp: b dispatchBlockWithLimits_def Let_def split: if_splits)
  moreover have "w = ?v" if "nat (VolatilityPriority w) = nat (VolatilityPriority ?v)"
      "0 \<le> VolatilityPriority w" "VolatilityPriority w < 3" "0 \<le> VolatilityPriority ?v" for w
    using that by (intro VolatilityPriority_inj) (simp_all add: eq_nat_nat_iff)
  ultimately show ?thesis using k False
    by (auto simp: known_sound_def recordBlocked_def Let_def)
qed

text \<open>
  The outcome of scanning \<open>q\<close>, the rest of queue \<open>p\<close> after \<open>pre\<close>: either nothing of the wanted kind
  is admissible and the state is unchanged, or one admissible task is taken out.
\<close>

definition scan_result :: "SchedEnv \<Rightarrow> dispatchLimits \<Rightarrow> TaskKind \<Rightarrow> nat \<Rightarrow> ref list \<Rightarrow> ref list \<Rightarrow>
    Scheduler \<Rightarrow> ref option \<Rightarrow> Scheduler \<Rightarrow> bool" where
  "scan_result e limits kind p pre q s x s' \<longleftrightarrow>
     (case x of
        None \<Rightarrow> s' = s \<and> (\<forall>y\<in>set q. kindSkipped kind (hi_task (s_mem s y)) \<or> \<not> admissible e limits s y)
      | Some r \<Rightarrow> admissible e limits s r \<and> \<not> kindSkipped kind (hi_task (s_mem s r)) \<and>
          (\<exists>as bs. q = as @ r # bs \<and> s' = take_out p (pre @ as @ bs) r s))"

lemma scan_result_skip:
  assumes "scan_result e limits kind p (pre @ [r]) rs s x s'"
    and "kindSkipped kind (hi_task (s_mem s r)) \<or> \<not> admissible e limits s r"
  shows "scan_result e limits kind p pre (r # rs) s x s'"
proof (cases x)
  case None
  then show ?thesis using assms by (simp add: scan_result_def)
next
  case (Some y)
  with assms(1) obtain as bs where "rs = as @ y # bs" "s' = take_out p ((pre @ [r]) @ as @ bs) y s"
      "admissible e limits s y" "\<not> kindSkipped kind (hi_task (s_mem s y))"
    by (auto simp: scan_result_def)
  then show ?thesis unfolding scan_result_def Some by (intro option.case(2) [THEN iffD2] conjI exI [of _ "r # as"] exI [of _ bs]) simp_all
qed

lemma scan_result_hit:
  assumes "\<not> kindSkipped kind (hi_task (s_mem s r))" and "admissible e limits s r"
  shows "scan_result e limits kind p pre (r # rs) s (Some r) (take_out p (pre @ rs) r s)"
proof -
  have "r # rs = [] @ r # rs" "pre @ rs = pre @ [] @ rs" by simp_all
  then show ?thesis unfolding scan_result_def using assms by (simp only: option.case) blast
qed

lemma scanQueue_spec:
  "scanQueue e limits kind p pre q state s = (x, state', s') \<Longrightarrow> normal_refs q s \<Longrightarrow>
   s_ready s p = pre @ q \<Longrightarrow> known_sound limits state s \<Longrightarrow>
   known_sound limits state' s \<and> scan_result e limits kind p pre q s x s'"
proof (induction e limits kind p pre q state s rule: scanQueue.induct)
  case (2 e limits kind p pre r rs state s)
  let ?task = "hi_task (s_mem s r)"
  let ?block = "dispatchBlockWithLimits e ?task limits s"
  have u: "upd r (\<lambda>it. it\<lparr>hi_task := normalizeTask (hi_task it)\<rparr>) s = s"
    using "2.prems"(2) by (intro upd_id) (simp add: normal_refs_def)
  have n: "normal_refs rs s" "s_ready s p = (pre @ [r]) @ rs" using "2.prems"(2,3) by (simp_all add: normal_refs_def)
  note step = "2.prems"(1) [unfolded scanQueue.simps u Let_def]
  note IH = "2.IH" [OF refl refl refl, unfolded u]
  consider (skip) "kindSkipped kind ?task" | (known) "\<not> kindSkipped kind ?task" "isKnownBlocked state ?task"
    | (block) "\<not> kindSkipped kind ?task" "\<not> isKnownBlocked state ?task" "ib_reason ?block \<noteq> []"
    | (hit) "\<not> kindSkipped kind ?task" "\<not> isKnownBlocked state ?task" "ib_reason ?block = []" by blast
  then show ?case
  proof cases
    case skip
    then show ?thesis using IH(1) [OF _ _ n] step "2.prems"(4) scan_result_skip by simp
  next
    case known
    then have "\<not> admissible e limits s r" using known_blocked [OF "2.prems"(4)] by (simp add: admissible_def)
    then show ?thesis using known IH(2) [OF _ _ _ n] step "2.prems"(4) scan_result_skip by simp
  next
    case block
    then have "\<not> admissible e limits s r" by (simp add: admissible_def)
    then show ?thesis
      using block IH(3) [OF _ _ _ _ n] step recordBlocked_sound [OF "2.prems"(4), of ?block e ?task, OF refl] scan_result_skip by simp
  next
    case hit
    then show ?thesis
      using step "2.prems"(4) scan_result_hit [of kind s r e limits p pre rs]
      by (auto simp: admissible_def take_out_def)
  qed
qed (simp add: scan_result_def)

text \<open>
  The scan over all queues for one kind, and over the kinds in order of precedence:
  essential work, then bootstrap work, then the rest.
\<close>

definition pick_result :: "SchedEnv \<Rightarrow> dispatchLimits \<Rightarrow> TaskKind \<Rightarrow> nat set \<Rightarrow> Scheduler \<Rightarrow> ref option \<Rightarrow> Scheduler \<Rightarrow> bool" where
  "pick_result e limits kind P s x s' \<longleftrightarrow>
     (case x of
        None \<Rightarrow> s' = s \<and> (\<forall>p\<in>P. \<forall>y\<in>set (s_ready s p). kindSkipped kind (hi_task (s_mem s y)) \<or> \<not> admissible e limits s y)
      | Some r \<Rightarrow> \<exists>p\<in>P. scan_result e limits kind p [] (s_ready s p) s x s')"

lemma scanQueues_spec:
  "scanQueues e limits kind ps state s = (x, state', s') \<Longrightarrow> \<forall>p. normal_refs (s_ready s p) s \<Longrightarrow>
   known_sound limits state s \<Longrightarrow>
   known_sound limits state' s \<and> pick_result e limits kind (set ps) s x s'"
proof (induction ps arbitrary: state)
  case (Cons p ps)
  obtain x1 st1 s1 where one: "scanQueue e limits kind p [] (s_ready s p) state s = (x1, st1, s1)"
    by (metis prod_cases3)
  have r: "known_sound limits st1 s" "scan_result e limits kind p [] (s_ready s p) s x1 s1"
    using scanQueue_spec [OF one] Cons.prems by simp_all
  show ?case
  proof (cases x1)
    case None
    then have "s1 = s" using r by (simp add: scan_result_def)
    then have "known_sound limits state' s \<and> pick_result e limits kind (set ps) s x s'"
      using Cons.IH [of st1] Cons.prems one r None by simp
    then show ?thesis using r None by (auto simp: pick_result_def scan_result_def split: option.splits)
  next
    case (Some y)
    then show ?thesis using r Cons.prems one by (auto simp: pick_result_def)
  qed
qed (simp add: pick_result_def)

definition pop_result :: "SchedEnv \<Rightarrow> dispatchLimits \<Rightarrow> TaskKind list \<Rightarrow> Scheduler \<Rightarrow> ref option \<Rightarrow> Scheduler \<Rightarrow> bool" where
  "pop_result e limits kinds s x s' \<longleftrightarrow>
     (case x of
        None \<Rightarrow> (\<exists>state. s' = snd (flushBlockedMetrics state s)) \<and>
          (\<forall>kind\<in>set kinds. pick_result e limits kind {..<3} s None s)
      | Some r \<Rightarrow> \<exists>before kind after. kinds = before @ kind # after \<and>
          pick_result e limits kind {..<3} s x s' \<and> (\<forall>k\<in>set before. pick_result e limits k {..<3} s None s))"

lemma popReadyKinds_spec:
  "popReadyKinds e limits kinds state s = (x, state', s') \<Longrightarrow> \<forall>p. normal_refs (s_ready s p) s \<Longrightarrow>
   known_sound limits state s \<Longrightarrow>
   known_sound limits state' s \<and> pop_result e limits kinds s x s'"
proof (induction kinds arbitrary: state)
  case Nil
  then show ?case by (auto simp: pop_result_def Let_def known_sound_def flushBlockedMetrics_def)
next
  case (Cons kind kinds)
  obtain x1 st1 s1 where one: "popReadyEligibleKind e limits kind state s = (x1, st1, s1)"
    by (metis prod_cases3)
  have r: "known_sound limits st1 s" "pick_result e limits kind {..<3} s x1 s1"
    using scanQueues_spec [OF one [unfolded popReadyEligibleKind_def]] Cons.prems
    by (simp_all add: lessThan_atLeast0)
  show ?case
  proof (cases x1)
    case None
    then have "s1 = s" using r by (simp add: pick_result_def)
    then have *: "known_sound limits state' s \<and> pop_result e limits kinds s x s'"
      using Cons.IH [of st1] Cons.prems one r None by simp
    show ?thesis
    proof (cases x)
      case None
      then show ?thesis using * r \<open>x1 = None\<close> \<open>s1 = s\<close> by (simp add: pop_result_def)
    next
      case (Some y)
      with * obtain before k after where "kinds = before @ k # after" "pick_result e limits k {..<3} s x s'"
          "\<forall>k\<in>set before. pick_result e limits k {..<3} s None s" by (auto simp: pop_result_def)
      then have "kind # kinds = (kind # before) @ k # after"
          "\<forall>k\<in>set (kind # before). pick_result e limits k {..<3} s None s" using r \<open>x1 = None\<close> \<open>s1 = s\<close> by simp_all
      then show ?thesis unfolding pop_result_def Some using * \<open>pick_result e limits k {..<3} s x s'\<close> Some
        by (simp only: option.case) blast
    qed
  next
    case (Some y)
    then have "x = Some y" "s' = s1" "state' = st1" using Cons.prems one by auto
    moreover have "kind # kinds = [] @ kind # kinds" by simp
    ultimately show ?thesis unfolding pop_result_def using r Some by fastforce
  qed
qed

lemma inv_normal:
  assumes "sched_inv us L s"
  shows "normal_refs (s_ready s p) s"
proof -
  have p: "place_inv us L s" by (rule place_of [OF assms])
  show ?thesis unfolding normal_refs_def
  proof
    fix x assume "x \<in> set (s_ready s p)"
    then have "x \<in> ran (s_items s)" using ready_in_refs [OF p] p by (auto simp: place_inv_def)
    then obtain k where "s_items s k = Some x" using ran_itemD by blast
    then show "normalizeTask (hi_task (s_mem s x)) = hi_task (s_mem s x)"
      using item_invD(2) [OF p] normalize_ok by blast
  qed
qed

lemma popReadyEligible_some:
  assumes inv: "sched_inv us L s" and pop: "popReadyEligible e limits state s = (Some r, state', s')"
    and k: "known_sound limits state s"
  shows "\<exists>p as bs. p < 3 \<and> s_ready s p = as @ r # bs \<and> s' = take_out p (as @ bs) r s"
    and "admissible e limits s r" and "known_sound limits state' s"
    and "pt_Kind (hi_task (s_mem s r)) \<noteq> TaskKindEssential \<Longrightarrow> p < 3 \<Longrightarrow> y \<in> set (s_ready s p) \<Longrightarrow>
      pt_Kind (hi_task (s_mem s y)) = TaskKindEssential \<Longrightarrow> \<not> admissible e limits s y"
proof -
  have spec: "known_sound limits state' s"
      "pop_result e limits [TaskKindEssential, TaskKindBootstrap, TaskKindNone] s (Some r) s'"
    using popReadyKinds_spec [OF pop [unfolded popReadyEligible_def]] inv_normal [OF inv] k by simp_all
  then show "known_sound limits state' s" by simp
  obtain before kind after where k: "[TaskKindEssential, TaskKindBootstrap, TaskKindNone] = before @ kind # after"
      "pick_result e limits kind {..<3} s (Some r) s'" "\<forall>k\<in>set before. pick_result e limits k {..<3} s None s"
    using spec(2) by (auto simp: pop_result_def)
  then obtain q where q: "q < 3" "scan_result e limits kind q [] (s_ready s q) s (Some r) s'"
    by (auto simp: pick_result_def)
  then show "\<exists>p as bs. p < 3 \<and> s_ready s p = as @ r # bs \<and> s' = take_out p (as @ bs) r s"
    "admissible e limits s r" by (auto simp: scan_result_def)
  assume y: "pt_Kind (hi_task (s_mem s r)) \<noteq> TaskKindEssential" "p < 3" "y \<in> set (s_ready s p)"
      "pt_Kind (hi_task (s_mem s y)) = TaskKindEssential"
  then have "TaskKindEssential \<in> set before"
    using k(1) q(2) by (cases before) (auto simp: scan_result_def kindSkipped_def)
  then have "pick_result e limits TaskKindEssential {..<3} s None s" using k(3) by blast
  then show "\<not> admissible e limits s y" using y by (auto simp: pick_result_def kindSkipped_def)
qed

lemma popReadyEligible_none:
  assumes inv: "sched_inv us L s" and pop: "popReadyEligible e limits state s = (None, state', s')"
    and k: "known_sound limits state s"
  shows "\<exists>st. s' = snd (flushBlockedMetrics st s)"
    and "p < 3 \<Longrightarrow> y \<in> set (s_ready s p) \<Longrightarrow> \<not> admissible e limits s y"
proof -
  have spec: "pop_result e limits [TaskKindEssential, TaskKindBootstrap, TaskKindNone] s None s'"
    using popReadyKinds_spec [OF pop [unfolded popReadyEligible_def]] inv_normal [OF inv] k by simp
  then show "\<exists>st. s' = snd (flushBlockedMetrics st s)" by (simp add: pop_result_def)
  assume "p < 3" "y \<in> set (s_ready s p)"
  then show "\<not> admissible e limits s y"
    using spec by (simp add: pop_result_def pick_result_def kindSkipped_def) (metis lessThan_iff)
qed

lemma dispatchBlock_cong:
  assumes "same_counts s t" and "s_inFlightBySite t = s_inFlightBySite s" "s_inFlightBySubnet t = s_inFlightBySubnet s"
    "s_inFlightByProfile t = s_inFlightByProfile s" "s_essentialBySite t = s_essentialBySite s"
    "s_essentialBySubnet t = s_essentialBySubnet s" "s_essentialByProfile t = s_essentialByProfile s"
  shows "dispatchBlockWithLimits e task limits t = dispatchBlockWithLimits e task limits s"
proof -
  have c: "s_inFlightByKind t = s_inFlightByKind s" "s_inFlightByClass t = s_inFlightByClass s"
    "s_inFlightByDevice t = s_inFlightByDevice s" "s_essentialByDevice t = s_essentialByDevice s"
    using assms(1) by (simp_all add: same_counts_def)
  show ?thesis unfolding dispatchBlockWithLimits_def computeIsolationBlock_def assms(2-) c ..
qed

lemma take_out_frame [simp]:
  "s_items (take_out p q r s) = s_items s" "s_heap (take_out p q r s) = s_heap s"
  "s_tasks (take_out p q r s) = s_tasks s" "s_tasksCap (take_out p q r s) = s_tasksCap s"
  "s_inFlight (take_out p q r s) = s_inFlight s" "s_runID (take_out p q r s) = s_runID s"
  "same_counts s (take_out p q r s)"
  "s_mem (take_out p q r s) x = (if x = r then (s_mem s r)\<lparr>hi_queued := False\<rparr> else s_mem s x)"
  by (simp_all add: take_out_def same_counts_def)

lemma take_out_block [simp]:
  "dispatchBlockWithLimits e task limits (take_out p q r s) = dispatchBlockWithLimits e task limits s"
  "known_sound limits state (take_out p q r s) = known_sound limits state s"
  "admissible e limits (take_out p q r s) x = admissible e limits s x"
proof -
  show *: "dispatchBlockWithLimits e task limits (take_out p q r s) = dispatchBlockWithLimits e task limits s" for task
    by (rule dispatchBlock_cong) (simp_all, simp_all add: take_out_def upd_def)
  show "known_sound limits state (take_out p q r s) = known_sound limits state s"
    by (simp add: take_out_def known_sound_def)
  show "admissible e limits (take_out p q r s) x = admissible e limits s x"
    by (cases "x = r") (simp_all add: admissible_def *)
qed

lemma take_out_inv:
  assumes "sched_inv us L s" and "p < 3" and "s_ready s p = as @ r # bs"
  shows "sched_inv us (insert r L) (take_out p (as @ bs) r s)"
  by (rule leave_inv(1) [OF assms(1) _ take_out_def]) (use assms(2,3) in \<open>auto simp: ready_minus_def fun_upd_def\<close>)

subsection \<open>The dispatch loop\<close>

text \<open>
  Room in the task channel: the channel never holds more tasks than are in flight, and the
  global limit never exceeds its capacity, so that the \<open>select\<close> of the loop never waits.
\<close>

definition room :: "dispatchLimits \<Rightarrow> Scheduler \<Rightarrow> bool" where
  "room limits s \<longleftrightarrow> int (length (s_tasks s)) \<le> s_inFlight s \<and> dl_globalLimit limits \<le> int (s_tasksCap s)"

lemma computeDispatchLimits_cap:
  "0 < s_tasksCap s \<Longrightarrow> dl_globalLimit (computeDispatchLimits e s) \<le> int (s_tasksCap s)"
  by (simp add: computeDispatchLimits_def bufferLimit_def Let_def)

lemma sendTask_frame [simp]:
  "s_items (sendTask e now r s) = s_items s" "s_heap (sendTask e now r s) = s_heap s"
  "s_tasks (sendTask e now r s) = s_tasks s @ [dispatchTask (s_mem s r) (s_runID s) now]"
  "s_tasksCap (sendTask e now r s) = s_tasksCap s" "s_runID (sendTask e now r s) = s_runID s"
  "s_inFlight (sendTask e now r s) = s_inFlight s + 1"
  by (simp_all add: sendTask_def Let_def incrementInFlight_def incrementIsolationCounts_def)

lemma sendTask_counts:
  "cget (s_inFlightByKind s) k \<le> cget (s_inFlightByKind (sendTask e now r s)) k"
  "cget (s_inFlightByClass s) v \<le> cget (s_inFlightByClass (sendTask e now r s)) v"
  by (simp_all add: sendTask_def Let_def incrementInFlight_def incrementIsolationCounts_def cget_upd)

lemma sendTask_sound: "known_sound limits state s \<Longrightarrow> known_sound limits state (sendTask e now r s)"
  unfolding known_sound_def using sendTask_counts by (meson order_trans)

lemma sendTask_room: "room limits s \<Longrightarrow> room limits (sendTask e now r s)"
  by (simp add: room_def)

text \<open>
  The loop as a sequence of atomic moves. Each takes a task out of its ready queue and drops,
  returns or sends it, or only counts metrics. A task that is sent was admissible, below the global
  limit, and found only when no essential task was admissible if it is not essential itself.
\<close>

inductive dispatch_move :: "SchedEnv \<Rightarrow> dispatchLimits \<Rightarrow> gotime \<Rightarrow> Scheduler \<Rightarrow> Scheduler \<Rightarrow> bool"
  for e limits now where
  flush: "dispatch_move e limits now s (snd (flushBlockedMetrics st s))"
| count: "dispatch_move e limits now s (recordBackpressure reason s)"
| discard: "p < 3 \<Longrightarrow> s_ready s p = as @ r # bs \<Longrightarrow> s_items s k = Some r \<Longrightarrow> hi_disabled (s_mem s r) \<Longrightarrow>
    dispatch_move e limits now s (deleteItem k (take_out p (as @ bs) r s))"
| giveback: "p < 3 \<Longrightarrow> s_ready s p = as @ r # bs \<Longrightarrow> s_items s k = Some r \<Longrightarrow>
    dispatch_move e limits now s (pushReadyFront r (take_out p (as @ bs) r s))"
| send: "p < 3 \<Longrightarrow> s_ready s p = as @ r # bs \<Longrightarrow> s_items s k = Some r \<Longrightarrow> \<not> hi_disabled (s_mem s r) \<Longrightarrow>
    admissible e limits s r \<Longrightarrow> s_inFlight s < dl_globalLimit limits \<Longrightarrow> length (s_tasks s) < s_tasksCap s \<Longrightarrow>
    \<forall>q<3. \<forall>y\<in>set (s_ready s q). pt_Kind (hi_task (s_mem s y)) = TaskKindEssential \<and> admissible e limits s y \<longrightarrow>
      pt_Kind (hi_task (s_mem s r)) = TaskKindEssential \<Longrightarrow>
    dispatch_move e limits now s (sendTask e now r (take_out p (as @ bs) r s))"

abbreviation dispatch_moves :: "SchedEnv \<Rightarrow> dispatchLimits \<Rightarrow> gotime \<Rightarrow> Scheduler \<Rightarrow> Scheduler \<Rightarrow> bool" where
  "dispatch_moves e limits now \<equiv> (dispatch_move e limits now)\<^sup>*\<^sup>*"

text \<open>What a run of the loop guarantees of its result.\<close>

definition loop_post :: "SchedEnv \<Rightarrow> dispatchLimits \<Rightarrow> gotime \<Rightarrow> Scheduler \<Rightarrow> StopReason \<Rightarrow> Scheduler \<Rightarrow> bool" where
  "loop_post e limits now s reason t \<longleftrightarrow> sched_inv (e_uuidString e) {} t \<and> dispatch_moves e limits now s t \<and>
     reason \<noteq> SendBlocked \<and> room limits t \<and>
     (reason = GlobalLimit \<longrightarrow> dl_globalLimit limits \<le> s_inFlight t) \<and>
     (reason = NoEligibleTask \<longrightarrow> (\<forall>p<3. \<forall>y\<in>set (s_ready t p). \<not> admissible e limits t y))"

lemma loop_post_move: "dispatch_move e limits now s u \<Longrightarrow> loop_post e limits now u reason t \<Longrightarrow> loop_post e limits now s reason t"
  unfolding loop_post_def by (blast intro: converse_rtranclp_into_rtranclp)

lemma dispatch_moves_flush: "dispatch_moves e limits now s (snd (flushBlockedMetrics st s))"
  by (rule r_into_rtranclp) (rule dispatch_move.flush)

lemma flush_block [simp]:
  "admissible e limits (snd (flushBlockedMetrics st s)) y = admissible e limits s y"
  "s_ready (snd (flushBlockedMetrics st s)) = s_ready s" "room limits (snd (flushBlockedMetrics st s)) = room limits s"
  "s_inFlight (snd (flushBlockedMetrics st s)) = s_inFlight s" "s_tasks (snd (flushBlockedMetrics st s)) = s_tasks s"
  "s_runID (snd (flushBlockedMetrics st s)) = s_runID s" "s_items (snd (flushBlockedMetrics st s)) = s_items s"
proof -
  have "dispatchBlockWithLimits e task limits (snd (flushBlockedMetrics st s)) = dispatchBlockWithLimits e task limits s" for task
    by (rule dispatchBlock_cong) (simp_all add: flushBlockedMetrics_def same_counts_def)
  then show "admissible e limits (snd (flushBlockedMetrics st s)) y = admissible e limits s y"
    by (simp add: admissible_def flushBlockedMetrics_def)
qed (simp_all add: flushBlockedMetrics_def room_def)

lemma recordBackpressure_frame [simp]:
  "s_tasks (recordBackpressure reason s) = s_tasks s" "s_tasksCap (recordBackpressure reason s) = s_tasksCap s"
  "s_inFlight (recordBackpressure reason s) = s_inFlight s" "s_runID (recordBackpressure reason s) = s_runID s"
  "s_items (recordBackpressure reason s) = s_items s" "s_ready (recordBackpressure reason s) = s_ready s"
  "room limits (recordBackpressure reason s) = room limits s"
  by (simp_all add: recordBackpressure_def scheduledVolatilityClasses_def IncSchedulerBackpressure_def room_def)

lemma pushReadyFront_frame [simp]:
  "s_tasks (pushReadyFront r s) = s_tasks s" "s_tasksCap (pushReadyFront r s) = s_tasksCap s"
  "s_inFlight (pushReadyFront r s) = s_inFlight s" "s_runID (pushReadyFront r s) = s_runID s"
  "s_items (pushReadyFront r s) = s_items s" "s_heap (pushReadyFront r s) = s_heap s"
  "room limits (pushReadyFront r s) = room limits s"
  by (simp_all add: pushReadyFront_def Let_def room_def)

lemma dispatchLoop_spec:
  assumes "sched_inv (e_uuidString e) {} s" and "known_sound limits state s" and "room limits s"
    and "dispatchLoop e limits ctxDone now n state s = (reason, t)"
  shows "loop_post e limits now s reason t"
  using assms
proof (induction e limits ctxDone now n state s rule: dispatchLoop.induct)
  case (1 e limits ctxDone now n state s)
  note step = "1.prems"(4) [unfolded dispatchLoop.simps [of e limits ctxDone now n state s]]
  note prems = "1.prems"(1-3)
  show ?case
  proof (cases "s_inFlight s \<ge> dl_globalLimit limits")
    case True
    have "dispatch_moves e limits now s (snd (flushBlockedMetrics state (recordBackpressure ''global_limit'' s)))"
      by (rule converse_rtranclp_into_rtranclp [OF dispatch_move.count dispatch_moves_flush])
    then show ?thesis using True step prems by (auto simp: loop_post_def)
  next
    case free: False
    obtain x state' s' where pop: "popReadyEligible e limits state s = (x, state', s')" by (metis prod_cases3)
    show ?thesis
    proof (cases x)
      case None
      note none = popReadyEligible_none [OF prems(1) pop [unfolded None] prems(2)]
      obtain st where s': "s' = snd (flushBlockedMetrics st s)" using none(1) by blast
      have "t = snd (flushBlockedMetrics state' s')" "reason = NoEligibleTask"
        using step free pop None by simp_all
      then show ?thesis using none(2) prems s'
          rtranclp_trans [OF dispatch_moves_flush [of e limits now s st] dispatch_moves_flush [of e limits now _ state']]
        by (simp add: loop_post_def)
    next
      case (Some r)
      note pop = pop [unfolded Some]
      note some = popReadyEligible_some [OF prems(1) pop prems(2)]
      obtain p as bs where p: "p < 3" "s_ready s p = as @ r # bs" "s' = take_out p (as @ bs) r s" using some(1) by blast
      have inv': "sched_inv (e_uuidString e) {r} s'" using take_out_inv [OF prems(1) p(1,2)] p(3) by simp
      have room': "room limits s'" "known_sound limits state' s'" using prems(3) some(3) p(3) by (simp_all add: room_def)
      note IH = "1.IH" [OF free pop [symmetric] refl refl]
      obtain k where k: "s_items s' k = Some r" using limbo_item(1) [OF inv', of r] by auto
      have ok: "task_ok k (hi_task (s_mem s' r))" by (rule item_invD(2) [OF place_of [OF inv'] k])
      have k': "s_items s k = Some r" using k p(3) by simp
      show ?thesis
      proof (cases "hi_disabled (s_mem s' r)")
        case True
        have "sched_inv (e_uuidString e) {} (deleteItem k s')" using deleteItem_inv [OF inv' k] by simp
        then have "loop_post e limits now (deleteItem k s') reason t"
          using IH(1) [OF True] room' step free pop True task_ok_Key [OF ok] by (simp add: room_def known_sound_def deleteItem_def)
        moreover have "dispatch_move e limits now s (deleteItem k s')"
          unfolding p(3) by (rule dispatch_move.discard [OF p(1,2) k']) (use True p(3) in simp)
        ultimately show ?thesis by (rule loop_post_move [rotated])
      next
        case on: False
        consider (stop) "ctxDone n" | (send) "\<not> ctxDone n" "length (s_tasks s') < s_tasksCap s'"
          | (full) "\<not> ctxDone n" "\<not> length (s_tasks s') < s_tasksCap s'" by blast
        then show ?thesis
        proof cases
          case stop
          then have "reason = ContextDone" "t = snd (flushBlockedMetrics state' (pushReadyFront r s'))"
            using step free pop on by simp_all
          moreover have "dispatch_move e limits now s (pushReadyFront r s')"
            unfolding p(3) by (rule dispatch_move.giveback [OF p(1,2) k'])
          ultimately show ?thesis using pushReadyFront_inv [OF inv'] room'
              converse_rtranclp_into_rtranclp [OF _ dispatch_moves_flush] by (simp add: loop_post_def)
        next
          case send
          then have "loop_post e limits now (sendTask e now r s') reason t"
            using IH(2) [OF on] step free pop on sendTask_inv [OF inv' _ refl] room' sendTask_sound sendTask_room by simp
          moreover have "dispatch_move e limits now s (sendTask e now r s')"
            unfolding p(3) by (rule dispatch_move.send [OF p(1,2) k']) (use send on some(2,4) p(3) free in auto)
          ultimately show ?thesis by (rule loop_post_move [rotated])
        next
          case full
          then show ?thesis using free p(3) prems(3) by (simp add: room_def)
        qed
      qed
    qed
  qed
qed

definition dispatch_post :: "SchedEnv \<Rightarrow> gotime \<Rightarrow> Scheduler \<Rightarrow> StopReason \<Rightarrow> Scheduler \<Rightarrow> bool" where
  "dispatch_post e now s reason t \<longleftrightarrow> reason \<noteq> SendBlocked \<and> sched_inv (e_uuidString e) {} t \<and>
     dispatch_moves e (computeDispatchLimits e s) now s t"

lemma emptyScanState_sound: "known_sound limits emptyScanState s"
  by (simp add: known_sound_def emptyScanState_def)

lemma dispatchReady_loop:
  assumes "sched_inv (e_uuidString e) {} s" and "room (computeDispatchLimits e s) s"
    and "dispatchReady e ctxDone now s = (reason, t)" and "reason \<noteq> QueuesEmpty"
  shows "loop_post e (computeDispatchLimits e s) now s reason t"
  using assms dispatchLoop_spec [OF assms(1) emptyScanState_sound assms(2)]
  by (auto simp: dispatchReady_def split: if_splits)

lemma dispatchReady_post:
  assumes "sched_inv (e_uuidString e) {} s" and "room (computeDispatchLimits e s) s"
    and "dispatchReady e ctxDone now s = (reason, t)"
  shows "dispatch_post e now s reason t"
proof (cases "readyQueuesEmpty s")
  case True
  then show ?thesis using assms by (auto simp: dispatchReady_def dispatch_post_def)
next
  case False
  then have "loop_post e (computeDispatchLimits e s) now s reason t"
    using assms(3) dispatchLoop_spec [OF assms(1) emptyScanState_sound assms(2)] by (simp add: dispatchReady_def)
  then show ?thesis by (simp add: loop_post_def dispatch_post_def)
qed

subsection \<open>What the moves of a dispatch cycle do\<close>

text \<open>The channels and flags no handler of the run loop touches, the task channel apart.\<close>

definition same_chans :: "Scheduler \<Rightarrow> Scheduler \<Rightarrow> bool" where
  "same_chans s t \<longleftrightarrow> s_tasksCap t = s_tasksCap s \<and> s_completions t = s_completions s \<and>
     s_completionsCap t = s_completionsCap s \<and> s_redueRequests t = s_redueRequests s \<and> s_redueCap t = s_redueCap s \<and>
     s_runID t = s_runID s \<and> s_running t = s_running s \<and> s_started t = s_started s"

lemma same_chans_refl [simp]: "same_chans s s"
  by (simp add: same_chans_def)

lemma same_chans_trans: "same_chans s t \<Longrightarrow> same_chans t u \<Longrightarrow> same_chans s u"
  by (simp add: same_chans_def)

lemma same_chans_step [simp]:
  "same_chans s (upd r f t) = same_chans s t" "same_chans s (setStore st t) = same_chans s t"
  "same_chans s (deleteItem k t) = same_chans s t" "same_chans s (putItem k r t) = same_chans s t"
  "same_chans s (snd (flushBlockedMetrics state t)) = same_chans s t"
  "same_chans s (IncSchedulerBackpressure v reason t) = same_chans s t"
  "same_chans s (enqueueReady r t) = same_chans s t" "same_chans s (pushReadyFront r t) = same_chans s t"
  "same_chans s (removeReadyItem r t) = same_chans s t" "same_chans s (take_out p q r t) = same_chans s t"
  "same_chans s (incrementInFlight e task t) = same_chans s t"
  "same_chans s (decrementInFlight e task t) = same_chans s t"
  "same_chans s (sendTask e now r t) = same_chans s t" "same_chans s (t\<lparr>s_inFlight := n\<rparr>) = same_chans s t"
  "same_chans s (t\<lparr>s_lastWarnings := ws, s_degradedRisk := b\<rparr>) = same_chans s t"
  by (simp_all add: same_chans_def setStore_def deleteItem_def putItem_def flushBlockedMetrics_def
      IncSchedulerBackpressure_def enqueueReady_def pushReadyFront_def removeReadyItem_def take_out_def
      incrementInFlight_def incrementIsolationCounts_def decrementInFlight_def decrementIsolationCounts_def
      sendTask_def Let_def split: option.splits)

lemma recordBackpressure_chans [simp]: "same_chans s (recordBackpressure reason t) = same_chans s t"
  by (simp add: recordBackpressure_def scheduledVolatilityClasses_def)

text \<open>The keys in flight with the run that sent them.\<close>

definition flights :: "Scheduler \<Rightarrow> (TaskKey \<times> 64 word) set" where
  "flights s = {(k, w). \<exists>r. s_items s k = Some r \<and> hi_inFlight (s_mem s r) \<and> hi_runID (s_mem s r) = w}"

lemma flying_flights: "flying s = fst ` flights s"
  by (force simp: flying_def flights_def)

lemma flights_cong:
  assumes "s_items t = s_items s"
    and "\<And>k r. s_items s k = Some r \<Longrightarrow> hi_inFlight (s_mem t r) = hi_inFlight (s_mem s r)"
    and "\<And>k r. s_items s k = Some r \<Longrightarrow> hi_runID (s_mem t r) = hi_runID (s_mem s r)"
  shows "flights t = flights s"
  using assms by (auto simp: flights_def)

lemma flights_upd:
  assumes p: "place_inv us L s" and k: "s_items s k = Some r"
    and t: "s_items t = s_items s" "s_mem t = s_mem (upd r f s)"
  shows "flights t = {x \<in> flights s. fst x \<noteq> k} \<union>
    (if hi_inFlight (f (s_mem s r)) then {(k, hi_runID (f (s_mem s r)))} else {})"
proof -
  have uniq: "y \<noteq> r" if "s_items s x = Some y" "x \<noteq> k" for x y using item_inj [OF p k] that by blast
  have "(x, w) \<in> flights t \<longleftrightarrow> (if x = k then hi_inFlight (f (s_mem s r)) \<and> w = hi_runID (f (s_mem s r)) else (x, w) \<in> flights s)" for x w
    using k uniq [of x] by (cases "x = k") (auto simp: flights_def t)
  then show ?thesis by (auto simp: set_eq_iff)
qed

text \<open>
  \<open>sent s t\<close>: the tasks sent between the two states are appended to the channel, carry the run of the
  scheduler, and are of pairwise distinct keys, none of which was in flight and all of which are now.
\<close>

abbreviation task_run :: "PollTask \<Rightarrow> TaskKey \<times> 64 word" where
  "task_run x \<equiv> (pt_Key x, pt_RunID x)"

definition sent :: "Scheduler \<Rightarrow> Scheduler \<Rightarrow> bool" where
  "sent s t \<longleftrightarrow> same_chans s t \<and> (\<exists>new. s_tasks t = s_tasks s @ new \<and> distinct (map pt_Key new) \<and>
     flights t = flights s \<union> task_run ` set new \<and> pt_Key ` set new \<inter> flying s = {} \<and>
     (\<forall>x\<in>set new. pt_RunID x = s_runID s))"

lemma sent_quiet:
  "same_chans s t \<Longrightarrow> s_tasks t = s_tasks s \<Longrightarrow> flights t = flights s \<Longrightarrow> sent s t"
  by (simp add: sent_def)

lemma sent_trans:
  assumes "sent s t" and "sent t u"
  shows "sent s u"
proof -
  from assms obtain a b where "s_tasks t = s_tasks s @ a" "distinct (map pt_Key a)"
      "flights t = flights s \<union> task_run ` set a" "pt_Key ` set a \<inter> flying s = {}" "\<forall>x\<in>set a. pt_RunID x = s_runID s"
      "s_tasks u = s_tasks t @ b" "distinct (map pt_Key b)"
      "flights u = flights t \<union> task_run ` set b" "pt_Key ` set b \<inter> flying t = {}" "\<forall>x\<in>set b. pt_RunID x = s_runID t"
      "same_chans s t" "same_chans t u"
    by (auto simp: sent_def)
  moreover from this have "flying t = flying s \<union> pt_Key ` set a"
    by (simp add: flying_flights image_Un image_image)
  ultimately show ?thesis unfolding sent_def
    by (intro conjI exI [of _ "a @ b"] same_chans_trans [of s t u]) (auto simp: same_chans_def)
qed

lemma flights_quiet [simp]:
  "flights (take_out p q r s) = flights s" "flights (snd (flushBlockedMetrics st s)) = flights s"
  "flights (recordBackpressure reason s) = flights s" "flights (IncSchedulerBackpressure v reason s) = flights s"
  "flights (pushReadyFront r s) = flights s" "flights (enqueueReady r s) = flights s"
  by (rule flights_cong; auto simp: flushBlockedMetrics_def recordBackpressure_def scheduledVolatilityClasses_def
      IncSchedulerBackpressure_def pushReadyFront_def enqueueReady_def Let_def)+

lemma dispatchTask_simps [simp]:
  "pt_Key (dispatchTask item w now) = pt_Key (hi_task item)" "pt_RunID (dispatchTask item w now) = w"
  "pt_Device (dispatchTask item w now) = pt_Device (hi_task item)"
  by (simp_all add: dispatchTask_def Let_def normalizeTask_def)

lemma move_inv:
  assumes "dispatch_move e limits now s t" and inv: "sched_inv (e_uuidString e) {} s"
  shows "sched_inv (e_uuidString e) {} t"
  using assms(1)
proof cases
  case (discard p as r bs k)
  then show ?thesis using deleteItem_inv [OF take_out_inv [OF inv], of p as r bs k] by simp
next
  case (giveback p as r bs k)
  then show ?thesis using pushReadyFront_inv [OF take_out_inv [OF inv], of p as r bs r] by simp
next
  case (send p as r bs k)
  then show ?thesis using sendTask_inv [OF take_out_inv [OF inv] _ refl, of p as r bs r now] by simp
qed (use inv in simp_all)

lemma sendTask_mem:
  "s_mem (sendTask e now r s) = s_mem (upd r (\<lambda>it. it\<lparr>hi_inFlight := True, hi_dispatchedAt := now,
     hi_runID := s_runID s, hi_task := dispatchTask (s_mem s r) (s_runID s) now\<rparr>) s)"
  by (simp add: sendTask_def Let_def upd_def)

lemma flights_sendTask:
  assumes "place_inv us L s" and "s_items s k = Some r" and "k \<notin> flying s"
  shows "flights (sendTask e now r s) = insert (k, s_runID s) (flights s)"
  using flights_upd [OF assms(1,2) sendTask_frame(1) sendTask_mem] assms(3) by (force simp: flying_flights)

lemma flights_delete:
  assumes "s_items s k = Some r" and "\<not> hi_inFlight (s_mem s r)"
  shows "flights (deleteItem k s) = flights s"
  using assms by (auto simp: flights_def split: if_splits)

lemma ready_not_flying:
  assumes inv: "sched_inv us L s" and r: "r \<in> set (s_ready s p)" and k: "s_items s k = Some r"
  shows "\<not> hi_inFlight (s_mem s r)"
proof -
  have p: "place_inv us L s" by (rule place_of [OF inv])
  have "hi_queued (s_mem s r)" using item_invD(3) [OF p k] ready_in_refs [OF p r] by simp
  then show ?thesis using item_invD(5) [OF p k] by (auto simp: places_def split: if_splits)
qed

lemma move_sent:
  assumes "dispatch_move e limits now s t" and inv: "sched_inv (e_uuidString e) {} s"
  shows "sent s t"
  using assms(1)
proof cases
  case (discard p as r bs k)
  then have "\<not> hi_inFlight (s_mem s r)" using ready_not_flying [OF inv, of r p k] by simp
  then show ?thesis using discard flights_delete [of "take_out p (as @ bs) r s" k r] by (intro sent_quiet) simp_all
next
  case (send p as r bs k)
  let ?u = "take_out p (as @ bs) r s"
  have nf: "k \<notin> flying s" using ready_not_flying [OF inv, of r p k] send by (auto simp: flying_def)
  have key: "pt_Key (hi_task (s_mem s r)) = k"
    using item_invD(2) [OF place_of [OF inv] send(4)] by (rule task_ok_Key)
  have p: "place_inv (e_uuidString e) {r} ?u"
    using take_out_inv [OF inv send(2,3)] place_of by blast
  have "flights t = insert (k, s_runID s) (flights s)"
    using flights_sendTask [OF p, of k r e now] send nf by (simp add: flying_flights)
  then show ?thesis using nf key send unfolding sent_def
    by (intro conjI exI [of _ "[dispatchTask (s_mem ?u r) (s_runID s) now]"]) simp_all
qed (simp_all add: sent_quiet)

lemma moves_sent:
  "dispatch_moves e limits now s t \<Longrightarrow> sched_inv (e_uuidString e) {} s \<Longrightarrow>
   sched_inv (e_uuidString e) {} t \<and> sent s t"
proof (induction rule: rtranclp_induct)
  case base
  then show ?case by (simp add: sent_quiet)
next
  case (step t u)
  then show ?case using move_inv move_sent sent_trans by blast
qed

text \<open>
  A cycle respects its limits: a counter it raises ends no higher than the limit in force. The
  limits per device, site, subnet and profile hold for the essential work and for the other work
  of the scope; the total of a scope limits only what is not essential. A limit per site presumes
  that no scheduled device lists an area twice, since such a device counts twice for it.
\<close>

definition scope_capped :: "int \<Rightarrow> (string \<rightharpoonup> int) \<Rightarrow> (string \<rightharpoonup> int) \<Rightarrow> (string \<rightharpoonup> int) \<Rightarrow> (string \<rightharpoonup> int) \<Rightarrow> bool" where
  "scope_capped limit ess work ess' work' \<longleftrightarrow>
     (0 < limit \<longrightarrow> (\<forall>x. x \<noteq> [] \<longrightarrow> cget ess' x \<le> max (cget ess x) limit \<and>
        cget work' x - cget ess' x \<le> max (cget work x - cget ess x) limit))"

definition siteKeys :: "SchedEnv \<Rightarrow> Device \<Rightarrow> string list" where
  "siteKeys e device = map (taskSiteKey (e_uuidString e)) (dev_AreaIDs device)"

definition sites_once :: "SchedEnv \<Rightarrow> Scheduler \<Rightarrow> bool" where
  "sites_once e s \<longleftrightarrow>
     (\<forall>k r x. s_items s k = Some r \<and> x \<noteq> [] \<longrightarrow> count_list (siteKeys e (pt_Device (hi_task (s_mem s r)))) x \<le> 1)"

definition capped :: "SchedEnv \<Rightarrow> dispatchLimits \<Rightarrow> Scheduler \<Rightarrow> Scheduler \<Rightarrow> bool" where
  "capped e limits s t \<longleftrightarrow>
     s_inFlight t \<le> max (s_inFlight s) (dl_globalLimit limits) \<and>
     cget (s_inFlightByKind t) TaskKindEssential \<le>
       max (cget (s_inFlightByKind s) TaskKindEssential) (dl_essentialLimit limits) \<and>
     (\<forall>v. cget (s_inFlightByClass t) v \<le> max (cget (s_inFlightByClass s) v) (cget (dl_budgets limits) v)) \<and>
     scope_capped (pol_MaxWorkersPerDevice (dl_policy limits))
       (s_essentialByDevice s) (s_inFlightByDevice s) (s_essentialByDevice t) (s_inFlightByDevice t) \<and>
     scope_capped (pol_MaxWorkersPerSubnet (dl_policy limits))
       (s_essentialBySubnet s) (s_inFlightBySubnet s) (s_essentialBySubnet t) (s_inFlightBySubnet t) \<and>
     scope_capped (pol_MaxInflightPerProfile (dl_policy limits))
       (s_essentialByProfile s) (s_inFlightByProfile s) (s_essentialByProfile t) (s_inFlightByProfile t) \<and>
     (sites_once e s \<longrightarrow> sites_once e t \<and>
        scope_capped (pol_MaxWorkersPerSite (dl_policy limits))
          (s_essentialBySite s) (s_inFlightBySite s) (s_essentialBySite t) (s_inFlightBySite t))"

lemma max_le_trans: "(b::int) \<le> max a l \<Longrightarrow> c \<le> max b l \<Longrightarrow> c \<le> max a l"
  by linarith

lemma scope_capped_refl [simp]: "scope_capped limit ess work ess work"
  by (simp add: scope_capped_def)

lemma scope_capped_trans:
  "scope_capped limit a b c d \<Longrightarrow> scope_capped limit c d f g \<Longrightarrow> scope_capped limit a b f g"
  unfolding scope_capped_def by (meson max_le_trans)

text \<open>One more task in a scope, below the limit that applies to it.\<close>

lemma scope_capped_step:
  assumes "\<And>x. x \<noteq> [] \<Longrightarrow> 0 \<le> cget ess x" and "\<And>x. x \<noteq> [] \<Longrightarrow> n x \<le> (1::nat)"
    and "\<And>x. x \<noteq> [] \<Longrightarrow> cget work' x = cget work x + int (n x)"
    and "\<And>x. x \<noteq> [] \<Longrightarrow> cget ess' x = cget ess x + (if essential then int (n x) else 0)"
    and "\<And>x. x \<noteq> [] \<Longrightarrow> 0 < limit \<Longrightarrow> 0 < n x \<Longrightarrow> cget (if essential then ess else work) x < limit"
  shows "scope_capped limit ess work ess' work'"
  unfolding scope_capped_def
proof (intro impI allI)
  fix x :: string assume l: "0 < limit" and x: "x \<noteq> []"
  note A = assms(1,3,4) [OF x]
  consider "n x = 0" | "n x = 1" using assms(2) [OF x] by linarith
  then show "cget ess' x \<le> max (cget ess x) limit \<and> cget work' x - cget ess' x \<le> max (cget work x - cget ess x) limit"
  proof cases
    case 1
    then show ?thesis using A by simp
  next
    case 2
    then show ?thesis using A assms(5) [OF x l] by (cases essential) auto
  qed
qed

definition same_devices :: "Scheduler \<Rightarrow> Scheduler \<Rightarrow> bool" where
  "same_devices s t \<longleftrightarrow> (\<forall>k r. s_items t k = Some r \<longrightarrow>
     s_items s k = Some r \<and> pt_Device (hi_task (s_mem t r)) = pt_Device (hi_task (s_mem s r)))"

lemma sites_once_same: "same_devices s t \<Longrightarrow> sites_once e s \<Longrightarrow> sites_once e t"
  unfolding sites_once_def same_devices_def by (metis (no_types, lifting))

lemma capped_quiet: "same_counts s t \<Longrightarrow> same_devices s t \<Longrightarrow> capped e limits s t"
  using sites_once_same by (auto simp: capped_def same_counts_def)

lemma capped_trans:
  assumes "capped e limits s t" and "capped e limits t u"
  shows "capped e limits s u"
  using assms unfolding capped_def by (meson max_le_trans scope_capped_trans)

lemma normalizeTask_device [simp]: "pt_Device (normalizeTask task) = pt_Device task"
  by (simp add: normalizeTask_def Let_def)

lemma task_keys_device:
  "pt_Device a = pt_Device b \<Longrightarrow> taskSubnetKey a = taskSubnetKey b" "pt_Device a = pt_Device b \<Longrightarrow> taskProfileKey a = taskProfileKey b"
  by (simp_all add: taskSubnetKey_def taskProfileKey_def)

lemma incrementCount_get: "x \<noteq> [] \<Longrightarrow> cget (incrementCount k m) x = cget m x + int (of_bool (k = x))"
  by (auto simp: incrementCount_def cget_upd)

text \<open>What a send adds to each counter.\<close>

lemma sendTask_deltas:
  assumes ok: "task_ok k (hi_task (s_mem s r))" and t: "t = sendTask e now r s"
  shows "cget (s_inFlightByKind t) TaskKindEssential =
      cget (s_inFlightByKind s) TaskKindEssential + (if essential_key k then 1 else 0)"
    and "cget (s_inFlightByClass t) v =
      cget (s_inFlightByClass s) v + (if \<not> essential_key k \<and> key_class k = v then 1 else 0)"
    and "s_inFlightByDevice t = incrementCount (e_uuidString e (tk_DeviceID k)) (s_inFlightByDevice s)"
    and "s_essentialByDevice t =
      (if essential_key k then incrementCount (e_uuidString e (tk_DeviceID k)) (s_essentialByDevice s) else s_essentialByDevice s)"
    and "s_inFlightBySite t = fold incrementCount (siteKeys e (pt_Device (hi_task (s_mem s r)))) (s_inFlightBySite s)"
    and "s_essentialBySite t =
      (if essential_key k then fold incrementCount (siteKeys e (pt_Device (hi_task (s_mem s r)))) (s_essentialBySite s) else s_essentialBySite s)"
    and "s_inFlightBySubnet t = incrementCount (taskSubnetKey (hi_task (s_mem s r))) (s_inFlightBySubnet s)"
    and "s_essentialBySubnet t =
      (if essential_key k then incrementCount (taskSubnetKey (hi_task (s_mem s r))) (s_essentialBySubnet s) else s_essentialBySubnet s)"
    and "s_inFlightByProfile t = incrementCount (taskProfileKey (hi_task (s_mem s r))) (s_inFlightByProfile s)"
    and "s_essentialByProfile t =
      (if essential_key k then incrementCount (taskProfileKey (hi_task (s_mem s r))) (s_essentialByProfile s) else s_essentialByProfile s)"
proof -
  define task where "task = dispatchTask (s_mem s r) (s_runID s) now"
  have okt: "task_ok k task" using ok by (simp add: task_def dispatchTask_ok)
  have dev: "pt_Device task = pt_Device (hi_task (s_mem s r))" by (simp add: task_def)
  note K = normalize_ok [OF okt] task_keys_device [OF dev] dev
  have kind: "pt_Kind task = TaskKindEssential \<longleftrightarrow> essential_key k" "dev_ID (pt_Device task) = tk_DeviceID k"
      "\<not> essential_key k \<Longrightarrow> pt_VolatilityClass task = key_class k"
    using okt by (auto simp: task_ok_def essential_key_def)
  note S = sendTask_def Let_def task_def [symmetric] incrementInFlight_def incrementIsolationCounts_def K kind(1,2)
  have d: "dev_ID (pt_Device (hi_task (s_mem s r))) = tk_DeviceID k" using kind(2) dev by simp
  show "cget (s_inFlightByKind t) TaskKindEssential =
      cget (s_inFlightByKind s) TaskKindEssential + (if essential_key k then 1 else 0)"
    "cget (s_inFlightByClass t) v =
      cget (s_inFlightByClass s) v + (if \<not> essential_key k \<and> key_class k = v then 1 else 0)"
    using kind(3) by (simp_all add: t S cget_upd)
  show "s_inFlightByDevice t = incrementCount (e_uuidString e (tk_DeviceID k)) (s_inFlightByDevice s)"
    "s_essentialByDevice t =
      (if essential_key k then incrementCount (e_uuidString e (tk_DeviceID k)) (s_essentialByDevice s) else s_essentialByDevice s)"
    by (simp_all add: t S d)
  show "s_inFlightBySite t = fold incrementCount (siteKeys e (pt_Device (hi_task (s_mem s r)))) (s_inFlightBySite s)"
    "s_essentialBySite t =
      (if essential_key k then fold incrementCount (siteKeys e (pt_Device (hi_task (s_mem s r)))) (s_essentialBySite s) else s_essentialBySite s)"
    "s_inFlightBySubnet t = incrementCount (taskSubnetKey (hi_task (s_mem s r))) (s_inFlightBySubnet s)"
    "s_essentialBySubnet t =
      (if essential_key k then incrementCount (taskSubnetKey (hi_task (s_mem s r))) (s_essentialBySubnet s) else s_essentialBySubnet s)"
    "s_inFlightByProfile t = incrementCount (taskProfileKey (hi_task (s_mem s r))) (s_inFlightByProfile s)"
    "s_essentialByProfile t =
      (if essential_key k then incrementCount (taskProfileKey (hi_task (s_mem s r))) (s_essentialByProfile s) else s_essentialByProfile s)"
    by (simp_all add: t S siteKeys_def)
qed

lemma admissible_free:
  assumes ok: "task_ok k (hi_task (s_mem s r))" and adm: "admissible e limits s r"
  shows "essential_key k \<Longrightarrow> cget (s_inFlightByKind s) TaskKindEssential < dl_essentialLimit limits"
    and "\<not> essential_key k \<Longrightarrow> cget (s_inFlightByClass s) (key_class k) < cget (dl_budgets limits) (key_class k)"
    and "0 < pol_MaxWorkersPerDevice (dl_policy limits) \<Longrightarrow> e_uuidString e (tk_DeviceID k) \<noteq> [] \<Longrightarrow>
      cget (if essential_key k then s_essentialByDevice s else s_inFlightByDevice s) (e_uuidString e (tk_DeviceID k))
        < pol_MaxWorkersPerDevice (dl_policy limits)"
    and "0 < pol_MaxWorkersPerSubnet (dl_policy limits) \<Longrightarrow> taskSubnetKey (hi_task (s_mem s r)) \<noteq> [] \<Longrightarrow>
      cget (if essential_key k then s_essentialBySubnet s else s_inFlightBySubnet s) (taskSubnetKey (hi_task (s_mem s r)))
        < pol_MaxWorkersPerSubnet (dl_policy limits)"
    and "0 < pol_MaxInflightPerProfile (dl_policy limits) \<Longrightarrow> taskProfileKey (hi_task (s_mem s r)) \<noteq> [] \<Longrightarrow>
      cget (if essential_key k then s_essentialByProfile s else s_inFlightByProfile s) (taskProfileKey (hi_task (s_mem s r)))
        < pol_MaxInflightPerProfile (dl_policy limits)"
    and "0 < pol_MaxWorkersPerSite (dl_policy limits) \<Longrightarrow> x \<noteq> [] \<Longrightarrow> x \<in> set (siteKeys e (pt_Device (hi_task (s_mem s r)))) \<Longrightarrow>
      cget (if essential_key k then s_essentialBySite s else s_inFlightBySite s) x < pol_MaxWorkersPerSite (dl_policy limits)"
  using adm ok normalize_ok [OF ok]
  by (auto simp: admissible_def dispatchBlockWithLimits_def computeIsolationBlock_def Let_def task_ok_def
      essential_key_def noBlock_def blockedSite_def siteKeys_def find_None_iff split: if_splits)

lemma card_nonneg: "count_inv us s \<Longrightarrow> d \<noteq> [] \<Longrightarrow> 0 \<le> cget (s_essentialByDevice s) d"
  by (simp add: count_inv_def)

lemma sendTask_capped:
  assumes inv: "sched_inv (e_uuidString e) L s" and k: "s_items s k = Some r"
    and adm: "admissible e limits s r" and free: "s_inFlight s < dl_globalLimit limits"
  shows "capped e limits s (sendTask e now r s)"
proof -
  let ?t = "sendTask e now r s" and ?task = "hi_task (s_mem s r)"
  have ok: "task_ok k ?task" by (rule item_invD(2) [OF place_of [OF inv] k])
  have ci: "count_inv (e_uuidString e) s" using inv by (simp add: sched_inv_def)
  then have nn: "0 \<le> cget (s_essentialBySite s) x" "0 \<le> cget (s_essentialBySubnet s) x" "0 \<le> cget (s_essentialByProfile s) x" for x
    by (simp_all add: count_inv_def scopes_nonneg_def)
  note D = sendTask_deltas [OF ok refl, of e now] and A = admissible_free [OF ok adm]
  have "scope_capped (pol_MaxWorkersPerDevice (dl_policy limits))
      (s_essentialByDevice s) (s_inFlightByDevice s) (s_essentialByDevice ?t) (s_inFlightByDevice ?t)"
    by (rule scope_capped_step [where essential = "essential_key k" and n = "\<lambda>x. of_bool (e_uuidString e (tk_DeviceID k) = x)"])
      (use card_nonneg [OF ci] A(3) in \<open>auto simp: D(3,4) incrementCount_get\<close>)
  moreover have "scope_capped (pol_MaxWorkersPerSubnet (dl_policy limits))
      (s_essentialBySubnet s) (s_inFlightBySubnet s) (s_essentialBySubnet ?t) (s_inFlightBySubnet ?t)"
    by (rule scope_capped_step [where essential = "essential_key k" and n = "\<lambda>x. of_bool (taskSubnetKey ?task = x)"])
      (use nn A(4) in \<open>auto simp: D(7,8) incrementCount_get\<close>)
  moreover have "scope_capped (pol_MaxInflightPerProfile (dl_policy limits))
      (s_essentialByProfile s) (s_inFlightByProfile s) (s_essentialByProfile ?t) (s_inFlightByProfile ?t)"
    by (rule scope_capped_step [where essential = "essential_key k" and n = "\<lambda>x. of_bool (taskProfileKey ?task = x)"])
      (use nn A(5) in \<open>auto simp: D(9,10) incrementCount_get\<close>)
  moreover have "scope_capped (pol_MaxWorkersPerSite (dl_policy limits))
      (s_essentialBySite s) (s_inFlightBySite s) (s_essentialBySite ?t) (s_inFlightBySite ?t)" if "sites_once e s"
  proof (rule scope_capped_step [where essential = "essential_key k" and n = "count_list (siteKeys e (pt_Device ?task))"])
    fix x :: string assume x: "x \<noteq> []" and l: "0 < pol_MaxWorkersPerSite (dl_policy limits)" and n: "0 < count_list (siteKeys e (pt_Device ?task)) x"
    have "x \<in> set (siteKeys e (pt_Device ?task))" using n count_notin by fastforce
    then show "cget (if essential_key k then s_essentialBySite s else s_inFlightBySite s) x < pol_MaxWorkersPerSite (dl_policy limits)"
      by (rule A(6) [OF l x])
  qed (use nn that k in \<open>auto simp: D(5,6) fold_incrementCount sites_once_def\<close>)
  moreover have "same_devices s ?t"
    by (auto simp: same_devices_def sendTask_def Let_def)
  ultimately show ?thesis
    unfolding capped_def using free A(1,2) sites_once_same by (auto simp: D(1,2))
qed

lemma move_capped:
  assumes "dispatch_move e limits now s t" and inv: "sched_inv (e_uuidString e) {} s"
  shows "capped e limits s t"
  using assms(1)
proof cases
  case (discard p as r bs k)
  then show ?thesis by (intro capped_quiet) (auto simp: same_counts_def same_devices_def deleteItem_def take_out_def split: if_splits)
next
  case (giveback p as r bs k)
  then show ?thesis by (intro capped_quiet) (auto simp: same_counts_def same_devices_def pushReadyFront_def Let_def take_out_def)
next
  case (send p as r bs k)
  let ?u = "take_out p (as @ bs) r s"
  have "capped e limits ?u t"
    unfolding send(1) by (rule sendTask_capped [OF take_out_inv [OF inv send(2,3)]]) (use send in simp_all)
  moreover have "capped e limits s ?u" by (rule capped_quiet [OF take_out_frame(7)]) (simp add: same_devices_def)
  ultimately show ?thesis using capped_trans by blast
qed (auto intro!: capped_quiet simp: same_counts_def same_devices_def flushBlockedMetrics_def recordBackpressure_def
    scheduledVolatilityClasses_def IncSchedulerBackpressure_def)

lemma moves_capped:
  "dispatch_moves e limits now s t \<Longrightarrow> sched_inv (e_uuidString e) {} s \<Longrightarrow> capped e limits s t"
proof (induction rule: rtranclp_induct)
  case base
  then show ?case by (simp add: capped_quiet same_counts_def same_devices_def)
next
  case (step t u)
  then show ?case using moves_sent move_capped capped_trans by blast
qed

end
