(* ===== verification/Scheduler_Handlers.thy ===== *)
theory Scheduler_Handlers
  imports Scheduler_Dispatch
begin

text \<open>
  The handlers of the scheduler keep the invariant: due work, recurring scheduling, cadence
  changes, refresh, removal and completions. All but the completions also leave the channels and the
  set of items in flight unchanged (\<open>keeps\<close>).
\<close>

subsection \<open>Operations that keep the invariant and the flights\<close>

text \<open>
  An operation that \<open>keeps\<close> the invariant also leaves the channels and the set of items in flight
  as they are.
\<close>

definition calm :: "Scheduler \<Rightarrow> Scheduler \<Rightarrow> bool" where
  "calm s t \<longleftrightarrow> same_chans s t \<and> s_tasks t = s_tasks s \<and> flights t = flights s"

definition keeps :: "(uuid \<Rightarrow> string) \<Rightarrow> Scheduler \<Rightarrow> Scheduler \<Rightarrow> bool" where
  "keeps us s t \<longleftrightarrow> (sched_inv us {} s \<longrightarrow> sched_inv us {} t \<and> calm s t)"

lemma keepsI: "(sched_inv us {} s \<Longrightarrow> sched_inv us {} t) \<Longrightarrow> (sched_inv us {} s \<Longrightarrow> calm s t) \<Longrightarrow> keeps us s t"
  by (simp add: keeps_def)

lemma calm_refl [simp]: "calm s s"
  by (simp add: calm_def)

lemma calm_trans: "calm s t \<Longrightarrow> calm t u \<Longrightarrow> calm s u"
  using same_chans_trans by (auto simp: calm_def)

lemma keeps_refl [simp]: "keeps us s s"
  by (simp add: keeps_def)

lemma keeps_trans: "keeps us s t \<Longrightarrow> keeps us t u \<Longrightarrow> keeps us s u"
  unfolding keeps_def using calm_trans by blast

lemma keeps_fold: "(\<And>x s. x \<in> set xs \<Longrightarrow> keeps us s (f x s)) \<Longrightarrow> keeps us s (fold f xs s)"
proof (induction xs arbitrary: s)
  case (Cons x xs)
  have "keeps us s (f x s)" "keeps us (f x s) (fold f xs (f x s))" using Cons by simp_all
  then show ?case using keeps_trans by simp
qed simp

text \<open>The heap operations change nothing of an item but its position.\<close>

lemma heap_steps_mem:
  assumes "place_inv us L s"
  shows "s_items s k = Some r \<Longrightarrow> r \<notin> set (s_heap s) \<Longrightarrow>
      (s_mem (pushHeap us r s) x)\<lparr>hi_index := 0\<rparr> = (s_mem s x)\<lparr>hi_index := 0\<rparr>"
    and "r \<in> set (s_heap s) \<Longrightarrow>
      (s_mem (removeHeap us (hi_index (s_mem s r)) s) x)\<lparr>hi_index := 0\<rparr> = (s_mem s x)\<lparr>hi_index := 0\<rparr>"
    and "s_heap s \<noteq> [] \<Longrightarrow>
      (s_mem (snd (popHeap us s)) x)\<lparr>hi_index := 0\<rparr> = (s_mem s x)\<lparr>hi_index := 0\<rparr>"
proof -
  have wf: "heap_wf us (s_mem s, s_heap s)" using assms by (simp add: place_inv_def)
  show "s_items s k = Some r \<Longrightarrow> r \<notin> set (s_heap s) \<Longrightarrow>
      (s_mem (pushHeap us r s) x)\<lparr>hi_index := 0\<rparr> = (s_mem s x)\<lparr>hi_index := 0\<rparr>"
    using shapeD(3) [OF heapPush_wf(2) [OF wf]] by (simp add: pushHeap_def)
  show "(s_mem (removeHeap us (hi_index (s_mem s r)) s) x)\<lparr>hi_index := 0\<rparr> = (s_mem s x)\<lparr>hi_index := 0\<rparr>"
    if "r \<in> set (s_heap s)"
    using heapRemove_wf(3) [OF wf] index_of_item(2) [OF wf that] by (simp add: removeHeap_def removed_def)
  show "s_heap s \<noteq> [] \<Longrightarrow>
      (s_mem (snd (popHeap us s)) x)\<lparr>hi_index := 0\<rparr> = (s_mem s x)\<lparr>hi_index := 0\<rparr>"
    using heapPop_wf(3) [OF wf] by (simp add: popHeap_def Let_def removed_def)
qed

lemma flights_store:
  assumes "\<And>x. (s_mem t x)\<lparr>hi_index := 0\<rparr> = (s_mem s x)\<lparr>hi_index := 0\<rparr>" and "s_items t = s_items s"
  shows "flights t = flights s"
  by (rule flights_cong [OF assms(2)]) (use same_item [OF assms(1)] in auto)

lemma heap_steps_frame [simp]:
  "s_items (pushHeap us r s) = s_items s" "s_items (removeHeap us i s) = s_items s"
  "s_items (fixHeap us i s) = s_items s" "s_items (snd (popHeap us s)) = s_items s"
  "s_tasks (pushHeap us r s) = s_tasks s" "s_tasks (removeHeap us i s) = s_tasks s"
  "s_tasks (fixHeap us i s) = s_tasks s" "s_tasks (snd (popHeap us s)) = s_tasks s"
  "same_chans u (pushHeap us r s) = same_chans u s" "same_chans u (removeHeap us i s) = same_chans u s"
  "same_chans u (fixHeap us i s) = same_chans u s" "same_chans u (snd (popHeap us s)) = same_chans u s"
  by (simp_all add: pushHeap_def removeHeap_def fixHeap_def popHeap_def Let_def)

lemma ready_steps_frame [simp]:
  "s_items (enqueueReady r s) = s_items s" "s_tasks (enqueueReady r s) = s_tasks s"
  "s_tasks (removeReadyItem r s) = s_tasks s" "s_items (removeReadyItem r s) = s_items s"
  "s_tasks (IncSchedulerBackpressure v reason s) = s_tasks s" "s_items (IncSchedulerBackpressure v reason s) = s_items s"
  by (simp_all add: enqueueReady_def removeReadyItem_def IncSchedulerBackpressure_def Let_def split: option.splits)

lemma calm_payload:
  assumes "hi_inFlight (f (s_mem s r)) = hi_inFlight (s_mem s r)" "hi_runID (f (s_mem s r)) = hi_runID (s_mem s r)"
  shows "calm s (upd r f s)"
proof -
  have "flights (upd r f s) = flights s" by (rule flights_cong) (use assms in auto)
  then show ?thesis by (simp add: calm_def)
qed

lemma calm_ready [simp]:
  "calm s (IncSchedulerBackpressure v reason t) = calm s t" "calm s (enqueueReady r t) = calm s t"
  "calm s (pushReadyFront r t) = calm s t" "calm s (t\<lparr>s_lastWarnings := ws, s_degradedRisk := b\<rparr>) = calm s t"
proof -
  have "flights (t\<lparr>s_lastWarnings := ws, s_degradedRisk := b\<rparr>) = flights t" by (rule flights_cong) simp_all
  then show "calm s (t\<lparr>s_lastWarnings := ws, s_degradedRisk := b\<rparr>) = calm s t" by (simp add: calm_def)
qed (simp_all add: calm_def)

lemma calm_removeReady [simp]: "calm s (removeReadyItem r t) = calm s t"
proof -
  have "flights (removeReadyItem r t) = flights t"
    by (rule flights_cong) (auto simp: removeReadyItem_def split: option.splits)
  then show ?thesis by (simp add: calm_def)
qed

lemma calm_delete:
  "calm s t \<Longrightarrow> s_items t k = Some r \<Longrightarrow> \<not> hi_inFlight (s_mem t r) \<Longrightarrow> calm s (deleteItem k t)"
  by (simp add: calm_def flights_delete)

lemma calm_heap:
  assumes "calm s t" and "place_inv us L t"
  shows "s_items t k = Some r \<Longrightarrow> r \<notin> set (s_heap t) \<Longrightarrow> calm s (pushHeap us r t)"
    and "r \<in> set (s_heap t) \<Longrightarrow> calm s (removeHeap us (hi_index (s_mem t r)) t)"
    and "s_heap t \<noteq> [] \<Longrightarrow> calm s (snd (popHeap us t))"
  using assms flights_store [OF heap_steps_mem(1) [OF assms(2)]] flights_store [OF heap_steps_mem(2) [OF assms(2)]]
    flights_store [OF heap_steps_mem(3) [OF assms(2)]] by (simp_all add: calm_def)

subsection \<open>Due work\<close>

lemma markSkippedWindow_keeps:
  assumes k: "s_items s k = Some r"
  shows "keeps us s (markSkippedWindow r s)"
proof (rule keepsI)
  let ?f = "\<lambda>it. it\<lparr>hi_pending := True, hi_skippedWindows := hi_skippedWindows it + 1\<rparr>"
  assume inv: "sched_inv us {} s"
  have "sched_inv us {} (upd r ?f s)"
    by (rule payload_inv [OF inv k]) (use item_invD(2) [OF place_of [OF inv] k] in simp_all)
  then show "sched_inv us {} (markSkippedWindow r s)" using inv by (simp add: markSkippedWindow_def)
  show "calm s (markSkippedWindow r s)" using calm_payload [of ?f s r] by (simp add: markSkippedWindow_def)
qed

lemma markElapsedItem_keeps: "keeps us s (markElapsedItem now key s)"
  using markSkippedWindow_keeps by (auto simp: markElapsedItem_def Let_def split: option.splits)

lemma markElapsed_keeps: "keeps us s (markElapsedInFlightWindows e now s)"
  by (simp add: markElapsedInFlightWindows_def keeps_fold markElapsedItem_keeps)

lemma drainDue_step:
  assumes inv: "sched_inv us {} s" and ne: "s_heap s \<noteq> []"
    and due: "\<not> tAfter (hi_dueAt (s_mem s (s_heap s ! 0))) now"
  shows "\<exists>u. drainDue us now s = drainDue us now u \<and> sched_inv us {} u \<and> calm s u \<and>
    length (s_heap u) < length (s_heap s)"
proof -
  obtain r t where pop: "popHeap us s = (r, t)" by fastforce
  note P = popHeap_inv [OF inv ne pop]
  obtain k where k: "s_items t k = Some r" using P(3,4) by auto
  have inv': "sched_inv us {r} t" using P(2) by simp
  note L = limbo_item [OF inv', of r, simplified]
  have key: "pt_Key (hi_task (s_mem t r)) = k" using item_invD(2) [OF place_of [OF inv'] k] by (rule task_ok_Key)
  have c: "calm s t" using calm_heap(3) [of s s us "{}"] place_of [OF inv] ne pop by simp
  let ?u = "if hi_disabled (s_mem t r) then deleteItem k t else enqueueReady r t"
  have "drainDue us now s = drainDue us now ?u"
    using ne due pop L key by (simp add: drainDue.simps [of us now s] Let_def)
  moreover have "sched_inv us {} ?u" using deleteItem_inv [OF inv' k] enqueueReady_inv [OF inv', of r] by simp
  moreover have "calm s ?u" using c calm_delete [OF c k] L by simp
  moreover have "length (s_heap ?u) < length (s_heap s)" using popHeap_shorter [OF ne pop [symmetric]] by simp
  ultimately show ?thesis by blast
qed

lemma drainDue_spec:
  assumes "sched_inv us {} s"
  shows "sched_inv us {} (drainDue us now s) \<and> calm s (drainDue us now s) \<and>
    (\<forall>x\<in>set (s_heap (drainDue us now s)). tAfter (hi_dueAt (s_mem (drainDue us now s) x)) now)"
  using assms
proof (induction "length (s_heap s)" arbitrary: s rule: less_induct)
  case less
  show ?case
  proof (cases "s_heap s = [] \<or> tAfter (hi_dueAt (s_mem s (s_heap s ! 0))) now")
    case True
    then have "drainDue us now s = s" by (auto simp: drainDue.simps [of us now s])
    moreover have "tAfter (hi_dueAt (s_mem s x)) now" if "x \<in> set (s_heap s)" for x
      using True that heap_root_due [of us "(s_mem s, s_heap s)" x] place_of [OF less.prems]
      by (auto simp: place_inv_def tAfter_def tBefore_def)
    ultimately show ?thesis using less.prems by simp
  next
    case False
    then obtain u where u: "drainDue us now s = drainDue us now u" "sched_inv us {} u" "calm s u"
        "length (s_heap u) < length (s_heap s)" using drainDue_step [OF less.prems] by blast
    then show ?thesis using less.hyps [OF u(4,2)] calm_trans [OF u(3)] by simp
  qed
qed

lemma moveDue_keeps: "keeps (e_uuidString e) s (moveDueTasksToReady e now s)"
  using markElapsed_keeps [of "e_uuidString e" s e now] drainDue_spec [of "e_uuidString e" _ now]
  by (auto simp: moveDueTasksToReady_def keeps_def intro: calm_trans)

subsection \<open>Scheduling and re-scheduling an item\<close>

definition fits :: "TaskKey \<Rightarrow> TaskKind \<Rightarrow> Lane \<Rightarrow> VolatilityClass \<Rightarrow> Device \<Rightarrow> bool" where
  "fits key kind lane volatility device \<longleftrightarrow> key_ok key \<and> kind = tk_Kind key \<and> lane = key_lane key \<and>
     volatility = key_class key \<and> dev_ID device = tk_DeviceID key"

lemma fits_keys [simp]:
  "fits (NewBootstrapTaskKey (dev_ID device)) TaskKindBootstrap LaneBootstrap VolatilityClassStatic device"
  "fits (NewEssentialTaskKey (dev_ID device)) TaskKindEssential LaneEssential VolatilityClassNone device"
  "v \<noteq> VolatilityClassNone \<Longrightarrow> fits (NewBackgroundTaskKey (dev_ID device) v) TaskKindBackground LaneBackground v device"
  "v \<noteq> VolatilityClassNone \<Longrightarrow> fits (NewTaskKey (dev_ID device) v) TaskKindBackground LaneBackground v device"
  by (simp_all add: fits_def key_ok_def key_lane_def key_class_def NewBootstrapTaskKey_def NewEssentialTaskKey_def
      NewTaskKey_def NewBackgroundTaskKey_def)

lemma fits_task: "fits key kind lane volatility device \<Longrightarrow> task_ok key (newTask key kind lane device volatility interval dueAt)"
  by (simp add: fits_def task_ok_def newTask_def)

lemma applySchedule_ok:
  assumes "fits key kind lane volatility device"
  shows "task_ok key (hi_task (applySchedule key kind lane volatility device dueAt interval it))"
    and "hi_queued (applySchedule key kind lane volatility device dueAt interval it) = hi_queued it"
    and "hi_inFlight (applySchedule key kind lane volatility device dueAt interval it) = hi_inFlight it"
    and "hi_index (applySchedule key kind lane volatility device dueAt interval it) = hi_index it"
    and "hi_runID (applySchedule key kind lane volatility device dueAt interval it) = hi_runID it"
    and "hi_dueAt (applySchedule key kind lane volatility device dueAt interval it) = dueAt"
  using assms by (simp_all add: applySchedule_def fits_def task_ok_def)

lemma not_in_heap:
  assumes "sched_inv us L s" and "s_items s k = Some r" and "hi_inFlight (s_mem s r) \<or> hi_queued (s_mem s r)"
  shows "r \<notin> set (s_heap s)"
  using item_invD(5) [OF place_of [OF assms(1)] assms(2)] assms(3) by (auto simp: places_def split: if_splits)

lemma payload_keeps:
  assumes k: "s_items s k = Some r" and ok: "task_ok k (hi_task (f (s_mem s r)))"
    and same: "hi_queued (f (s_mem s r)) = hi_queued (s_mem s r)" "hi_inFlight (f (s_mem s r)) = hi_inFlight (s_mem s r)"
      "hi_index (f (s_mem s r)) = hi_index (s_mem s r)" "hi_runID (f (s_mem s r)) = hi_runID (s_mem s r)"
    and due: "r \<in> set (s_heap s) \<Longrightarrow> hi_dueAt (f (s_mem s r)) = hi_dueAt (s_mem s r)"
  shows "keeps us s (upd r f s)"
proof (rule keepsI)
  show "sched_inv us {} (upd r f s)" if "sched_inv us {} s"
    by (rule payload_inv [OF that k]) (use ok same due in auto)
  show "calm s (upd r f s)" by (rule calm_payload) (use same in auto)
qed

lemma fresh_keeps:
  assumes k: "s_items s k = None" and a: "allocItem it s = (r, s')" and ok: "task_ok k (hi_task it)"
    and it: "\<not> hi_queued it" "\<not> hi_inFlight it" "hi_index it = -1"
  shows "keeps us s (pushHeap us r (putItem k r s'))" and "keeps us s (pushReadyFront r (putItem k r s'))"
proof -
  let ?t = "putItem k r s'"
  have c: "calm s ?t" if inv: "sched_inv us {} s"
  proof -
    have "s_items s j \<noteq> Some (s_next s)" for j
      using item_invD(1) [OF place_of [OF inv], of j "s_next s"] by auto
    then have "flights ?t = flights s" using a k it(2) by (auto simp: flights_def allocItem_def putItem_def split: if_splits)
    then show ?thesis using a by (auto simp: calm_def allocItem_def same_chans_def putItem_def)
  qed
  have new: "sched_inv us {r} ?t" if "sched_inv us {} s" using newItem_inv [OF that k a ok it] by simp
  show "keeps us s (pushHeap us r ?t)"
  proof (rule keepsI)
    assume inv: "sched_inv us {} s"
    show "sched_inv us {} (pushHeap us r ?t)" using pushHeap_inv [OF new [OF inv], of r] by simp
    show "calm s (pushHeap us r ?t)"
      using calm_heap(1) [OF c [OF inv] place_of [OF new [OF inv]], of k r] limbo_item(2) [OF new [OF inv], of r] by simp
  qed
  show "keeps us s (pushReadyFront r ?t)"
  proof (rule keepsI)
    assume inv: "sched_inv us {} s"
    show "sched_inv us {} (pushReadyFront r ?t)" using pushReadyFront_inv [OF new [OF inv], of r] by simp
    show "calm s (pushReadyFront r ?t)" using c [OF inv] by simp
  qed
qed

lemma putItem_pushHeap: "putItem k r (pushHeap us r s) = pushHeap us r (putItem k r s)"
  by (simp add: putItem_def pushHeap_def setStore_def)

lemma newHeapItem_simps [simp]:
  "hi_task (newHeapItem task dueAt interval) = task" "hi_dueAt (newHeapItem task dueAt interval) = dueAt"
  "\<not> hi_queued (newHeapItem task dueAt interval)" "\<not> hi_inFlight (newHeapItem task dueAt interval)"
  "hi_index (newHeapItem task dueAt interval) = -1"
  by (simp_all add: newHeapItem_def)

lemma upsert_keeps:
  assumes f: "fits key kind lane volatility device"
  shows "keeps (e_uuidString e) s (upsertScheduledItem e device key kind lane volatility interval now s)"
proof (cases "s_items s key")
  case None
  then show ?thesis
    using fresh_keeps(1) [OF None _ _ newHeapItem_simps(3-5)] fits_task [OF f]
    by (auto simp: upsertScheduledItem_def Let_def putItem_pushHeap split: prod.split)
next
  case (Some r)
  show ?thesis
    unfolding upsertScheduledItem_def Some option.case
    by (rule payload_keeps [OF Some]) (use f in \<open>simp_all add: fits_def task_ok_def\<close>)
qed

lemma fixHeap_mem:
  assumes p: "place_inv us L s" and k: "s_items s k = Some r" and h: "r \<in> set (s_heap s)"
    and i: "hi_index (f (s_mem s r)) = hi_index (s_mem s r)"
  shows "(s_mem (fixHeap us (hi_index (s_mem s r)) (upd r f s)) x)\<lparr>hi_index := 0\<rparr> = (s_mem (upd r f s) x)\<lparr>hi_index := 0\<rparr>"
proof -
  have wf: "heap_wf us (s_mem s, s_heap s)" using p by (simp add: place_inv_def)
  note ix = index_of_item [OF wf h]
  have "shape (s_mem (upd r f s)) (set (s_heap s)) (heapFix us (nat (hi_index (s_mem s r))) (s_mem (upd r f s), s_heap s))"
    using heapFix_wf(2) [OF wf _ _ refl, of "nat (hi_index (s_mem s r))" r "f (s_mem s r)"] ix i
    by (simp add: upd_def)
  then show ?thesis using shapeD(3) by (simp add: fixHeap_def)
qed

lemma replaceItem_keeps:
  assumes k: "s_items s k = Some r" and ok: "task_ok k (hi_task (f (s_mem s r)))"
    and same: "hi_queued (f (s_mem s r)) = hi_queued (s_mem s r)" "hi_inFlight (f (s_mem s r)) = hi_inFlight (s_mem s r)"
      "hi_index (f (s_mem s r)) = hi_index (s_mem s r)" "hi_runID (f (s_mem s r)) = hi_runID (s_mem s r)"
  shows "keeps us s (replaceItem us r (upd r f s))"
proof (rule keepsI)
  let ?t = "upd r f s"
  assume inv: "sched_inv us {} s"
  have kt: "s_items ?t k = Some r" using k by simp
  note p = place_of [OF inv]
  have one: "places s r = 1" using item_invD(5) [OF p k] by simp
  have c: "calm s ?t" by (rule calm_payload) (use same in auto)
  consider (fly) "hi_inFlight (s_mem s r)" | (queue) "\<not> hi_inFlight (s_mem s r)" "hi_queued (s_mem s r)"
    | (heap) "\<not> hi_inFlight (s_mem s r)" "\<not> hi_queued (s_mem s r)" "r \<in> set (s_heap s)"
    using one by (auto simp: places_def split: if_splits)
  then have "sched_inv us {} (replaceItem us r ?t) \<and> calm s (replaceItem us r ?t)"
  proof cases
    case fly
    have "replaceItem us r ?t = upd r (\<lambda>it. (f it)\<lparr>hi_pending := True, hi_immediateRerun := True\<rparr>) s"
      using fly same by (simp add: replaceItem_def upd_upd)
    moreover have "keeps us s (upd r (\<lambda>it. (f it)\<lparr>hi_pending := True, hi_immediateRerun := True\<rparr>) s)"
      by (rule payload_keeps [OF k]) (use ok same not_in_heap [OF inv k] fly in auto)
    ultimately show ?thesis using inv by (simp add: keeps_def)
  next
    case queue
    have inv': "sched_inv us {} ?t"
      by (rule payload_inv [OF inv k]) (use ok same not_in_heap [OF inv k] queue in auto)
    have q: "hi_queued (s_mem ?t r)" using queue same by simp
    have "replaceItem us r ?t = pushReadyFront r (removeReadyItem r ?t)"
      using queue same by (simp add: replaceItem_def)
    then show ?thesis using pushReadyFront_inv [OF removeReadyItem_inv(1) [OF inv' kt q], of r] c by simp
  next
    case heap
    have "replaceItem us r ?t = fixHeap us (hi_index (s_mem ?t r)) ?t"
      using heap same in_heap_iff [OF p k] by (simp add: replaceItem_def)
    moreover have "flights (fixHeap us (hi_index (s_mem ?t r)) ?t) = flights ?t"
      by (rule flights_store) (use fixHeap_mem [OF p k heap(3), of f] same in simp_all)
    ultimately show ?thesis using fixHeap_inv [where f = f, OF inv k heap(3) ok same(1-3)] c by (simp add: calm_def)
  qed
  then show "sched_inv us {} (replaceItem us r ?t)" "calm s (replaceItem us r ?t)" by simp_all
qed

lemma scheduleBootstrapItem_keeps: "keeps (e_uuidString e) s (scheduleBootstrapItem e device dueAt s)"
proof (cases "s_items s (NewBootstrapTaskKey (dev_ID device))")
  case None
  then show ?thesis
    using fresh_keeps(2) [OF None _ _ newHeapItem_simps(3-5)] fits_task [OF fits_keys(1)]
    by (auto simp: scheduleBootstrapItem_def Let_def split: prod.split)
next
  case (Some r)
  then show ?thesis
    using replaceItem_keeps [OF Some] by (simp add: scheduleBootstrapItem_def applyBootstrapSchedule_def applySchedule_ok)
qed

lemma scheduled_classes: "v \<in> set (scheduledBackgroundVolatilityClassesForDevice device) \<Longrightarrow> v \<noteq> VolatilityClassNone"
  by (auto simp: scheduledBackgroundVolatilityClassesForDevice_def scheduledVolatilityClasses_def split: if_splits)

lemma applyBootstrap_keeps:
  assumes "s_items s (NewBootstrapTaskKey (dev_ID device)) = Some r"
  shows "keeps us s (applyBootstrapSchedule r device (hi_dueAt (s_mem s r)) interval s)"
  unfolding applyBootstrapSchedule_def
  by (rule payload_keeps [OF assms]) (simp_all add: applySchedule_ok)

lemma scheduleRecurring_keeps: "keeps (e_uuidString e) s (scheduleRecurringDeviceLocked e device now s)"
proof -
  let ?us = "e_uuidString e"
  define s1 where "s1 = (if shouldScheduleEssentialTask device
               then upsertScheduledItem e device (NewEssentialTaskKey (dev_ID device)) TaskKindEssential
                      LaneEssential VolatilityClassNone (EssentialInterval device) now s
               else s)"
  define s2 where "s2 = (if shouldScheduleBootstrapTask device
               then (case s_items s1 (NewBootstrapTaskKey (dev_ID device)) of
                       Some r \<Rightarrow> applyBootstrapSchedule r device (hi_dueAt (s_mem s1 r)) StaticClassInterval s1
                     | None \<Rightarrow> scheduleBootstrapItem e device now s1)
               else s1)"
  have "keeps ?us s s1" unfolding s1_def by (simp add: upsert_keeps)
  moreover have "keeps ?us s1 s2"
    unfolding s2_def by (auto simp: scheduleBootstrapItem_keeps applyBootstrap_keeps split: option.split)
  moreover have "keeps ?us s2 (fold (scheduleBackgroundClass e device now) (scheduledBackgroundVolatilityClassesForDevice device) s2)"
    by (rule keeps_fold) (simp add: scheduleBackgroundClass_def upsert_keeps scheduled_classes)
  moreover have "scheduleRecurringDeviceLocked e device now s =
      fold (scheduleBackgroundClass e device now) (scheduledBackgroundVolatilityClassesForDevice device) s2"
    unfolding scheduleRecurringDeviceLocked_def Let_def s2_def s1_def ..
  ultimately show ?thesis using keeps_trans by metis
qed

subsection \<open>Removing items\<close>

text \<open>Where an item that is neither queued nor in flight is.\<close>

lemma in_heap:
  assumes "sched_inv us {} s" and "s_items s k = Some r" and "\<not> hi_inFlight (s_mem s r)" and "\<not> hi_queued (s_mem s r)"
  shows "r \<in> set (s_heap s)" and "0 \<le> hi_index (s_mem s r)"
proof -
  show "r \<in> set (s_heap s)"
    using item_invD(5) [OF place_of [OF assms(1)] assms(2)] assms(3,4) by (auto simp: places_def split: if_splits)
  then show "0 \<le> hi_index (s_mem s r)" using in_heap_iff [OF place_of [OF assms(1)] assms(2)] by simp
qed

lemma removeHeap_delete:
  assumes inv: "sched_inv us {} s" and k: "s_items s k = Some r" and h: "r \<in> set (s_heap s)"
    and f: "\<And>it. hi_task (f it) = hi_task it \<and> hi_queued (f it) = hi_queued it \<and> hi_inFlight (f it) = hi_inFlight it \<and>
      hi_index (f it) = hi_index it \<and> hi_runID (f it) = hi_runID it \<and> hi_dueAt (f it) = hi_dueAt it"
    and t: "t = deleteItem k (upd r f (removeHeap us (hi_index (s_mem s r)) s))"
  shows "sched_inv us {} t" and "calm s t"
proof -
  let ?u = "removeHeap us (hi_index (s_mem s r)) s"
  have inv1: "sched_inv us {r} ?u" and mem: "s_mem ?u r = (s_mem s r)\<lparr>hi_index := -1\<rparr>"
    using removeHeap_inv [OF inv k h] by simp_all
  have k1: "s_items ?u k = Some r" using k by simp
  have inv2: "sched_inv us {r} (upd r f ?u)"
    by (rule payload_inv [OF inv1 k1]) (use f item_invD(2) [OF place_of [OF inv1] k1] in simp_all)
  show "sched_inv us {} t" unfolding t using deleteItem_inv [OF inv2, of k r] k by simp
  have "calm s ?u" using calm_heap(2) [of s s us "{}" r] place_of [OF inv] h by simp
  moreover have "calm ?u (upd r f ?u)" by (rule calm_payload) (use f in simp_all)
  ultimately have "calm s (upd r f ?u)" by (rule calm_trans)
  then show "calm s t" unfolding t
    by (rule calm_delete [of _ _ _ r]) (use k f limbo_item(4) [OF inv1, of r] in auto)
qed

lemma refreshItem_keeps: "keeps (e_uuidString e) s (refreshItem e seen key s)"
proof (cases "s_items s key")
  case None
  then show ?thesis by (simp add: refreshItem_def)
next
  case (Some r)
  let ?f = "\<lambda>it. it\<lparr>hi_disabled := True\<rparr>"
  show ?thesis
  proof (rule keepsI)
    assume inv: "sched_inv (e_uuidString e) {} s"
    have K: "keeps (e_uuidString e) s (upd r ?f s)"
      by (rule payload_keeps [OF Some]) (use item_invD(2) [OF place_of [OF inv] Some] in simp_all)
    have H: "sched_inv (e_uuidString e) {} t \<and> calm s t"
      if "\<not> hi_inFlight (s_mem s r)" "\<not> hi_queued (s_mem s r)"
        "t = deleteItem key (removeHeap (e_uuidString e) (hi_index (s_mem s r)) s)" for t
      using removeHeap_delete [OF inv Some in_heap(1) [OF inv Some that(1,2)], of "\<lambda>it. it" t] that(3) by (simp add: upd_id)
    have "sched_inv (e_uuidString e) {} (refreshItem e seen key s) \<and> calm s (refreshItem e seen key s)"
      using K H in_heap(2) [OF inv Some] inv by (auto simp: refreshItem_def Some keeps_def)
    then show "sched_inv (e_uuidString e) {} (refreshItem e seen key s)" "calm s (refreshItem e seen key s)" by simp_all
  qed
qed

lemma refreshDevices_keeps: "keeps (e_uuidString e) s (refreshDevices e now s)"
proof (cases "e_devices e")
  case None
  then show ?thesis by (simp add: refreshDevices_def)
next
  case (Some devices)
  let ?us = "e_uuidString e" and ?recurring = "filter shouldScheduleRecurringDevice devices"
  define s1 where "s1 = fold (\<lambda>device. scheduleRecurringDeviceLocked e device now) ?recurring s"
  define s2 where "s2 = fold (refreshItem e (set (concat (map scheduledKeys ?recurring)))) (e_range e (s_items s1)) s1"
  have "keeps ?us s s1" unfolding s1_def by (rule keeps_fold) (rule scheduleRecurring_keeps)
  moreover have "keeps ?us s1 s2" unfolding s2_def by (rule keeps_fold) (rule refreshItem_keeps)
  moreover have "keeps ?us s2 (s2\<lparr>s_lastWarnings := ws, s_degradedRisk := b\<rparr>)" for ws b
    by (simp add: keeps_def)
  moreover have "\<exists>ws b. refreshDevices e now s = s2\<lparr>s_lastWarnings := ws, s_degradedRisk := b\<rparr>"
    by (auto simp: refreshDevices_def Some Let_def s1_def s2_def split: prod.split)
  ultimately show ?thesis using keeps_trans by metis
qed

lemma removeDeviceItem_keeps: "keeps (e_uuidString e) s (removeDeviceItem e deviceID key s)"
proof (cases "s_items s key")
  case None
  then show ?thesis by (simp add: removeDeviceItem_def)
next
  case (Some r)
  let ?us = "e_uuidString e" and ?f = "\<lambda>it. it\<lparr>hi_pending := False\<rparr>"
  show ?thesis
  proof (rule keepsI)
    assume inv: "sched_inv ?us {} s"
    note p = place_of [OF inv]
    have ok: "task_ok key (hi_task (s_mem s r))" by (rule item_invD(2) [OF p Some])
    let ?t = "removeDeviceItem e deviceID key s"
    consider (other) "tk_DeviceID key \<noteq> deviceID"
      | (fly) "tk_DeviceID key = deviceID" "hi_inFlight (s_mem s r)"
      | (queue) "tk_DeviceID key = deviceID" "\<not> hi_inFlight (s_mem s r)" "hi_queued (s_mem s r)"
      | (heap) "tk_DeviceID key = deviceID" "\<not> hi_inFlight (s_mem s r)" "\<not> hi_queued (s_mem s r)" by blast
    then have "sched_inv ?us {} ?t \<and> calm s ?t"
    proof cases
      case other
      then show ?thesis using inv by (simp add: removeDeviceItem_def Some)
    next
      case fly
      have nq: "\<not> hi_queued (s_mem s r)" "\<not> 0 \<le> hi_index (s_mem s r)"
        using item_invD(4,5) [OF p Some] fly by (auto simp: places_def split: if_splits)
      have "?t = upd r (\<lambda>it. it\<lparr>hi_pending := False, hi_disabled := True\<rparr>) s"
        using fly nq by (simp add: removeDeviceItem_def Some Let_def upd_upd)
      moreover have "keeps ?us s (upd r (\<lambda>it. it\<lparr>hi_pending := False, hi_disabled := True\<rparr>) s)"
        by (rule payload_keeps [OF Some]) (use ok in simp_all)
      ultimately show ?thesis using inv by (simp add: keeps_def)
    next
      case queue
      let ?u = "removeReadyItem r s"
      note R = removeReadyItem_inv [OF inv Some queue(3)]
      have ku: "s_items ?u key = Some r" using Some by simp
      have "\<not> 0 \<le> hi_index (s_mem ?u r)" using limbo_item(5) [OF R(1), of r] by simp
      then have t: "?t = deleteItem key (upd r ?f ?u)"
        using queue R(2) by (simp add: removeDeviceItem_def Some Let_def)
      have inv2: "sched_inv ?us {r} (upd r ?f ?u)"
        by (rule payload_inv [OF R(1) ku]) (use item_invD(2) [OF place_of [OF R(1)] ku] in simp_all)
      have "calm ?u (upd r ?f ?u)" by (rule calm_payload) simp_all
      then have "calm s (upd r ?f ?u)" using calm_trans [of s ?u] by simp
      then have "calm s ?t" unfolding t by (rule calm_delete [of _ _ _ r]) (use Some queue R(2) in auto)
      then show ?thesis unfolding t using deleteItem_inv [OF inv2, of key r] Some by simp
    next
      case heap
      note h = in_heap [OF inv Some heap(2,3)]
      have "?t = deleteItem key (upd r ?f (removeHeap ?us (hi_index (s_mem s r)) s))"
        using heap h(2) removeHeap_inv(2) [OF inv Some h(1)] by (simp add: removeDeviceItem_def Some Let_def)
      then show ?thesis using removeHeap_delete [OF inv Some h(1), of ?f ?t] by simp
    qed
    then show "sched_inv ?us {} ?t" "calm s ?t" by simp_all
  qed
qed

lemma removeDevice_keeps: "keeps (e_uuidString e) s (removeDeviceTasksLocked e deviceID s)"
  unfolding removeDeviceTasksLocked_def by (rule keeps_fold) (rule removeDeviceItem_keeps)

subsection \<open>The handlers of the run loop\<close>

lemma handleReduePerformance_keeps: "keeps (e_uuidString e) s (handleReduePerformanceTask e request s)"
proof -
  let ?key = "NewTaskKey (dev_ID (rq_device request)) VolatilityClassPerformance"
  have "keeps (e_uuidString e) s (pushReadyFront r (putItem ?key r s'))"
    if "allocItem (newHeapItem (newTask ?key TaskKindBackground LaneBackground (rq_device request)
          VolatilityClassPerformance interval changedAt) changedAt interval) s = (r, s')"
      and "s_items s ?key = None" for interval changedAt r s'
    by (rule fresh_keeps(2) [OF that(2,1)]) (simp_all add: fits_task)
  moreover have "keeps (e_uuidString e) s (replaceItem (e_uuidString e) r
        (applyPerformanceRedue r (rq_device request) changedAt interval s))"
    if "s_items s ?key = Some r" for interval changedAt r
    unfolding applyPerformanceRedue_def by (rule replaceItem_keeps [OF that]) (simp_all add: applySchedule_ok)
  ultimately show ?thesis
    by (auto simp: handleReduePerformanceTask_def Let_def scheduleBootstrapItem_keeps split: option.split prod.split)
qed

lemma handleRedueEssential_keeps: "keeps (e_uuidString e) s (handleRedueEssentialTask e request s)"
proof -
  let ?key = "NewEssentialTaskKey (dev_ID (rq_device request))"
  have "keeps (e_uuidString e) s (pushReadyFront r (putItem ?key r s'))"
    if "allocItem (newHeapItem (newTask ?key TaskKindEssential LaneEssential (rq_device request)
          VolatilityClassNone interval changedAt) changedAt interval) s = (r, s')"
      and "s_items s ?key = None" for interval changedAt r s'
    by (rule fresh_keeps(2) [OF that(2,1)]) (simp_all add: fits_task)
  moreover have "keeps (e_uuidString e) s (replaceItem (e_uuidString e) r
        (applyEssentialRedue r (rq_device request) changedAt interval s))"
    if "s_items s ?key = Some r" for interval changedAt r
    unfolding applyEssentialRedue_def by (rule replaceItem_keeps [OF that]) (simp_all add: applySchedule_ok)
  ultimately show ?thesis
    by (auto simp: handleRedueEssentialTask_def Let_def split: option.split prod.split)
qed

lemma reconcile_keeps: "keeps (e_uuidString e) s (ReconcileDeviceTasks e device changedAt s)"
  using keeps_trans [OF removeDevice_keeps scheduleRecurring_keeps] removeDevice_keeps
  by (simp add: ReconcileDeviceTasks_def Let_def)

subsection \<open>Completions\<close>

lemma rescheduleItem_inv:
  assumes inv: "sched_inv us {r} s" and k: "s_items s k = Some r" and us: "us = e_uuidString e"
  shows "sched_inv us {} (rescheduleItem e r finishedAt s)" and "calm s (rescheduleItem e r finishedAt s)"
proof -
  note L = limbo_item [OF inv, of r, simplified]
  have up: "sched_inv us {r} (upd r f s) \<and> calm s (upd r f s)"
    if "\<And>it. hi_queued (f it) = hi_queued it \<and> hi_inFlight (f it) = hi_inFlight it \<and> hi_index (f it) = hi_index it \<and>
      hi_runID (f it) = hi_runID it" "task_ok k (hi_task (f (s_mem s r)))" for f
  proof
    show "sched_inv us {r} (upd r f s)" by (rule payload_inv [OF inv k]) (use that L in auto)
    show "calm s (upd r f s)" by (rule calm_payload) (use that in auto)
  qed
  have ok: "task_ok k (hi_task (s_mem s r))" by (rule item_invD(2) [OF place_of [OF inv] k])
  let ?ready = "\<lambda>it. it\<lparr>hi_pending := False, hi_immediateRerun := False, hi_dueAt := finishedAt,
     hi_task := (hi_task it)\<lparr>pt_DueAt := finishedAt, pt_DeadlineAt := tAdd finishedAt (hi_interval it)\<rparr>\<rparr>"
  let ?heap = "\<lambda>nxt it. it\<lparr>hi_pending := False, hi_immediateRerun := False, hi_dueAt := nxt,
     hi_task := (hi_task it)\<lparr>pt_DueAt := nxt, pt_DeadlineAt := tAdd nxt (hi_interval it)\<rparr>, hi_skippedWindows := 0\<rparr>"
  have cases: "rescheduleItem e r finishedAt s = enqueueReady r (upd r ?ready s) \<or>
      (\<exists>nxt. rescheduleItem e r finishedAt s = pushHeap us r (upd r (?heap nxt) s))"
    by (auto simp: rescheduleItem_def Let_def upd_upd us)
  have U: "sched_inv us {r} (upd r ?ready s)" "calm s (upd r ?ready s)" using up [of ?ready] ok by simp_all
  have V: "sched_inv us {r} (upd r (?heap nxt) s)" "calm s (upd r (?heap nxt) s)" for nxt using up [of "?heap nxt"] ok by simp_all
  have W: "calm s (pushHeap us r (upd r (?heap nxt) s))" for nxt
    by (rule calm_heap(1) [OF V(2) place_of [OF V(1)], where k = k]) (use k L in simp_all)
  show "sched_inv us {} (rescheduleItem e r finishedAt s)"
    using cases enqueueReady_inv [OF U(1), of r] pushHeap_inv [OF V(1), of r] by auto
  show "calm s (rescheduleItem e r finishedAt s)" using cases U(2) W by auto
qed

text \<open>The completions that count: those of a run in flight, of this run, not older than its dispatch.\<close>

definition accepted :: "SchedEnv \<Rightarrow> Completion \<Rightarrow> Scheduler \<Rightarrow> bool" where
  "accepted e c s \<longleftrightarrow>
     (case s_items s (cp_Key c) of
        None \<Rightarrow> False
      | Some r \<Rightarrow> hi_inFlight (s_mem s r) \<and> hi_runID (s_mem s r) = cp_RunID c \<and>
          (IsZero (hi_dispatchedAt (s_mem s r)) \<or>
           \<not> tBefore (if IsZero (cp_FinishedAt c) then e_now e else cp_FinishedAt c) (hi_dispatchedAt (s_mem s r))))"

lemma completion_ignored: "\<not> accepted e c s \<Longrightarrow> handleCompletion e c s = s"
  by (auto simp: accepted_def handleCompletion_def Let_def split: option.splits if_splits)

definition landed :: "TaskKey \<Rightarrow> Scheduler \<Rightarrow> Scheduler \<Rightarrow> bool" where
  "landed k s t \<longleftrightarrow> same_chans s t \<and> s_tasks t = s_tasks s \<and> flights t = {x \<in> flights s. fst x \<noteq> k}"

lemma landed_calm: "landed k s t \<Longrightarrow> calm t u \<Longrightarrow> landed k s u"
  using same_chans_trans by (auto simp: landed_def calm_def)

lemma rescheduleItem_items [simp]: "s_items (rescheduleItem e r fin s) = s_items s"
  by (simp add: rescheduleItem_def Let_def enqueueReady_def pushHeap_def setStore_def)

lemma completion_accepted:
  assumes inv: "sched_inv (e_uuidString e) {} s" and acc: "accepted e c s" and t: "t = handleCompletion e c s"
  shows "sched_inv (e_uuidString e) {} t" and "landed (cp_Key c) s t" and "(cp_Key c, cp_RunID c) \<in> flights s"
    and "s_items s (cp_Key c) = Some r \<Longrightarrow>
      s_items t = (if hi_disabled (s_mem s r) then (s_items s)(cp_Key c := None) else s_items s)"
proof -
  let ?us = "e_uuidString e" and ?k = "cp_Key c"
  obtain r where k: "s_items s ?k = Some r" and fl: "hi_inFlight (s_mem s r)" and run: "hi_runID (s_mem s r) = cp_RunID c"
    using acc by (auto simp: accepted_def split: option.splits)
  show "(?k, cp_RunID c) \<in> flights s" using k fl run by (auto simp: flights_def)
  let ?f = "\<lambda>it. it\<lparr>hi_inFlight := False, hi_dispatchedAt := 0, hi_runID := 0, hi_task := (hi_task it)\<lparr>pt_RunID := 0\<rparr>\<rparr>"
  define fin where "fin = (if IsZero (cp_FinishedAt c) then e_now e else cp_FinishedAt c)"
  define u where "u = upd r ?f (decrementInFlight e (hi_task (s_mem s r)) (s\<lparr>s_inFlight := s_inFlight s - 1\<rparr>))"
  have step: "t = (if hi_disabled (s_mem s r) then deleteItem ?k u else rescheduleItem e r fin u)"
    using acc k fl run by (auto simp: t handleCompletion_def accepted_def Let_def u_def fin_def split: if_splits)
  have ok: "task_ok ?k (hi_task (s_mem s r))" by (rule item_invD(2) [OF place_of [OF inv] k])
  have F: "s_items u = s_items s" "s_mem u = s_mem (upd r ?f s)" "s_heap u = s_heap s" "s_ready u = s_ready s"
      "s_next u = s_next s" "s_inFlight u = s_inFlight s - 1"
    by (simp_all add: u_def upd_def decrementInFlight_def decrementIsolationCounts_def Let_def)
  have iu: "sched_inv ?us (insert r {}) u"
    by (rule land_inv [OF inv k fl refl ok, where f = ?f and d = "decrementInFlight e (hi_task (s_mem s r)) s"])
      (use ok F in \<open>simp_all, simp_all add: u_def decrementInFlight_def decrementIsolationCounts_def Let_def\<close>)
  have ku: "s_items u ?k = Some r" using k F by simp
  have lu: "landed ?k s u"
    unfolding landed_def using flights_upd [OF place_of [OF inv] k F(1,2)] by (simp add: u_def)
  have nf: "\<not> hi_inFlight (s_mem u r)" using F by simp
  show "s_items s ?k = Some x \<Longrightarrow>
      s_items t = (if hi_disabled (s_mem s x) then (s_items s)(?k := None) else s_items s)" for x
    unfolding step using k F(1) by (simp add: deleteItem_def)
  show "sched_inv ?us {} t"
    unfolding step using deleteItem_inv [OF iu ku] rescheduleItem_inv(1) [OF iu ku refl] by simp
  show "landed ?k s t"
    unfolding step using landed_calm [OF lu] calm_delete [OF calm_refl ku nf] rescheduleItem_inv(2) [OF iu ku refl] by simp
qed

end
