(* ===== verification/Scheduler_System.thy ===== *)
theory Scheduler_System
  imports Scheduler_Handlers
begin

text \<open>
  The scheduler together with its workers as a state machine: one step per lifecycle call, cycle of
  the run loop, event, entry point or worker action. Every reachable state satisfies the invariant of
  the scheduler, and the runs sent to the workers and not yet handled are exactly accounted for.
\<close>

subsection \<open>The scheduler with its workers\<close>

text \<open>
  The workers are seen from the scheduler only: a worker receives a task from the task channel,
  executes it for some time, and reports one completion that carries the key and the run of the task.
\<close>

record System =
  sy_sched :: Scheduler
  sy_executing :: "PollTask list"

definition completionOf :: "PollTask \<Rightarrow> gotime \<Rightarrow> Completion" where
  "completionOf task finishedAt =
     \<lparr>cp_RunID = pt_RunID task, cp_Key = pt_Key task, cp_FinishedAt = finishedAt\<rparr>"

definition initSystem :: System where
  "initSystem = \<lparr>sy_sched = NewScheduler, sy_executing = []\<rparr>"

text \<open>
  One atomic step, in any environment \<open>e\<close> that renders identifiers by \<open>us\<close>: the lifecycle, a cycle of
  the run loop, one event, a call of an entry point, or a worker.
\<close>

inductive sys_step :: "(uuid \<Rightarrow> string) \<Rightarrow> System \<Rightarrow> System \<Rightarrow> bool" for us where
  start: "e_uuidString e = us \<Longrightarrow> unat (s_runID (sy_sched y)) + 1 < 2 ^ 64 \<Longrightarrow> Start e (sy_sched y) = Inr s \<Longrightarrow>
    sys_step us y (y\<lparr>sy_sched := s\<rparr>)"
| stop: "sys_step us y (y\<lparr>sy_sched := Stop (sy_sched y)\<rparr>)"
| cancel: "sys_step us y (y\<lparr>sy_sched := (sy_sched y)\<lparr>s_running := False\<rparr>\<rparr>)"
| cycle: "e_uuidString e = us \<Longrightarrow> s_running (sy_sched y) \<Longrightarrow> runCycle e ctxDone (sy_sched y) = (reason, s, delay) \<Longrightarrow>
    sys_step us y (y\<lparr>sy_sched := s\<rparr>)"
| event: "e_uuidString e = us \<Longrightarrow> s_running (sy_sched y) \<Longrightarrow> sys_step us y (y\<lparr>sy_sched := handleEvent e ev (sy_sched y)\<rparr>)"
| reconcile: "e_uuidString e = us \<Longrightarrow> sys_step us y (y\<lparr>sy_sched := ReconcileDeviceTasks e device changedAt (sy_sched y)\<rparr>)"
| redue: "ReduePerformanceTask e device changedAt (sy_sched y) = Some s \<Longrightarrow> sys_step us y (y\<lparr>sy_sched := s\<rparr>)"
| redueEssential: "RedueEssentialTask e device changedAt (sy_sched y) = Some s \<Longrightarrow> sys_step us y (y\<lparr>sy_sched := s\<rparr>)"
| bootstrap: "ScheduleBootstrap e device dueAt (sy_sched y) = (ok, s) \<Longrightarrow> sys_step us y (y\<lparr>sy_sched := s\<rparr>)"
| receive: "s_tasks (sy_sched y) = task # rest \<Longrightarrow>
    sys_step us y \<lparr>sy_sched = (sy_sched y)\<lparr>s_tasks := rest\<rparr>, sy_executing = task # sy_executing y\<rparr>"
| finish: "task \<in> set (sy_executing y) \<Longrightarrow> Complete (completionOf task finishedAt) (sy_sched y) = Some s \<Longrightarrow>
    sys_step us y \<lparr>sy_sched = s, sy_executing = remove1 task (sy_executing y)\<rparr>"

inductive reachable :: "(uuid \<Rightarrow> string) \<Rightarrow> System \<Rightarrow> bool" for us where
  init: "reachable us initSystem"
| step: "reachable us y \<Longrightarrow> sys_step us y z \<Longrightarrow> reachable us z"

inductive_cases sys_stepE: "sys_step us y z"

subsection \<open>The invariant of the system\<close>

abbreviation completion_run :: "Completion \<Rightarrow> TaskKey \<times> 64 word" where
  "completion_run c \<equiv> (cp_Key c, cp_RunID c)"

text \<open>The runs sent to the workers whose completion has not been handled.\<close>

definition outstanding :: "System \<Rightarrow> (TaskKey \<times> 64 word) list" where
  "outstanding y = map task_run (s_tasks (sy_sched y)) @ map task_run (sy_executing y) @
     map completion_run (s_completions (sy_sched y))"

definition current :: "System \<Rightarrow> (TaskKey \<times> 64 word) list" where
  "current y = filter (\<lambda>x. snd x = s_runID (sy_sched y)) (outstanding y)"

definition caps :: "Scheduler \<Rightarrow> bool" where
  "caps s \<longleftrightarrow> s_tasksCap s = defaultTaskBuffer \<and> s_completionsCap s = defaultTaskBuffer \<and> s_redueCap s = defaultTaskBuffer"

definition sys_inv :: "(uuid \<Rightarrow> string) \<Rightarrow> System \<Rightarrow> bool" where
  "sys_inv us y \<longleftrightarrow> sched_inv us {} (sy_sched y) \<and> caps (sy_sched y) \<and>
     (\<forall>x\<in>flights (sy_sched y). snd x = s_runID (sy_sched y)) \<and>
     distinct (current y) \<and> (s_started (sy_sched y) \<longrightarrow> set (current y) \<subseteq> flights (sy_sched y)) \<and>
     (\<forall>x\<in>set (outstanding y). snd x \<le> s_runID (sy_sched y)) \<and>
     (\<forall>x\<in>set (s_tasks (sy_sched y)). pt_RunID x = s_runID (sy_sched y)) \<and>
     (s_running (sy_sched y) \<longrightarrow> s_started (sy_sched y)) \<and>
     (\<not> s_started (sy_sched y) \<longrightarrow> flights (sy_sched y) = {} \<and> s_tasks (sy_sched y) = [] \<and> s_completions (sy_sched y) = [])"

lemma caps_chans: "same_chans s t \<Longrightarrow> caps t = caps s"
  by (simp add: caps_def same_chans_def)

text \<open>A step of the scheduler alone that is calm keeps the invariant of the system.\<close>

lemma sys_inv_calm:
  assumes "sys_inv us y" and "sched_inv us {} t" and "calm (sy_sched y) t"
  shows "sys_inv us (y\<lparr>sy_sched := t\<rparr>)"
proof -
  have S: "same_chans (sy_sched y) t" "flights t = flights (sy_sched y)" "s_tasks t = s_tasks (sy_sched y)"
    using assms(3) by (simp_all add: calm_def)
  then have F: "s_runID t = s_runID (sy_sched y)" "s_running t = s_running (sy_sched y)"
    "s_started t = s_started (sy_sched y)" "s_completions t = s_completions (sy_sched y)"
    by (simp_all add: same_chans_def)
  have O: "outstanding (y\<lparr>sy_sched := t\<rparr>) = outstanding y" by (simp add: outstanding_def S F)
  then have C: "current (y\<lparr>sy_sched := t\<rparr>) = current y" by (simp add: current_def F)
  show ?thesis using assms(1,2) caps_chans [OF S(1)] unfolding sys_inv_def O C by (simp add: S F)
qed

lemma sys_inv_keeps: "sys_inv us y \<Longrightarrow> keeps us (sy_sched y) t \<Longrightarrow> sys_inv us (y\<lparr>sy_sched := t\<rparr>)"
  using sys_inv_calm [of us y t] by (simp add: keeps_def sys_inv_def [of us y])

lemma sched_inv_flags [simp]:
  "sched_inv us L (s\<lparr>s_running := b\<rparr>) = sched_inv us L s" "sched_inv us L (s\<lparr>s_started := b\<rparr>) = sched_inv us L s"
  "sched_inv us L (s\<lparr>s_runID := w\<rparr>) = sched_inv us L s"
  by (rule iffI; erule sched_inv_cong; simp add: same_counts_def)+

lemma flights_frame [simp]:
  "flights (s\<lparr>s_running := b\<rparr>) = flights s" "flights (s\<lparr>s_tasks := ts\<rparr>) = flights s"
  "flights (s\<lparr>s_completions := cs\<rparr>) = flights s" "flights (s\<lparr>s_redueRequests := rs\<rparr>) = flights s"
  "flights (s\<lparr>s_started := b\<rparr>) = flights s" "flights (s\<lparr>s_runID := w\<rparr>) = flights s"
  by (simp_all add: flights_def)

subsection \<open>Every step keeps the invariant\<close>

lemma Nil_inv: "sched_inv us {} (resetRuntimeState s)"
  by (simp add: sched_inv_def place_inv_def count_inv_def resetRuntimeState_def flying_def readyRefs_def
      heap_wf_def indexed_def th.heap_ordered_alt cget_def scopes_nonneg_def)

lemma init_inv: "sys_inv us initSystem"
  by (simp add: sys_inv_def initSystem_def NewScheduler_def sched_inv_def place_inv_def count_inv_def flying_def
      flights_def readyRefs_def heap_wf_def indexed_def th.heap_ordered_alt cget_def scopes_nonneg_def caps_def current_def outstanding_def)

lemma stop_inv:
  assumes "sys_inv us y"
  shows "sys_inv us (y\<lparr>sy_sched := Stop (sy_sched y)\<rparr>)"
proof (cases "s_started (sy_sched y)")
  case True
  let ?s = "sy_sched y"
  let ?t = "(resetRuntimeState (?s\<lparr>s_running := False\<rparr>))\<lparr>s_started := False\<rparr>"
  let ?z = "y\<lparr>sy_sched := ?t\<rparr>"
  have inv: "sched_inv us {} ?t"
    using Nil_inv [of us "?s\<lparr>s_running := False\<rparr>"] by (rule sched_inv_cong) (simp_all add: same_counts_def)
  have F: "s_tasks ?t = []" "s_completions ?t = []" "s_runID ?t = s_runID ?s" "flights ?t = {}" "caps ?t = caps ?s"
      "\<not> s_started ?t" "\<not> s_running ?t"
    by (simp_all add: resetRuntimeState_def flights_def caps_def)
  have O: "outstanding ?z = map task_run (sy_executing y)"
    by (simp add: outstanding_def F)
  have C: "current ?z = filter (\<lambda>x. snd x = s_runID ?s) (map task_run (sy_executing y))"
    by (simp add: current_def O F)
  have "distinct (current ?z)" using assms unfolding C by (simp add: sys_inv_def current_def outstanding_def)
  moreover have "\<forall>x\<in>set (outstanding ?z). snd x \<le> s_runID ?s"
    using assms unfolding O by (auto simp: sys_inv_def outstanding_def)
  ultimately have "sys_inv us ?z"
    using inv assms F by (simp add: sys_inv_def)
  then show ?thesis using True by (simp add: Stop_def)
next
  case False
  then show ?thesis using assms by (simp add: Stop_def)
qed

lemma word_suc_less:
  assumes "unat (w :: 64 word) + 1 < 2 ^ 64" and "v \<le> w"
  shows "v < w + 1"
proof -
  have "unat (w + 1) = unat w + 1" using assms(1) by (simp add: unat_add_lem [where 'a = 64, THEN iffD1])
  then show ?thesis using assms(2) by (simp add: word_less_nat_alt word_le_nat_alt)
qed

lemma start_inv:
  assumes inv: "sys_inv us y" and us: "e_uuidString e = us" and w: "unat (s_runID (sy_sched y)) + 1 < 2 ^ 64"
    and st: "Start e (sy_sched y) = Inr s"
  shows "sys_inv us (y\<lparr>sy_sched := s\<rparr>)"
proof -
  let ?s = "sy_sched y"
  let ?u = "?s\<lparr>s_started := True, s_runID := s_runID ?s + 1, s_running := True\<rparr>"
  have ns: "\<not> s_started ?s" and s: "s = refreshDevices e (e_now e) ?u"
    using st by (auto simp: Start_def split: if_splits)
  have E: "flights ?s = {}" "s_tasks ?s = []" "s_completions ?s = []" using inv ns by (simp_all add: sys_inv_def)
  have old: "snd x < s_runID ?s + 1" if "x \<in> set (outstanding y)" for x
    using word_suc_less [OF w, of "snd x"] inv that by (auto simp: sys_inv_def)
  have O: "outstanding (y\<lparr>sy_sched := ?u\<rparr>) = outstanding y" by (simp add: outstanding_def)
  have "current (y\<lparr>sy_sched := ?u\<rparr>) = []"
    using old by (fastforce simp: current_def O filter_empty_conv)
  moreover have "\<forall>x\<in>set (outstanding y). snd x \<le> s_runID ?s + 1" using old by (auto intro: less_imp_le)
  ultimately have "sys_inv us (y\<lparr>sy_sched := ?u\<rparr>)"
    using inv E unfolding sys_inv_def O by (simp add: caps_def)
  then show ?thesis
    using sys_inv_keeps [of us "y\<lparr>sy_sched := ?u\<rparr>" s] refreshDevices_keeps [of e ?u "e_now e"] us s by simp
qed

text \<open>There is always room for the next task.\<close>

lemma flights_inj: "inj_on fst (flights s)"
  by (auto simp: inj_on_def flights_def)

lemma flights_card: "card (flights s) = card (flying s)"
  by (simp add: flying_flights card_image flights_inj)

lemma flights_finite: "place_inv us L s \<Longrightarrow> finite (flights s)"
  using flying_finite finite_imageD [OF _ flights_inj] by (simp add: flying_flights)

lemma sys_room:
  assumes inv: "sys_inv us y" and st: "s_started (sy_sched y)"
    and s: "sched_inv us {} s" "calm (sy_sched y) s"
  shows "room (computeDispatchLimits e s) s"
proof -
  have T: "s_tasks s = s_tasks (sy_sched y)" "s_runID s = s_runID (sy_sched y)" "flights s = flights (sy_sched y)" "caps s"
    using s(2) inv caps_chans [of "sy_sched y" s] by (auto simp: calm_def same_chans_def sys_inv_def)
  have all: "filter (\<lambda>x. snd x = s_runID s) (map task_run (s_tasks s)) = map task_run (s_tasks s)"
    using inv T by (auto simp: sys_inv_def intro!: filter_True)
  have c: "current y = map task_run (s_tasks s) @ filter (\<lambda>x. snd x = s_runID s)
      (map task_run (sy_executing y) @ map completion_run (s_completions (sy_sched y)))"
    using all T by (simp add: current_def outstanding_def)
  then have "distinct (map task_run (s_tasks s))" "set (map task_run (s_tasks s)) \<subseteq> flights s"
    using inv st T(3) by (auto simp: sys_inv_def)
  then have "length (s_tasks s) \<le> card (flights s)"
    using card_mono [OF flights_finite [OF place_of [OF s(1)]], of "set (map task_run (s_tasks s))"]
      distinct_card [of "map task_run (s_tasks s)"] by simp
  moreover have "s_inFlight s = int (card (flying s))" using s(1) by (simp add: sched_inv_def count_inv_def)
  moreover have "0 < s_tasksCap s" using T(4) by (simp add: caps_def defaultTaskBuffer_def)
  ultimately show ?thesis using computeDispatchLimits_cap [of s e] by (simp add: room_def flights_card)
qed

lemma sys_inv_sent:
  assumes inv: "sys_inv us y" and st: "s_started (sy_sched y)" and t: "sched_inv us {} t" and "sent (sy_sched y) t"
  shows "sys_inv us (y\<lparr>sy_sched := t\<rparr>)"
proof -
  let ?s = "sy_sched y" and ?z = "y\<lparr>sy_sched := t\<rparr>"
  obtain new where N: "s_tasks t = s_tasks ?s @ new" "distinct (map pt_Key new)"
      "flights t = flights ?s \<union> task_run ` set new" "pt_Key ` set new \<inter> flying ?s = {}"
      "\<forall>x\<in>set new. pt_RunID x = s_runID ?s" and chans: "same_chans ?s t"
    using assms(4) by (auto simp: sent_def)
  have F: "s_runID t = s_runID ?s" "s_running t = s_running ?s" "s_started t = s_started ?s" "s_completions t = s_completions ?s"
    using chans by (simp_all add: same_chans_def)
  have O: "set (outstanding ?z) = set (outstanding y) \<union> task_run ` set new" by (auto simp: outstanding_def N F)
  have new: "filter (\<lambda>x. snd x = s_runID ?s) (map task_run new) = map task_run new" using N(5) by (auto intro!: filter_True)
  have "mset (current ?z) = mset (current y) + mset (map task_run new)"
    unfolding current_def outstanding_def using new by (simp add: N F)
  then have M: "mset (current ?z) = mset (current y @ map task_run new)" by simp
  have C: "set (current ?z) = set (current y) \<union> task_run ` set new" using mset_eq_setD [OF M] by simp
  have sub: "set (current y) \<subseteq> flights ?s" using inv st by (simp add: sys_inv_def)
  have "set (current y) \<inter> task_run ` set new = {}"
  proof -
    have "fst ` set (current y) \<subseteq> flying ?s" using sub by (auto simp: flying_flights)
    then show ?thesis using N(4) by force
  qed
  moreover have "distinct (map task_run new)" using N(2) by (auto simp: distinct_map inj_on_def)
  ultimately have "distinct (current y @ map task_run new)" using inv by (auto simp: sys_inv_def)
  then have "distinct (current ?z)" using mset_eq_imp_distinct_iff [OF M] by simp
  then show ?thesis
    using inv t st sub caps_chans [OF chans] N(5) unfolding sys_inv_def by (auto simp: O C N(1,3) F)
qed

lemma cycle_inv:
  assumes inv: "sys_inv us y" and us: "e_uuidString e = us" and run: "s_running (sy_sched y)"
    and cyc: "runCycle e ctxDone (sy_sched y) = (reason, t, delay)"
  shows "reason \<noteq> SendBlocked" and "sys_inv us (y\<lparr>sy_sched := t\<rparr>)"
proof -
  define s where "s = moveDueTasksToReady e (e_now e) (sy_sched y)"
  have disp: "dispatchReady e ctxDone (e_now e) s = (reason, t)"
    using cyc by (auto simp: runCycle_def Let_def s_def split: prod.splits)
  have s: "sched_inv us {} s" "calm (sy_sched y) s"
    using moveDue_keeps [of e "sy_sched y" "e_now e"] inv us by (auto simp: keeps_def s_def sys_inv_def)
  have st: "s_started (sy_sched y)" using inv run by (simp add: sys_inv_def)
  note post = dispatchReady_post [OF _ _ disp] sys_room [OF inv st s, of e]
  then have post: "dispatch_post e (e_now e) s reason t" using s us by simp
  then show "reason \<noteq> SendBlocked" by (simp add: dispatch_post_def)
  have it: "sched_inv us {} t" "sent s t"
    using post us moves_sent [of e "computeDispatchLimits e s" "e_now e" s t] s(1) by (auto simp: dispatch_post_def)
  have "sys_inv us (y\<lparr>sy_sched := s\<rparr>)" by (rule sys_inv_calm [OF inv s])
  then show "sys_inv us (y\<lparr>sy_sched := t\<rparr>)"
    using sys_inv_sent [of us "y\<lparr>sy_sched := s\<rparr>" t] it st s(2) by (simp add: calm_def same_chans_def)
qed

lemma mset_sub_distinct:
  assumes "mset ys \<subseteq># mset xs" and "distinct xs"
  shows "distinct ys"
proof -
  obtain C where "mset xs = mset ys + C" using assms(1) by (auto simp: subset_mset.le_iff_add)
  moreover obtain zs where "mset zs = C" using ex_mset by blast
  ultimately have "mset xs = mset (ys @ zs)" by simp
  then show ?thesis using assms(2) mset_eq_imp_distinct_iff [of xs "ys @ zs"] by simp
qed

text \<open>Steps after which no more runs are outstanding than before.\<close>

lemma sys_inv_fewer:
  assumes inv: "sys_inv us y" and z: "sched_inv us {} (sy_sched z)" "flights (sy_sched z) = flights (sy_sched y)"
      "caps (sy_sched z) = caps (sy_sched y)" "s_runID (sy_sched z) = s_runID (sy_sched y)"
      "s_started (sy_sched z) = s_started (sy_sched y)" "s_running (sy_sched z) \<Longrightarrow> s_running (sy_sched y)"
    and m: "mset (outstanding z) \<subseteq># mset (outstanding y)"
    and sub: "set (s_tasks (sy_sched z)) \<subseteq> set (s_tasks (sy_sched y))"
    and c: "\<not> s_started (sy_sched y) \<Longrightarrow> s_completions (sy_sched z) = []"
  shows "sys_inv us z"
proof -
  have "mset (current z) \<subseteq># mset (current y)"
    using multiset_filter_mono [OF m, of "\<lambda>x. snd x = s_runID (sy_sched y)"] by (simp add: current_def z)
  then have "distinct (current z)" "set (current z) \<subseteq> set (current y)"
    using mset_sub_distinct [of "current z" "current y"] set_mset_mono [of "mset (current z)" "mset (current y)"] inv
    by (simp_all add: sys_inv_def)
  moreover have "set (outstanding z) \<subseteq> set (outstanding y)" using set_mset_mono [OF m] by simp
  ultimately show ?thesis using inv z(1,6) sub c unfolding sys_inv_def z(2-5)
    by (intro conjI) (blast, blast, blast, blast, blast, blast, blast, blast, use sub in fastforce)
qed

lemma complete_inv:
  assumes inv: "sys_inv us y" and st: "s_started (sy_sched y)" and us: "e_uuidString e = us"
    and c: "s_completions (sy_sched y) = c # rest"
  shows "sys_inv us (y\<lparr>sy_sched := handleCompletion e c ((sy_sched y)\<lparr>s_completions := rest\<rparr>)\<rparr>)"
proof -
  let ?s = "sy_sched y" and ?u = "(sy_sched y)\<lparr>s_completions := rest\<rparr>"
  let ?y = "y\<lparr>sy_sched := ?u\<rparr>"
  have M: "mset (outstanding y) = add_mset (completion_run c) (mset (outstanding ?y))"
    by (simp add: outstanding_def c)
  have uinv: "sys_inv us ?y"
    by (rule sys_inv_fewer [OF inv]) (use inv M st in \<open>auto simp: sys_inv_def caps_def\<close>)
  show ?thesis
  proof (cases "accepted e c ?u")
    case False
    then show ?thesis using uinv completion_ignored [OF False] by simp
  next
    case True
    let ?t = "handleCompletion e c ?u"
    have iu: "sched_inv (e_uuidString e) {} ?u" using uinv us by (simp add: sys_inv_def)
    note A = completion_accepted [OF iu True refl]
    have run: "cp_RunID c = s_runID ?s" using A(3) inv by (auto simp: sys_inv_def)
    have "mset (current y) = mset (completion_run c # current ?y)" using M run by (simp add: current_def)
    then have "distinct (current y) = distinct (completion_run c # current ?y)" by (rule mset_eq_imp_distinct_iff)
    then have "completion_run c \<notin> set (current ?y)" using inv by (simp add: sys_inv_def)
    then have keys: "fst x \<noteq> cp_Key c" if "x \<in> set (current ?y)" for x
      using that run by (cases x) (auto simp: current_def)
    have F: "same_chans ?u ?t" "s_tasks ?t = s_tasks ?u" "flights ?t = {x \<in> flights ?s. fst x \<noteq> cp_Key c}"
      using A(2) by (simp_all add: landed_def)
    then have G: "s_runID ?t = s_runID ?s" "s_running ?t = s_running ?s" "s_started ?t = s_started ?s" "s_completions ?t = rest"
      by (simp_all add: same_chans_def)
    have O: "outstanding (y\<lparr>sy_sched := ?t\<rparr>) = outstanding ?y" by (simp add: outstanding_def F G)
    then have C: "current (y\<lparr>sy_sched := ?t\<rparr>) = current ?y" by (simp add: current_def G)
    show ?thesis
      using uinv A(1) us keys st caps_chans [OF F(1)] unfolding sys_inv_def O C by (auto simp: F G)
  qed
qed

lemma event_inv:
  assumes inv: "sys_inv us y" and run: "s_running (sy_sched y)" and us: "e_uuidString e = us"
  shows "sys_inv us (y\<lparr>sy_sched := handleEvent e ev (sy_sched y)\<rparr>)"
proof (cases ev)
  case RefreshTick
  then show ?thesis using sys_inv_keeps [OF inv refreshDevices_keeps [of e, unfolded us]] by (simp add: handleEvent_def)
next
  case RedueReceived
  show ?thesis
  proof (cases "s_redueRequests (sy_sched y)")
    case Nil
    then show ?thesis using RedueReceived inv by (simp add: handleEvent_def)
  next
    case (Cons request rest)
    let ?y = "y\<lparr>sy_sched := (sy_sched y)\<lparr>s_redueRequests := rest\<rparr>\<rparr>"
    have "sys_inv us ?y"
      by (rule sys_inv_fewer [OF inv]) (use inv in \<open>simp_all add: sys_inv_def caps_def outstanding_def\<close>)
    then show ?thesis
      using sys_inv_keeps [of us ?y] handleReduePerformance_keeps [of e "sy_sched ?y" request]
        handleRedueEssential_keeps [of e "sy_sched ?y" request] us RedueReceived Cons
      by (simp add: handleEvent_def Let_def)
  qed
next
  case CompletionReceived
  then show ?thesis using complete_inv [OF inv _ us] inv run by (auto simp: handleEvent_def sys_inv_def split: list.split)
next
  case TimerFired
  then show ?thesis using inv by (simp add: handleEvent_def)
qed

lemma request_inv:
  assumes inv: "sys_inv us y" and s: "s = sy_sched y \<or> (\<exists>rs. s = (sy_sched y)\<lparr>s_redueRequests := rs\<rparr>) \<or>
      (\<exists>v reason. s = IncSchedulerBackpressure v reason (sy_sched y))"
  shows "sys_inv us (y\<lparr>sy_sched := s\<rparr>)"
proof -
  have i: "sched_inv us {} s" using s inv by (auto simp: sys_inv_def)
  have F: "flights s = flights (sy_sched y)" using s by auto
  have G: "caps s = caps (sy_sched y)" "s_runID s = s_runID (sy_sched y)" "s_started s = s_started (sy_sched y)"
      "s_running s = s_running (sy_sched y)" "s_tasks s = s_tasks (sy_sched y)" "s_completions s = s_completions (sy_sched y)"
    using s by (auto simp: caps_def IncSchedulerBackpressure_def)
  have c: "\<not> s_started (sy_sched y) \<Longrightarrow> s_completions (sy_sched y) = []" using inv by (simp add: sys_inv_def)
  show ?thesis by (rule sys_inv_fewer [OF inv]) (simp_all add: i F G c outstanding_def)
qed

lemma sendRedue_cases: "sendRedue q s = Some t \<Longrightarrow> \<exists>rs. t = s\<lparr>s_redueRequests := rs\<rparr>"
  by (auto simp: sendRedue_def split: if_splits)

lemma receive_inv:
  assumes inv: "sys_inv us y" and t: "s_tasks (sy_sched y) = task # rest"
  shows "sys_inv us \<lparr>sy_sched = (sy_sched y)\<lparr>s_tasks := rest\<rparr>, sy_executing = task # sy_executing y\<rparr>"
  by (rule sys_inv_fewer [OF inv])
    (use inv t in \<open>auto simp: sys_inv_def caps_def outstanding_def\<close>)

lemma remove1_runs: "task \<in> set ex \<Longrightarrow> mset (map task_run ex) = add_mset (task_run task) (mset (map task_run (remove1 task ex)))"
  by (induction ex) auto

lemma finish_inv:
  assumes inv: "sys_inv us y" and task: "task \<in> set (sy_executing y)"
    and c: "Complete (completionOf task finishedAt) (sy_sched y) = Some s"
  shows "sys_inv us \<lparr>sy_sched = s, sy_executing = remove1 task (sy_executing y)\<rparr>"
proof (cases "s_running (sy_sched y)")
  case True
  then have s: "s = (sy_sched y)\<lparr>s_completions := s_completions (sy_sched y) @ [completionOf task finishedAt]\<rparr>"
    using c by (auto simp: Complete_def split: if_splits)
  have st: "s_started (sy_sched y)" using inv True by (simp add: sys_inv_def)
  show ?thesis
    by (rule sys_inv_fewer [OF inv])
      (use inv st remove1_runs [OF task] in \<open>auto simp: s sys_inv_def caps_def outstanding_def completionOf_def\<close>)
next
  case False
  then have s: "s = sy_sched y" using c by (auto simp: Complete_def)
  show ?thesis
    by (rule sys_inv_fewer [OF inv])
      (use inv remove1_runs [OF task] in \<open>auto simp: s sys_inv_def caps_def outstanding_def\<close>)
qed

lemma cancel_inv:
  assumes inv: "sys_inv us y"
  shows "sys_inv us (y\<lparr>sy_sched := (sy_sched y)\<lparr>s_running := False\<rparr>\<rparr>)"
  by (rule sys_inv_fewer [OF inv]) (use inv in \<open>auto simp: sys_inv_def caps_def outstanding_def\<close>)

theorem step_inv:
  assumes "sys_step us y z" and inv: "sys_inv us y"
  shows "sys_inv us z"
  using assms(1)
proof cases
  case (start e s)
  then show ?thesis using start_inv [OF inv] by blast
next
  case stop
  then show ?thesis using stop_inv [OF inv] by simp
next
  case cancel
  then show ?thesis using cancel_inv [OF inv] by simp
next
  case (cycle e ctxDone reason s delay)
  then show ?thesis using cycle_inv(2) [OF inv] by blast
next
  case (event e ev)
  then show ?thesis using event_inv [OF inv] by blast
next
  case (reconcile e device changedAt)
  then show ?thesis using sys_inv_keeps [OF inv reconcile_keeps [of e, unfolded reconcile(2)]] by simp
next
  case (redue e device changedAt s)
  then show ?thesis using request_inv [OF inv, of s] sendRedue_cases
    by (auto simp: ReduePerformanceTask_def split: if_splits)
next
  case (redueEssential e device changedAt s)
  then show ?thesis using request_inv [OF inv, of s] sendRedue_cases
    by (auto simp: RedueEssentialTask_def split: if_splits)
next
  case (bootstrap e device dueAt ok s)
  then show ?thesis using request_inv [OF inv, of s] sendRedue_cases
    by (fastforce simp: ScheduleBootstrap_def split: if_splits option.splits)
next
  case (receive task rest)
  then show ?thesis using receive_inv [OF inv] by blast
next
  case (finish task finishedAt s)
  then show ?thesis using finish_inv [OF inv] by blast
qed

theorem reachable_inv: "reachable us y \<Longrightarrow> sys_inv us y"
  by (induction rule: reachable.induct) (auto intro: init_inv step_inv)

end
