(* ===== verification/Scheduler_Sync.thy ===== *)
theory Scheduler_Sync
  imports Scheduler_System
begin

text \<open>
  The schedule follows the inventory: what a refresh and a reconciliation leave scheduled, enabled or
  retired. An operation on one key touches no other key (\<open>others\<close>); a refresh enables the keys of
  every recurring device (\<open>gains\<close>) and drops or disables all other keys (\<open>retired\<close>).
\<close>

subsection \<open>Operations on one key\<close>

text \<open>\<open>others k s t\<close>: between \<open>s\<close> and \<open>t\<close> nothing changed but the item of key \<open>k\<close> and the positions in the heap.\<close>

definition others :: "TaskKey \<Rightarrow> Scheduler \<Rightarrow> Scheduler \<Rightarrow> bool" where
  "others k s t \<longleftrightarrow> (\<forall>j. j \<noteq> k \<longrightarrow> s_items t j = s_items s j) \<and>
     (\<forall>j r. j \<noteq> k \<longrightarrow> s_items s j = Some r \<longrightarrow> (s_mem t r)\<lparr>hi_index := 0\<rparr> = (s_mem s r)\<lparr>hi_index := 0\<rparr>)"

definition item_ok :: "(heapItem \<Rightarrow> bool) \<Rightarrow> TaskKey \<Rightarrow> Scheduler \<Rightarrow> bool" where
  "item_ok P k s \<longleftrightarrow> (case s_items s k of None \<Rightarrow> False | Some r \<Rightarrow> P (s_mem s r))"

lemma item_ok_Some: "s_items s k = Some r \<Longrightarrow> item_ok P k s = P (s_mem s r)"
  by (simp add: item_ok_def)

text \<open>A predicate that does not read the position.\<close>

definition blind :: "(heapItem \<Rightarrow> bool) \<Rightarrow> bool" where
  "blind P \<longleftrightarrow> (\<forall>it. P (it\<lparr>hi_index := 0\<rparr>) = P it)"

lemma others_item:
  assumes "others k s t" and "j \<noteq> k" and "blind P"
  shows "item_ok P j t = item_ok P j s" and "(s_items t j = None) = (s_items s j = None)"
proof -
  show "(s_items t j = None) = (s_items s j = None)" using assms(1,2) by (simp add: others_def)
  show "item_ok P j t = item_ok P j s"
  proof (cases "s_items s j")
    case None
    then show ?thesis using assms(1,2) by (simp add: others_def item_ok_def)
  next
    case (Some r)
    then have "s_items t j = Some r" "(s_mem t r)\<lparr>hi_index := 0\<rparr> = (s_mem s r)\<lparr>hi_index := 0\<rparr>"
      using assms(1,2) by (simp_all add: others_def)
    then show ?thesis using Some assms(3) by (simp add: item_ok_def blind_def) metis
  qed
qed

lemma others_refl [simp]: "others k s s"
  by (simp add: others_def)

lemma others_trans: "others k s t \<Longrightarrow> others k t u \<Longrightarrow> others k s u"
  by (simp add: others_def)

lemma others_upd:
  assumes "sched_inv us L s" and "s_items s k = Some r"
  shows "others k s (upd r f s)"
proof -
  have "x \<noteq> r" if "j \<noteq> k" "s_items s j = Some x" for j x
    using item_inj [OF place_of [OF assms(1)] assms(2)] that by blast
  then show ?thesis by (auto simp: others_def)
qed

lemma others_delete [simp]: "others k s (deleteItem k t) = others k s t"
  by (auto simp: others_def)

lemma others_store:
  assumes "\<And>x. (s_mem t x)\<lparr>hi_index := 0\<rparr> = (s_mem s x)\<lparr>hi_index := 0\<rparr>" and "s_items t = s_items s"
  shows "others k s t"
  using assms by (simp add: others_def)

lemma others_front:
  assumes "sched_inv us L s" and "s_items s k = Some r"
  shows "others k s (pushReadyFront r s)"
proof -
  have "x \<noteq> r" if "j \<noteq> k" "s_items s j = Some x" for j x
    using item_inj [OF place_of [OF assms(1)] assms(2)] that by blast
  then show ?thesis by (auto simp: others_def pushReadyFront_def Let_def)
qed

lemma others_removeReady:
  assumes "sched_inv us L s" and "s_items s k = Some r"
  shows "others k s (removeReadyItem r s)"
proof -
  have "x \<noteq> r" if "j \<noteq> k" "s_items s j = Some x" for j x
    using item_inj [OF place_of [OF assms(1)] assms(2)] that by blast
  then show ?thesis by (auto simp: others_def removeReadyItem_def split: option.split)
qed

lemma others_fresh:
  assumes inv: "sched_inv us {} s" and a: "allocItem it s = (r, s')" and k: "s_items s k = None"
  shows "others k s (putItem k r s')"
proof -
  have "s_items s j \<noteq> Some (s_next s)" for j using item_invD(1) [OF place_of [OF inv], of j "s_next s"] by auto
  then show ?thesis using a by (auto simp: others_def allocItem_def putItem_def)
qed

definition enabled :: "TaskKey \<Rightarrow> Scheduler \<Rightarrow> bool" where
  "enabled k s \<longleftrightarrow> item_ok (\<lambda>it. \<not> hi_disabled it) k s"

lemma blind_preds [simp]: "blind (\<lambda>it. \<not> hi_disabled it)" "blind hi_disabled"
    "blind (\<lambda>it. hi_inFlight it \<and> hi_disabled it)" "blind (\<lambda>it. (hi_inFlight it \<or> hi_queued it) \<and> hi_disabled it)"
  by (simp_all add: blind_def)

lemma enabled_others: "others k s t \<Longrightarrow> j \<noteq> k \<Longrightarrow> enabled j t = enabled j s"
  unfolding enabled_def by (rule others_item) simp_all

text \<open>Scheduling a key leaves it scheduled and enabled, and touches no other key.\<close>

lemma upsert_sync:
  assumes inv: "sched_inv (e_uuidString e) {} s" and f: "fits key kind lane volatility device"
  shows "others key s (upsertScheduledItem e device key kind lane volatility interval now s)"
    and "enabled key (upsertScheduledItem e device key kind lane volatility interval now s)"
proof -
  let ?t = "upsertScheduledItem e device key kind lane volatility interval now s"
  have "others key s ?t \<and> enabled key ?t"
  proof (cases "s_items s key")
    case None
    define due where "due = tAdd now (initialOffsetForKey key interval)"
    define it where "it = newHeapItem (newTask key kind lane device volatility interval due) due interval"
    obtain r s' where a: "allocItem it s = (r, s')" by fastforce
    let ?u = "putItem key r s'"
    have t: "?t = pushHeap (e_uuidString e) r ?u"
      using None a by (simp add: upsertScheduledItem_def Let_def due_def it_def putItem_pushHeap)
    have iu: "sched_inv (e_uuidString e) {r} ?u"
      using newItem_inv [OF inv None a] fits_task [OF f] by (simp add: it_def)
    have m: "(s_mem ?t x)\<lparr>hi_index := 0\<rparr> = (s_mem ?u x)\<lparr>hi_index := 0\<rparr>" for x
      unfolding t by (rule heap_steps_mem(1) [OF place_of [OF iu], of key r]) (use limbo_item(2) [OF iu, of r] in simp_all)
    have "others key ?u ?t" by (rule others_store [OF m]) (simp add: t)
    then have o: "others key s ?t" using others_trans [OF others_fresh [OF inv a None]] by blast
    have "s_mem ?u r = it" using a by (auto simp: allocItem_def)
    then have "\<not> hi_disabled (s_mem ?t r)" using same_item(10) [OF m [of r]] by (simp add: it_def newHeapItem_def)
    moreover have "s_items ?t key = Some r" by (simp add: t)
    ultimately show ?thesis using o by (simp add: enabled_def item_ok_def)
  next
    case (Some r)
    then show ?thesis using others_upd [OF inv Some] by (simp add: upsertScheduledItem_def enabled_def item_ok_def)
  qed
  then show "others key s ?t" "enabled key ?t" by simp_all
qed

lemma replaceItem_mem:
  assumes inv: "sched_inv us {} s" and k: "s_items s k = Some r" and ok: "task_ok k (hi_task (f (s_mem s r)))"
    and same: "hi_queued (f (s_mem s r)) = hi_queued (s_mem s r)" "hi_inFlight (f (s_mem s r)) = hi_inFlight (s_mem s r)"
      "hi_index (f (s_mem s r)) = hi_index (s_mem s r)"
  shows "others k s (replaceItem us r (upd r f s))"
    and "hi_disabled (s_mem (replaceItem us r (upd r f s)) r) = hi_disabled (f (s_mem s r))"
proof -
  let ?t = "upd r f s"
  have p: "place_inv us {} s" by (rule place_of [OF inv])
  have neq: "x \<noteq> r" if "j \<noteq> k" "s_items s j = Some x" for j x using item_inj [OF p k] that by blast
  consider (fly) "hi_inFlight (s_mem s r)" | (queue) "\<not> hi_inFlight (s_mem s r)" "hi_queued (s_mem s r)"
    | (heap) "\<not> hi_inFlight (s_mem s r)" "\<not> hi_queued (s_mem s r)" by blast
  then have "others k s (replaceItem us r ?t) \<and> hi_disabled (s_mem (replaceItem us r ?t) r) = hi_disabled (f (s_mem s r))"
  proof cases
    case fly
    then show ?thesis using same neq by (auto simp: replaceItem_def others_def)
  next
    case queue
    then show ?thesis using same neq
      by (auto simp: replaceItem_def others_def pushReadyFront_def removeReadyItem_def Let_def split: option.split)
  next
    case heap
    note h = in_heap [OF inv k heap]
    have m: "(s_mem (replaceItem us r ?t) x)\<lparr>hi_index := 0\<rparr> = (s_mem ?t x)\<lparr>hi_index := 0\<rparr>" for x
      using fixHeap_mem [OF p k h(1), of f x] same(3) heap h(2) by (simp add: replaceItem_def same)
    have "s_items (replaceItem us r ?t) = s_items ?t" using heap h(2) same by (simp add: replaceItem_def)
    then have "others k ?t (replaceItem us r ?t)" by (rule others_store [OF m])
    then show ?thesis using others_trans [OF others_upd [OF inv k]] same_item(10) [OF m [of r]] by simp
  qed
  then show "others k s (replaceItem us r ?t)"
    "hi_disabled (s_mem (replaceItem us r ?t) r) = hi_disabled (f (s_mem s r))" by simp_all
qed

lemma replaceItem_items [simp]: "s_items (replaceItem us r s) = s_items s"
  by (simp add: replaceItem_def)

lemma applySchedule_enabled [simp]: "\<not> hi_disabled (applySchedule key kind lane volatility device dueAt interval it)"
  by (simp add: applySchedule_def)

lemma fresh_front_sync:
  assumes inv: "sched_inv us {} s" and k: "s_items s k = None" and a: "allocItem it s = (r, s')"
    and ok: "task_ok k (hi_task it)" and it: "\<not> hi_queued it" "\<not> hi_inFlight it" "hi_index it = -1" "\<not> hi_disabled it"
  shows "others k s (pushReadyFront r (putItem k r s'))" and "enabled k (pushReadyFront r (putItem k r s'))"
proof -
  let ?u = "putItem k r s'"
  have iu: "sched_inv us {r} ?u" using newItem_inv [OF inv k a ok it(1-3)] by simp
  show "others k s (pushReadyFront r ?u)"
    by (rule others_trans [OF others_fresh [OF inv a k] others_front [OF iu]]) simp
  have "s_mem ?u r = it" using a by (auto simp: allocItem_def)
  then show "enabled k (pushReadyFront r ?u)" using it by (simp add: enabled_def item_ok_def pushReadyFront_def Let_def)
qed

lemma bootstrap_sync:
  assumes inv: "sched_inv (e_uuidString e) {} s"
  defines "key device \<equiv> NewBootstrapTaskKey (dev_ID device)"
  shows "others (key device) s (scheduleBootstrapItem e device dueAt s)" and "enabled (key device) (scheduleBootstrapItem e device dueAt s)"
proof -
  let ?t = "scheduleBootstrapItem e device dueAt s"
  have "others (key device) s ?t \<and> enabled (key device) ?t"
  proof (cases "s_items s (key device)")
    case None
    then show ?thesis
      using fresh_front_sync [OF inv None] fits_task [OF fits_keys(1)]
      by (auto simp: scheduleBootstrapItem_def key_def Let_def newHeapItem_def split: prod.split)
  next
    case (Some r)
    then show ?thesis
      using replaceItem_mem [OF inv Some] applySchedule_ok [OF fits_keys(1)]
      by (simp add: scheduleBootstrapItem_def applyBootstrapSchedule_def key_def enabled_def item_ok_def)
  qed
  then show "others (key device) s ?t" "enabled (key device) ?t" by simp_all
qed

text \<open>The keys a step enables; no step below disables an enabled key.\<close>

definition gains :: "(uuid \<Rightarrow> string) \<Rightarrow> TaskKey set \<Rightarrow> Scheduler \<Rightarrow> Scheduler \<Rightarrow> bool" where
  "gains us K s t \<longleftrightarrow> (sched_inv us {} s \<longrightarrow> sched_inv us {} t \<and> (\<forall>k. k \<in> K \<or> enabled k s \<longrightarrow> enabled k t))"

lemma gains_refl [simp]: "gains us {} s s"
  by (simp add: gains_def)

lemma gains_trans: "gains us K s t \<Longrightarrow> gains us K' t u \<Longrightarrow> gains us (K \<union> K') s u"
  by (auto simp: gains_def)

lemma gains_one:
  assumes "keeps us s t" and "sched_inv us {} s \<Longrightarrow> others k s t" and "sched_inv us {} s \<Longrightarrow> enabled k t"
  shows "gains us {k} s t"
  unfolding gains_def
proof
  assume inv: "sched_inv us {} s"
  have "enabled j t" if "j = k \<or> enabled j s" for j
    using that assms(2,3) [OF inv] enabled_others [of k s t j] by (cases "j = k") auto
  then show "sched_inv us {} t \<and> (\<forall>j. j \<in> {k} \<or> enabled j s \<longrightarrow> enabled j t)"
    using assms(1) inv by (simp add: keeps_def)
qed

lemma gains_fold:
  "(\<And>x s. x \<in> set xs \<Longrightarrow> gains us (K x) s (f x s)) \<Longrightarrow> gains us (\<Union>x\<in>set xs. K x) s (fold f xs s)"
proof (induction xs arbitrary: s)
  case (Cons x xs)
  have "gains us (K x) s (f x s)" "gains us (\<Union>x\<in>set xs. K x) (f x s) (fold f xs (f x s))" using Cons by simp_all
  then show ?case using gains_trans by simp
qed simp

lemma upsert_gains:
  "fits key kind lane volatility device \<Longrightarrow>
   gains (e_uuidString e) {key} s (upsertScheduledItem e device key kind lane volatility interval now s)"
  by (rule gains_one [OF upsert_keeps]) (use upsert_sync in simp_all)

lemma bootstrap_gains:
  "gains (e_uuidString e) {NewBootstrapTaskKey (dev_ID device)} s (scheduleBootstrapItem e device dueAt s)"
  by (rule gains_one [OF scheduleBootstrapItem_keeps]) (use bootstrap_sync in simp_all)

lemma applyBootstrap_gains:
  assumes k: "s_items s (NewBootstrapTaskKey (dev_ID device)) = Some r"
  shows "gains us {NewBootstrapTaskKey (dev_ID device)} s (applyBootstrapSchedule r device (hi_dueAt (s_mem s r)) interval s)"
  using applyBootstrap_keeps [OF k] others_upd [OF _ k] k
  by (intro gains_one) (auto simp: applyBootstrapSchedule_def enabled_def item_ok_def)

lemma scheduleRecurring_gains:
  "gains (e_uuidString e) (set (scheduledKeys device)) s (scheduleRecurringDeviceLocked e device now s)"
proof -
  let ?us = "e_uuidString e"
  define s1 where "s1 = (if shouldScheduleEssentialTask device
               then upsertScheduledItem e device (NewEssentialTaskKey (dev_ID device)) TaskKindEssential
                      LaneEssential VolatilityClassNone (EssentialInterval device) now s
               else s)"
  define s2 where "s2 = (if shouldScheduleBootstrapTask device
               then (case s_items s1 (NewBootstrapTaskKey (dev_ID device)) of
                       Some r \<Rightarrow> applyBootstrapSchedule r device (hi_dueAt (s_mem s1 r)) StaticClassInterval s1
                     | None \<Rightarrow> scheduleBootstrapItem e device now s1)
               else s1)"
  let ?K1 = "if shouldScheduleEssentialTask device then {NewEssentialTaskKey (dev_ID device)} else {}"
  let ?K2 = "if shouldScheduleBootstrapTask device then {NewBootstrapTaskKey (dev_ID device)} else {}"
  let ?K3 = "\<Union>v\<in>set (scheduledBackgroundVolatilityClassesForDevice device). {NewBackgroundTaskKey (dev_ID device) v}"
  have 1: "gains ?us ?K1 s s1" unfolding s1_def by (simp add: upsert_gains)
  have 2: "gains ?us ?K2 s1 s2"
    unfolding s2_def by (auto simp: bootstrap_gains applyBootstrap_gains split: option.split)
  have 3: "gains ?us ?K3 s2 (fold (scheduleBackgroundClass e device now) (scheduledBackgroundVolatilityClassesForDevice device) s2)"
    by (rule gains_fold) (simp add: scheduleBackgroundClass_def upsert_gains scheduled_classes)
  have eq: "scheduleRecurringDeviceLocked e device now s =
      fold (scheduleBackgroundClass e device now) (scheduledBackgroundVolatilityClassesForDevice device) s2"
    unfolding scheduleRecurringDeviceLocked_def Let_def s2_def s1_def ..
  have K: "set (scheduledKeys device) = (?K1 \<union> ?K2) \<union> ?K3" by (auto simp: scheduledKeys_def)
  show ?thesis unfolding eq K by (rule gains_trans [OF gains_trans [OF 1 2] 3])
qed

subsection \<open>Dropping keys\<close>

text \<open>
  \<open>retires P k s t\<close>: the key \<open>k\<close> is gone in \<open>t\<close>, or its item satisfies \<open>P\<close>; no other key is touched.
\<close>

definition retired :: "(heapItem \<Rightarrow> bool) \<Rightarrow> TaskKey \<Rightarrow> Scheduler \<Rightarrow> bool" where
  "retired P k s \<longleftrightarrow> (case s_items s k of None \<Rightarrow> True | Some r \<Rightarrow> P (s_mem s r))"

lemma retired_others:
  assumes "others k s t" and "j \<noteq> k" and "blind P"
  shows "retired P j t = retired P j s"
  using others_item [OF assms] by (auto simp: retired_def item_ok_def split: option.splits)

lemma retire_fold:
  assumes step: "\<And>k s. sched_inv us {} s \<Longrightarrow> sched_inv us {} (f k s) \<and> others k s (f k s) \<and> (k \<in> K \<longrightarrow> retired P k (f k s))"
    and P: "blind P" and inv: "sched_inv us {} s"
    and start: "\<And>k. k \<in> K \<Longrightarrow> k \<in> set xs \<or> retired P k s"
  shows "\<forall>k\<in>K. retired P k (fold f xs s)"
  using inv start
proof (induction xs arbitrary: s)
  case (Cons x xs)
  note S = step [OF Cons.prems(1), of x]
  have "k \<in> set xs \<or> retired P k (f x s)" if "k \<in> K" for k
    using Cons.prems(2) [OF that] S that retired_others [of x s "f x s" k P] P by (cases "k = x") auto
  then show ?case using Cons.IH [of "f x s"] S by simp
qed auto

lemma refreshItem_retires:
  assumes inv: "sched_inv (e_uuidString e) {} s"
  shows "others key s (refreshItem e seen key s)"
    and "key \<in> seen \<Longrightarrow> refreshItem e seen key s = s"
    and "key \<notin> seen \<Longrightarrow> retired (\<lambda>it. (hi_inFlight it \<or> hi_queued it) \<and> hi_disabled it) key (refreshItem e seen key s)"
proof -
  let ?t = "refreshItem e seen key s"
  show "key \<in> seen \<Longrightarrow> ?t = s" by (simp add: refreshItem_def split: option.split)
  show "others key s ?t"
  proof (cases "s_items s key")
    case None
    then show ?thesis by (simp add: refreshItem_def)
  next
    case (Some r)
    have "others key s (removeHeap (e_uuidString e) (hi_index (s_mem s r)) s)" if "r \<in> set (s_heap s)"
      by (rule others_store [OF heap_steps_mem(2) [OF place_of [OF inv] that]]) simp
    then show ?thesis
      using Some others_upd [OF inv Some] in_heap [OF inv Some] by (auto simp: refreshItem_def)
  qed
  show "retired (\<lambda>it. (hi_inFlight it \<or> hi_queued it) \<and> hi_disabled it) key ?t" if "key \<notin> seen"
    using that by (auto simp: refreshItem_def retired_def split: option.split)
qed

lemma removeDeviceItem_retires:
  assumes inv: "sched_inv (e_uuidString e) {} s"
  shows "others key s (removeDeviceItem e d key s)"
    and "tk_DeviceID key = d \<Longrightarrow> retired (\<lambda>it. hi_inFlight it \<and> hi_disabled it) key (removeDeviceItem e d key s)"
proof -
  let ?us = "e_uuidString e" and ?t = "removeDeviceItem e d key s"
  have "others key s ?t \<and> (tk_DeviceID key = d \<longrightarrow> retired (\<lambda>it. hi_inFlight it \<and> hi_disabled it) key ?t)"
  proof (cases "s_items s key")
    case None
    then show ?thesis by (simp add: removeDeviceItem_def retired_def)
  next
    case (Some r)
    define s1 where "s1 = (if hi_queued (s_mem s r) then removeReadyItem r s else s)"
    define s2 where "s2 = (if hi_index (s_mem s1 r) \<ge> 0 then removeHeap ?us (hi_index (s_mem s1 r)) s1 else s1)"
    define s3 where "s3 = upd r (\<lambda>it. it\<lparr>hi_pending := False\<rparr>) s2"
    have t: "tk_DeviceID key = d \<Longrightarrow> ?t = (if hi_inFlight (s_mem s3 r) then upd r (\<lambda>it. it\<lparr>hi_disabled := True\<rparr>) s3 else deleteItem key s3)"
      by (simp add: removeDeviceItem_def Some s1_def s2_def s3_def Let_def)
    have i1: "\<exists>L. sched_inv ?us L s1" "others key s s1" "s_items s1 key = Some r"
      using inv removeReadyItem_inv(1) [OF inv Some] others_removeReady [OF inv Some] Some by (auto simp: s1_def)
    then obtain L where L: "sched_inv ?us L s1" by blast
    have h: "r \<in> set (s_heap s1)" if "0 \<le> hi_index (s_mem s1 r)" using in_heap_iff [OF place_of [OF L] i1(3)] that by simp
    have i2: "\<exists>L. sched_inv ?us L s2" "others key s s2" "s_items s2 key = Some r"
      using L removeHeap_inv(1) [OF L i1(3) h] i1 others_trans [OF i1(2) others_store [OF heap_steps_mem(2) [OF place_of [OF L] h]]]
      by (auto simp: s2_def)
    then have i3: "others key s s3" "s_items s3 key = Some r"
      using others_trans [OF i2(2) others_upd [OF _ i2(3)]] by (auto simp: s3_def)
    show ?thesis
    proof (cases "tk_DeviceID key = d")
      case True
      have "others key s (upd r (\<lambda>it. it\<lparr>hi_disabled := True\<rparr>) s3)"
        unfolding s3_def upd_upd using others_trans [OF i2(2) others_upd [OF _ i2(3)]] i2(1) by blast
      then show ?thesis using t [OF True] i3 by (auto simp: retired_def)
    next
      case False
      then show ?thesis by (simp add: removeDeviceItem_def Some)
    qed
  qed
  then show "others key s ?t" "tk_DeviceID key = d \<Longrightarrow> retired (\<lambda>it. hi_inFlight it \<and> hi_disabled it) key ?t" by simp_all
qed

lemma enabled_fold:
  assumes "\<And>k s. sched_inv us {} s \<Longrightarrow> sched_inv us {} (f k s) \<and> others k s (f k s) \<and> (k \<in> K \<longrightarrow> f k s = s)"
    and "sched_inv us {} s" and "\<forall>k\<in>K. enabled k s"
  shows "\<forall>k\<in>K. enabled k (fold f xs s)"
  using assms(2,3)
proof (induction xs arbitrary: s)
  case (Cons x xs)
  note S = assms(1) [OF Cons.prems(1), of x]
  have "enabled k (f x s)" if "k \<in> K" for k
    using that Cons.prems(2) S enabled_others [of x s "f x s" k] by (cases "k = x") auto
  then show ?case using Cons.IH [of "f x s"] S by simp
qed simp

text \<open>The iteration order of a Go map is any enumeration of its keys.\<close>

definition range_ok :: "SchedEnv \<Rightarrow> bool" where
  "range_ok e \<longleftrightarrow> (\<forall>m. finite (dom m) \<longrightarrow> set (e_range e m) = dom m)"

lemma refresh_sync:
  assumes inv: "sched_inv (e_uuidString e) {} s" and range: "range_ok e" and devs: "e_devices e = Some devices"
    and t: "t = refreshDevices e now s"
    and seen: "seen = (\<Union>d\<in>{d \<in> set devices. shouldScheduleRecurringDevice d}. set (scheduledKeys d))"
  shows "\<forall>k\<in>seen. enabled k t"
    and "\<forall>k\<in>- seen. retired (\<lambda>it. (hi_inFlight it \<or> hi_queued it) \<and> hi_disabled it) k t"
proof -
  let ?us = "e_uuidString e" and ?recurring = "filter shouldScheduleRecurringDevice devices"
  let ?P = "\<lambda>it. (hi_inFlight it \<or> hi_queued it) \<and> hi_disabled it"
  define s1 where "s1 = fold (\<lambda>device. scheduleRecurringDeviceLocked e device now) ?recurring s"
  have seen': "set (concat (map scheduledKeys ?recurring)) = seen" by (auto simp: seen)
  define s2 where "s2 = fold (refreshItem e (set (concat (map scheduledKeys ?recurring)))) (e_range e (s_items s1)) s1"
  have s2: "s2 = fold (refreshItem e seen) (e_range e (s_items s1)) s1" by (simp only: s2_def seen')
  have "gains ?us (\<Union>d\<in>set ?recurring. set (scheduledKeys d)) s s1"
    unfolding s1_def by (rule gains_fold) (rule scheduleRecurring_gains)
  then have g: "sched_inv ?us {} s1" "\<forall>k\<in>seen. enabled k s1" using inv by (auto simp: gains_def seen)
  have "finite (dom (s_items s1))" using place_of [OF g(1)] by (simp add: place_inv_def)
  then have R: "set (e_range e (s_items s1)) = dom (s_items s1)" using range by (simp add: range_ok_def)
  have step: "sched_inv ?us {} (refreshItem e seen k u) \<and> others k u (refreshItem e seen k u) \<and>
      (k \<in> - seen \<longrightarrow> retired ?P k (refreshItem e seen k u))" if "sched_inv ?us {} u" for k u
    using refreshItem_retires [OF that] refreshItem_keeps that by (simp add: keeps_def)
  have "\<forall>k\<in>- seen. retired ?P k s2"
    unfolding s2 by (rule retire_fold [OF step]) (use g R in \<open>auto simp: retired_def split: option.split\<close>)
  moreover have "\<forall>k\<in>seen. enabled k s2"
    unfolding s2 by (rule enabled_fold) (use step g refreshItem_retires(2) in auto)
  moreover have "\<exists>ws b. t = s2\<lparr>s_lastWarnings := ws, s_degradedRisk := b\<rparr>"
    unfolding t refreshDevices_def devs option.case Let_def s1_def [symmetric] s2_def [symmetric] by (auto split: prod.split)
  ultimately show "\<forall>k\<in>seen. enabled k t"
    "\<forall>k\<in>- seen. retired ?P k t"
    by (auto simp: retired_def enabled_def item_ok_def split: option.splits)
qed

lemma removeDevice_sync:
  assumes inv: "sched_inv (e_uuidString e) {} s" and range: "range_ok e"
  shows "\<forall>k\<in>{k. tk_DeviceID k = d}. retired (\<lambda>it. hi_inFlight it \<and> hi_disabled it) k (removeDeviceTasksLocked e d s)"
proof -
  have "finite (dom (s_items s))" using place_of [OF inv] by (simp add: place_inv_def)
  then have R: "set (e_range e (s_items s)) = dom (s_items s)" using range by (simp add: range_ok_def)
  show ?thesis unfolding removeDeviceTasksLocked_def
  proof (rule retire_fold [of "e_uuidString e"])
    show "sched_inv (e_uuidString e) {} (removeDeviceItem e d k u) \<and> others k u (removeDeviceItem e d k u) \<and>
        (k \<in> {k. tk_DeviceID k = d} \<longrightarrow> retired (\<lambda>it. hi_inFlight it \<and> hi_disabled it) k (removeDeviceItem e d k u))"
      if "sched_inv (e_uuidString e) {} u" for k u
      using removeDeviceItem_retires [OF that, of k d] removeDeviceItem_keeps [of e u d k] that by (auto simp: keeps_def)
  qed (use inv R in \<open>auto simp: retired_def split: option.split\<close>)
qed

end
