(* ===== verification/Scheduler_Correct.thy ===== *)
theory Scheduler_Correct
  imports Scheduler_Sync
begin

text \<open>
  The properties of the scheduler: what holds in every reachable state and of every cycle, event and
  entry point. A concrete run, from the start of the scheduler over the request for an essential task
  to its dispatch (\<open>demoReady\<close>, \<open>demoFlying\<close>), shows that the hypotheses can hold.
\<close>

subsection \<open>A concrete run\<close>

definition demoDevice :: Device where
  "demoDevice = \<lparr>dev_ID = 7, dev_Hostname = ''sw1'', dev_IP = ''10.0.0.1'', dev_Notes = None,
     dev_SNMPCredentials = \<lparr>snmp_Version = SNMPVersionV2c, snmp_V2c = None, snmp_V3 = None\<rparr>,
     dev_DeviceType = DeviceTypeSwitch, dev_PollClass = PollClassCore, dev_PollIntervalOverride = None,
     dev_PollingEnabled = Some True, dev_Status = DeviceStatusUp, dev_SysName = [], dev_SysDescr = [],
     dev_SysObjectID = [], dev_HardwareModel = [], dev_OSVersion = [], dev_Vendor = [], dev_Managed = True,
     dev_Tags = Map.empty, dev_Interfaces = [], dev_Addresses = [], dev_ProbePorts = [], dev_AreaIDs = [1],
     dev_MetricsSource = MetricsSourceSNMP, dev_PrometheusLabelName = [], dev_PrometheusLabelValue = [],
     dev_TopologyDiscoveryMode = TopologyDiscoveryModeOff,
     dev_EffectiveTopologyDiscoveryMode = TopologyDiscoveryModeOff,
     dev_TopologyBootstrapState = TopologyBootstrapStateIdle, dev_LastTopologyDiscoveryAt = None,
     dev_LastTopologyDiscoveryResult = [], dev_CreatedAt = 0, dev_UpdatedAt = 0\<rparr>"

definition demoKey :: TaskKey where
  "demoKey = NewEssentialTaskKey (dev_ID demoDevice)"

definition demoEnv :: SchedEnv where
  "demoEnv = \<lparr>e_uuidString = (\<lambda>u. if u = 7 then ''d7'' else if u = 1 then ''a1'' else ''a2''), e_float = \<lparr>fl = id, parseFloat = (\<lambda>_. None)\<rparr>,
     e_settings = None, e_devices = None, e_gate = None, e_now = 1000, e_draw = 0,
     e_range = (\<lambda>m. SOME xs. set xs = dom m)\<rparr>"

definition demoStarted :: Scheduler where
  "demoStarted = NewScheduler\<lparr>s_started := True, s_runID := 1, s_running := True\<rparr>"

definition demoRequest :: reduePerformanceTaskRequest where
  "demoRequest = \<lparr>rq_device = demoDevice, rq_changedAt = 900, rq_taskKind = TaskKindEssential\<rparr>"

definition demoItem :: heapItem where
  "demoItem = (newHeapItem (newTask demoKey TaskKindEssential LaneEssential demoDevice VolatilityClassNone
     (EssentialInterval demoDevice) 900) 900 (EssentialInterval demoDevice))\<lparr>hi_queued := True\<rparr>"

definition demoReady :: Scheduler where
  "demoReady = demoStarted\<lparr>s_mem := (s_mem NewScheduler)(0 := demoItem), s_next := 1,
     s_items := [demoKey \<mapsto> 0], s_ready := (\<lambda>_. [])(0 := [0])\<rparr>"

lemma demo_start: "Start demoEnv NewScheduler = Inr demoStarted"
  by (simp add: Start_def refreshDevices_def demoEnv_def demoStarted_def NewScheduler_def)


lemma demo_device: "shouldScheduleRecurringDevice demoDevice" "dev_DeviceType demoDevice \<noteq> DeviceTypeVirtual"
  by (simp_all add: shouldScheduleRecurringDevice_def demoDevice_def DevicePollingEnabled_def IsVirtualNoIPDevice_def)

lemma demo_redue: "RedueEssentialTask demoEnv demoDevice 900 demoStarted = Some (demoStarted\<lparr>s_redueRequests := [demoRequest]\<rparr>)"
  using demo_device
  by (simp add: RedueEssentialTask_def sourceIncludesDevice_def sendRedue_def demoRequest_def)
     (simp add: demoStarted_def NewScheduler_def demoEnv_def defaultTaskBuffer_def IsZero_def)

lemma demo_fits: "task_ok demoKey (hi_task demoItem)"
  unfolding demoItem_def demoKey_def using fits_task [OF fits_keys(2)] by simp

lemma demo_index: "readyIndex (hi_task demoItem) = 0"
  using normalize_ok [OF demo_fits] by (simp add: readyIndex_def readyPriority_def Let_def)
    (simp add: demoItem_def newTask_def)

lemma demo_event: "handleEvent demoEnv RedueReceived (demoStarted\<lparr>s_redueRequests := [demoRequest]\<rparr>) = demoReady"
proof -
  let ?task = "newTask demoKey TaskKindEssential LaneEssential demoDevice VolatilityClassNone (EssentialInterval demoDevice) 900"
  have n: "normalizeTask ?task = ?task" "readyIndex ?task = 0"
    using normalize_ok [OF demo_fits] demo_index by (simp_all add: demoItem_def)
  have d: "?task\<lparr>pt_DueAt := 900\<rparr> = ?task" by (simp add: newTask_def)
  have i: "(newHeapItem ?task 900 v)\<lparr>hi_queued := True, hi_task := ?task\<rparr> = (newHeapItem ?task 900 v)\<lparr>hi_queued := True\<rparr>" for v
    by (simp add: newHeapItem_def)
  have m: "((s_mem NewScheduler)(0 := a))(0 := b) = (s_mem NewScheduler)(0 := b)" for a b by simp
  show ?thesis
    using demo_device n
    by (simp add: handleEvent_def demoRequest_def handleRedueEssentialTask_def sourceIncludesDevice_def demoEnv_def
      demoStarted_def NewScheduler_def IsZero_def Let_def allocItem_def putItem_def pushReadyFront_def upd_def
      demoItem_def demoReady_def d i flip: demoKey_def)
qed

lemma demo_reachable:
  "reachable (e_uuidString demoEnv) \<lparr>sy_sched = demoReady, sy_executing = []\<rparr>"
proof -
  let ?us = "e_uuidString demoEnv"
  let ?y = "\<lambda>s. \<lparr>sy_sched = s, sy_executing = []\<rparr>"
  have "reachable ?us (?y NewScheduler)" using reachable.init by (simp add: initSystem_def)
  moreover have "sys_step ?us (?y NewScheduler) (?y demoStarted)"
    using sys_step.start [OF refl, of "?y NewScheduler" demoEnv demoStarted] demo_start by (simp add: NewScheduler_def)
  moreover have "sys_step ?us (?y demoStarted) (?y (demoStarted\<lparr>s_redueRequests := [demoRequest]\<rparr>))"
    using sys_step.redueEssential [of demoEnv demoDevice 900 "?y demoStarted", OF _] demo_redue by simp
  moreover have "sys_step ?us (?y (demoStarted\<lparr>s_redueRequests := [demoRequest]\<rparr>)) (?y demoReady)"
    using sys_step.event [OF refl, of "?y (demoStarted\<lparr>s_redueRequests := [demoRequest]\<rparr>)" demoEnv RedueReceived] demo_event
    by (simp add: demoStarted_def)
  ultimately show ?thesis by (blast intro: reachable.step)
qed

lemma computeDispatchLimits_pos:
  "1 \<le> dl_essentialLimit (computeDispatchLimits e s)" "1 \<le> dl_globalLimit (computeDispatchLimits e s)"
  "1 \<le> pol_MaxWorkersPerDevice (dl_policy (computeDispatchLimits e s))"
proof -
  have r: "policy_in_range (fst (PolicyFromSettings (e_float e) (e_settings e) 0 0 0))"
    by (rule PolicyFromSettings_in_range)
  show d: "1 \<le> dl_essentialLimit (computeDispatchLimits e s)"
    using r by (simp add: computeDispatchLimits_def clampEssentialLimit_def Let_def policy_in_range_def)
  have "1 \<le> Budget_Sum (classBudgets e s)" by (simp add: Budget_Sum_eq)
  then show "1 \<le> dl_globalLimit (computeDispatchLimits e s)"
    using d by (auto simp: computeDispatchLimits_def Let_def)
  show "1 \<le> pol_MaxWorkersPerDevice (dl_policy (computeDispatchLimits e s))"
    using r by (simp add: computeDispatchLimits_def Let_def policy_in_range_def)
qed

definition no_counts :: "Scheduler \<Rightarrow> bool" where
  "no_counts s \<longleftrightarrow> s_inFlightByKind s = Map.empty \<and> s_essentialByDevice s = Map.empty \<and> s_essentialBySite s = Map.empty \<and>
     s_essentialBySubnet s = Map.empty \<and> s_essentialByProfile s = Map.empty"

lemma idle_admissible:
  assumes ok: "task_ok k (hi_task (s_mem s r))" and ess: "essential_key k" and n: "no_counts s"
  shows "admissible e (computeDispatchLimits e s') s r"
proof -
  let ?l = "computeDispatchLimits e s'"
  have kind: "pt_Kind (hi_task (s_mem s r)) = TaskKindEssential" using ok ess by (simp add: task_ok_def essential_key_def)
  have z: "cget Map.empty x = 0" for x by (simp add: cget_def)
  have pos: "1 \<le> dl_essentialLimit ?l" by (rule computeDispatchLimits_pos)
  have "ib_reason (computeIsolationBlock e (hi_task (s_mem s r)) (dl_policy ?l) s) = []"
    using kind n by (auto simp: computeIsolationBlock_def Let_def normalize_ok [OF ok] no_counts_def z noBlock_def
        blockedSite_def find_None_iff)
  then show ?thesis
    using pos kind n by (simp add: admissible_def dispatchBlockWithLimits_def Let_def normalize_ok [OF ok] no_counts_def z)
qed

subsection \<open>Progress of a dispatch cycle\<close>

lemma deleteItem_block [simp]: "admissible e limits (deleteItem k s) y = admissible e limits s y"
proof -
  have "dispatchBlockWithLimits e task limits (deleteItem k s) = dispatchBlockWithLimits e task limits s" for task
    by (rule dispatchBlock_cong) (simp_all add: deleteItem_def same_counts_def)
  then show ?thesis by (simp add: admissible_def)
qed

lemma dispatchLoop_progress:
  assumes "sched_inv (e_uuidString e) {} s" and "known_sound limits state s" and "room limits s"
    and "dispatchLoop e limits (\<lambda>_. False) now n state s = (reason, t)"
    and "s_inFlight s < dl_globalLimit limits"
    and "\<exists>p<3. \<exists>r\<in>set (s_ready s p). admissible e limits s r \<and> \<not> hi_disabled (s_mem s r)"
  shows "length (s_tasks s) < length (s_tasks t)"
  using assms
proof (induction "length (readyRefs s)" arbitrary: n state s rule: less_induct)
  case less
  note prems = less.prems
  note step = prems(4) [unfolded dispatchLoop.simps [of e limits _ now n state s]]
  obtain x state' s' where pop: "popReadyEligible e limits state s = (x, state', s')" by (metis prod_cases3)
  show ?case
  proof (cases x)
    case None
    then show ?thesis using popReadyEligible_none(2) [OF prems(1) _ prems(2)] pop prems(6) by blast
  next
    case (Some r)
    note pop = pop [unfolded Some]
    note some = popReadyEligible_some [OF prems(1) pop prems(2)]
    obtain p as bs where p: "p < 3" "s_ready s p = as @ r # bs" "s' = take_out p (as @ bs) r s" using some(1) by blast
    have inv': "sched_inv (e_uuidString e) {r} s'" using take_out_inv [OF prems(1) p(1,2)] p(3) by simp
    have room': "room limits s'" "known_sound limits state' s'" using prems(3) some(3) p(3) by (simp_all add: room_def)
    obtain k where k: "s_items s' k = Some r" using limbo_item(1) [OF inv', of r] by auto
    have key: "pt_Key (hi_task (s_mem s' r)) = k" by (rule task_ok_Key [OF item_invD(2) [OF place_of [OF inv'] k]])
    show ?thesis
    proof (cases "hi_disabled (s_mem s' r)")
      case True
      let ?u = "deleteItem k s'"
      have "length (readyRefs ?u) < length (readyRefs s)" using popReadyEligible_shorter [OF pop [symmetric]] by simp
      moreover have "sched_inv (e_uuidString e) {} ?u" using deleteItem_inv [OF inv' k] by simp
      moreover have "known_sound limits state' ?u" "room limits ?u" "s_inFlight ?u < dl_globalLimit limits"
        using room' prems(5) p(3) by (simp_all add: room_def known_sound_def deleteItem_def)
      moreover have "\<exists>p<3. \<exists>r\<in>set (s_ready ?u p). admissible e limits ?u r \<and> \<not> hi_disabled (s_mem ?u r)"
      proof -
        obtain q y where y: "q < 3" "y \<in> set (s_ready s q)" "admissible e limits s y" "\<not> hi_disabled (s_mem s y)"
          using prems(6) by blast
        have "y \<noteq> r" using y(4) True p(3) by auto
        then have "y \<in> set (s_ready ?u q)" using y(2) p by (auto simp: take_out_def)
        then show ?thesis using y p(3) \<open>y \<noteq> r\<close> by auto
      qed
      ultimately have "length (s_tasks ?u) < length (s_tasks t)"
        using less.hyps [of ?u state' n] step prems(5) pop True key by simp
      then show ?thesis using p(3) by simp
    next
      case False
      let ?u = "sendTask e now r s'"
      have full: "length (s_tasks s') < s_tasksCap s'" using prems(3,5) p(3) by (simp add: room_def)
      have "dispatchLoop e limits (\<lambda>_. False) now (Suc n) state' ?u = (reason, t)"
        using step prems(5) pop False full by simp
      then have "loop_post e limits now ?u reason t"
        using dispatchLoop_spec [of e ?u limits state'] sendTask_inv [OF inv' _ refl] room' sendTask_sound sendTask_room by simp
      then have "sent ?u t" using moves_sent [of e limits now ?u t] sendTask_inv [OF inv' _ refl, of r now] by (simp add: loop_post_def)
      then show ?thesis using p(3) by (auto simp: sent_def)
    qed
  qed
qed

lemma demo_inv: "sched_inv (e_uuidString demoEnv) {} demoReady"
  using reachable_inv [OF demo_reachable] by (simp add: sys_inv_def)

lemma demo_fields:
  "s_items demoReady demoKey = Some 0" "s_mem demoReady 0 = demoItem" "s_ready demoReady 0 = [0]" "s_heap demoReady = []"
  "s_ready demoReady (Suc 0) = []" "s_ready demoReady 2 = []" "s_inFlight demoReady = 0" "s_tasks demoReady = []"
  "s_running demoReady" "s_started demoReady" "s_runID demoReady = 1" "no_counts demoReady" "s_tasksCap demoReady = 128"
  by (simp_all add: demoReady_def demoStarted_def NewScheduler_def no_counts_def defaultTaskBuffer_def)

lemma demo_admissible: "admissible demoEnv (computeDispatchLimits demoEnv s') demoReady 0"
  by (rule idle_admissible [of demoKey])
    (simp_all add: demo_fields demo_fits, simp add: demoKey_def NewEssentialTaskKey_def essential_key_def)

definition demoSent :: Scheduler where
  "demoSent = sendTask demoEnv 1000 0 (take_out 0 [] 0 demoReady)"

lemma demo_pop:
  "popReadyEligible demoEnv (computeDispatchLimits demoEnv demoReady) emptyScanState demoReady =
     (Some 0, emptyScanState, take_out 0 [] 0 demoReady)"
proof -
  have u: "upd 0 (\<lambda>it. it\<lparr>hi_task := normalizeTask (hi_task it)\<rparr>) demoReady = demoReady"
    by (rule upd_id) (simp add: demo_fields normalize_ok [OF demo_fits])
  have kind: "pt_Kind (hi_task demoItem) = TaskKindEssential" by (simp add: demoItem_def newTask_def)
  have "\<not> isKnownBlocked emptyScanState (hi_task demoItem)"
    by (simp add: isKnownBlocked_def emptyScanState_def Let_def)
  then have "scanQueue demoEnv (computeDispatchLimits demoEnv demoReady) TaskKindEssential 0 [] [0] emptyScanState demoReady =
      (Some 0, emptyScanState, take_out 0 [] 0 demoReady)"
    using demo_admissible [of demoReady] kind
    by (simp add: u demo_fields kindSkipped_def admissible_def take_out_def Let_def)
  then show ?thesis
    by (simp add: popReadyEligible_def popReadyEligibleKind_def upt_rec demo_fields)
qed

definition demoFlying :: Scheduler where
  "demoFlying = fst (snd (runCycle demoEnv (\<lambda>_. False) demoReady))"

lemma demo_dispatch:
  assumes "dispatchReady demoEnv (\<lambda>_. False) 1000 demoReady = (reason, t)"
  shows "reason = NoEligibleTask" and "\<exists>a b. t = demoSent\<lparr>s_backpressure := a, s_scopedBackpressure := b\<rparr>"
proof -
  let ?l = "computeDispatchLimits demoEnv demoReady"
  have ne: "\<not> readyQueuesEmpty demoReady" by (simp add: readyQueuesEmpty_def demo_fields upt_rec)
  have "\<not> hi_disabled (s_mem (take_out 0 [] 0 demoReady) 0)" by (simp add: demo_fields demoItem_def newHeapItem_def)
  then have loop: "dispatchLoop demoEnv ?l (\<lambda>_. False) 1000 (Suc 0) emptyScanState demoSent = (reason, t)"
    using ne computeDispatchLimits_pos(2) [of demoEnv demoReady] assms
    by (simp add: dispatchReady_def dispatchLoop.simps [of _ _ _ _ 0] demo_pop demo_fields demoSent_def)
  have q: "s_ready demoSent 0 = []" "s_ready demoSent (Suc 0) = []" "s_ready demoSent (Suc (Suc 0)) = []"
    using demo_fields(6) by (simp_all add: demoSent_def take_out_def demo_fields numeral_2_eq_2)
  have "popReadyEligible demoEnv ?l emptyScanState demoSent =
      (None, fst (flushBlockedMetrics emptyScanState demoSent), snd (flushBlockedMetrics emptyScanState demoSent))"
    by (simp add: popReadyEligible_def popReadyEligibleKind_def upt_rec q Let_def split: prod.split)
  moreover have "s_inFlight demoSent = 1" by (simp add: demoSent_def demo_fields)
  moreover have "2 \<le> dl_globalLimit ?l"
  proof -
    have "1 \<le> Budget_Sum (classBudgets demoEnv demoReady)" by (simp add: Budget_Sum_eq)
    moreover have "bufferLimit demoReady = 128"
      by (simp add: bufferLimit_def demoReady_def demoStarted_def NewScheduler_def defaultTaskBuffer_def Let_def)
    ultimately show ?thesis
      using computeDispatchLimits_pos(1) [of demoEnv demoReady] by (auto simp: computeDispatchLimits_def Let_def)
  qed
  ultimately have "reason = NoEligibleTask \<and> (\<exists>st. t = snd (flushBlockedMetrics st (snd (flushBlockedMetrics emptyScanState demoSent))))"
    using loop by (auto simp: dispatchLoop.simps [of _ _ _ _ "Suc 0"] case_prod_beta split: if_splits)
  then show "reason = NoEligibleTask" "\<exists>a b. t = demoSent\<lparr>s_backpressure := a, s_scopedBackpressure := b\<rparr>"
    by (auto simp: flushBlockedMetrics_def)
qed

lemma demo_flying: "\<exists>a b. demoFlying = demoSent\<lparr>s_backpressure := a, s_scopedBackpressure := b\<rparr>"
proof -
  have "moveDueTasksToReady demoEnv 1000 demoReady = demoReady"
    by (simp add: moveDueTasksToReady_def markElapsedInFlightWindows_def demo_fields drainDue.simps [of _ _ demoReady])
  moreover have "e_now demoEnv = 1000" by (simp add: demoEnv_def)
  moreover obtain reason t where d: "dispatchReady demoEnv (\<lambda>_. False) 1000 demoReady = (reason, t)" by fastforce
  ultimately have "demoFlying = t" by (simp add: demoFlying_def runCycle_def Let_def)
  then show ?thesis using demo_dispatch(2) [OF d] by simp
qed

lemma demo_cycle:
  "s_items demoFlying = [demoKey \<mapsto> 0]" "hi_inFlight (s_mem demoFlying 0)" "hi_dispatchedAt (s_mem demoFlying 0) = 1000"
  "hi_runID (s_mem demoFlying 0) = 1" "s_runID demoFlying = 1" "\<not> hi_disabled (s_mem demoFlying 0)"
  "hi_task (s_mem demoFlying 0) = dispatchTask demoItem 1 1000"
  "s_tasks demoFlying = [dispatchTask demoItem 1 1000]" "s_completions demoFlying = []" "s_redueRequests demoFlying = []"
  "s_redueCap demoFlying = 128" "s_completionsCap demoFlying = 128" "s_running demoFlying"
  "s_inFlightBySite demoFlying = [''a1'' \<mapsto> 1]"
proof -
  obtain a b where f: "demoFlying = demoSent\<lparr>s_backpressure := a, s_scopedBackpressure := b\<rparr>" using demo_flying by blast
  have d: "dispatchTask (s_mem (take_out 0 [] 0 demoReady) 0) 1 1000 = dispatchTask demoItem 1 1000"
    by (simp add: dispatchTask_def demo_fields Let_def)
  show "s_items demoFlying = [demoKey \<mapsto> 0]" "hi_inFlight (s_mem demoFlying 0)" "hi_dispatchedAt (s_mem demoFlying 0) = 1000"
    "hi_runID (s_mem demoFlying 0) = 1" "s_runID demoFlying = 1" "\<not> hi_disabled (s_mem demoFlying 0)"
    "hi_task (s_mem demoFlying 0) = dispatchTask demoItem 1 1000"
    "s_tasks demoFlying = [dispatchTask demoItem 1 1000]"
    unfolding f using d
    by (simp_all add: demoSent_def sendTask_mem demo_fields, simp_all add: demoReady_def demoItem_def newHeapItem_def)
  have "same_chans demoReady demoSent" by (simp add: demoSent_def)
  then show "s_completions demoFlying = []" "s_redueRequests demoFlying = []" "s_redueCap demoFlying = 128"
    "s_completionsCap demoFlying = 128" "s_running demoFlying"
    by (simp_all add: f same_chans_def demoReady_def demoStarted_def NewScheduler_def defaultTaskBuffer_def)
  have n: "normalizeTask (dispatchTask demoItem w now) = dispatchTask demoItem w now" for w now
    by (rule normalize_ok [OF dispatchTask_ok [OF demo_fits]])
  have a: "pt_Device (hi_task demoItem) = demoDevice" by (simp add: demoItem_def newTask_def)
  have "s_inFlightBySite demoReady = Map.empty" by (simp add: demoReady_def demoStarted_def NewScheduler_def)
  then show "s_inFlightBySite demoFlying = [''a1'' \<mapsto> 1]"
    using d by (simp add: f demoSent_def sendTask_def Let_def incrementInFlight_def incrementIsolationCounts_def demo_fields n a)
      (simp add: take_out_def demoDevice_def taskSiteKey_def demoEnv_def incrementCount_def cget_def upd_def)
qed

lemma demo_flying_reachable: "reachable (e_uuidString demoEnv) \<lparr>sy_sched = demoFlying, sy_executing = []\<rparr>"
proof -
  let ?y = "\<lparr>sy_sched = demoReady, sy_executing = []\<rparr>"
  obtain reason s delay where c: "runCycle demoEnv (\<lambda>_. False) demoReady = (reason, s, delay)" by (metis prod_cases3)
  then have "sys_step (e_uuidString demoEnv) ?y (?y\<lparr>sy_sched := s\<rparr>)"
    using sys_step.cycle [OF refl, of ?y demoEnv "\<lambda>_. False" reason s delay] demo_fields by simp
  then show ?thesis using reachable.step [OF demo_reachable] c by (simp add: demoFlying_def)
qed

subsection \<open>Properties of the scheduler\<close>

lemma count_one: "distinct xs \<Longrightarrow> count_list xs x = (if x \<in> set xs then 1 else 0)"
  by (induction xs) auto

text \<open>
  C1: No scheduled task is ever lost or duplicated. In every reachable state of the scheduler and its
  workers, each scheduled item is in exactly one place: once in the due-time heap, once in one ready
  queue, or in flight.
\<close>

theorem every_item_in_one_place:
  assumes "reachable us y" and "s_items (sy_sched y) k = Some r"
  shows "count_list (s_heap (sy_sched y)) r + count_list (readyRefs (sy_sched y)) r +
    (if hi_inFlight (s_mem (sy_sched y) r) then 1 else 0) = 1"
proof -
  have p: "place_inv us {} (sy_sched y)" using reachable_inv [OF assms(1)] by (simp add: sys_inv_def sched_inv_def)
  have d: "distinct (s_heap (sy_sched y))" "distinct (readyRefs (sy_sched y))"
    using p by (auto simp: place_inv_def heap_wf_def indexed_def)
  show ?thesis
    using item_invD(3,5) [OF p assms(2)] by (simp add: count_one [OF d(1)] count_one [OF d(2)] places_def)
qed

theorem every_item_in_one_place_witness:
  "count_list (s_heap demoFlying) 0 + count_list (readyRefs demoFlying) 0 +
    (if hi_inFlight (s_mem demoFlying 0) then 1 else 0) = (1::nat)"
  using every_item_in_one_place [OF demo_flying_reachable, of demoKey 0] demo_cycle by simp

text \<open>
  C2: A dispatch cycle never waits on the task channel. In every reachable state the run loop finds
  room for each task it sends, whatever the settings, so the \<open>select\<close> that sends a task while the
  scheduler holds its lock never blocks.
\<close>

theorem dispatch_never_blocks:
  assumes "reachable us y" and "e_uuidString e = us" and "s_running (sy_sched y)"
  shows "fst (runCycle e ctxDone (sy_sched y)) \<noteq> SendBlocked"
proof -
  obtain reason t delay where "runCycle e ctxDone (sy_sched y) = (reason, t, delay)" by (metis prod_cases3)
  then show ?thesis using cycle_inv(1) [OF reachable_inv [OF assms(1)] assms(2,3)] by simp
qed

theorem dispatch_never_blocks_witness:
  "fst (runCycle demoEnv (\<lambda>_. False) demoReady) \<noteq> SendBlocked"
  using dispatch_never_blocks [OF demo_reachable refl, of "\<lambda>_. False"] demo_fields by simp

text \<open>
  C3: A task is never run twice at the same time. In every reachable state, the tasks of the current
  run that wait in the task channel or are executed by a worker have pairwise distinct keys.
\<close>

theorem one_run_per_key:
  assumes "reachable us y"
  shows "distinct (map pt_Key (filter (\<lambda>x. pt_RunID x = s_runID (sy_sched y)) (s_tasks (sy_sched y) @ sy_executing y)))"
proof -
  let ?w = "s_runID (sy_sched y)" and ?ts = "s_tasks (sy_sched y) @ sy_executing y"
  have "current y = map task_run (filter (\<lambda>x. pt_RunID x = ?w) ?ts) @
      filter (\<lambda>x. snd x = ?w) (map completion_run (s_completions (sy_sched y)))"
    by (simp add: current_def outstanding_def filter_map o_def)
  moreover have "distinct (current y)" using reachable_inv [OF assms] by (simp add: sys_inv_def)
  ultimately have "distinct (map task_run (filter (\<lambda>x. pt_RunID x = ?w) ?ts))" by (simp only: distinct_append)
  moreover have "map task_run (filter (\<lambda>x. pt_RunID x = ?w) ?ts) = map (\<lambda>k. (k, ?w)) (map pt_Key (filter (\<lambda>x. pt_RunID x = ?w) ?ts))"
    by (induction ?ts) simp_all
  ultimately have "distinct (map (\<lambda>k. (k, ?w)) (map pt_Key (filter (\<lambda>x. pt_RunID x = ?w) ?ts)))" by (simp only:)
  then show ?thesis by (rule distinct_map [THEN iffD1, THEN conjunct1])
qed

theorem one_run_per_key_witness:
  "distinct (map pt_Key (filter (\<lambda>x. pt_RunID x = 1) (s_tasks demoFlying)))"
  using one_run_per_key [OF demo_flying_reachable] demo_cycle by simp

text \<open>
  C4: The in-flight counters are exact in every reachable state: the total, the essential count, the
  count of every volatility class and the counts of every device equal the number of scheduled items
  in flight of that kind.
\<close>

theorem counters_exact:
  assumes "reachable us y"
  shows "s_inFlight (sy_sched y) = int (card (flying (sy_sched y))) \<and>
    cget (s_inFlightByKind (sy_sched y)) TaskKindEssential = int (card {k \<in> flying (sy_sched y). essential_key k}) \<and>
    (\<forall>v. cget (s_inFlightByClass (sy_sched y)) v =
       int (card {k \<in> flying (sy_sched y). \<not> essential_key k \<and> key_class k = v})) \<and>
    (\<forall>d. d \<noteq> [] \<longrightarrow>
       cget (s_inFlightByDevice (sy_sched y)) d = int (card {k \<in> flying (sy_sched y). us (tk_DeviceID k) = d}) \<and>
       cget (s_essentialByDevice (sy_sched y)) d =
         int (card {k \<in> flying (sy_sched y). essential_key k \<and> us (tk_DeviceID k) = d}))"
  using reachable_inv [OF assms] unfolding sys_inv_def sched_inv_def count_inv_def by blast

theorem counters_exact_witness:
  "s_inFlight demoFlying = int (card (flying demoFlying)) \<and> demoKey \<in> flying demoFlying"
  using counters_exact [OF demo_flying_reachable] demo_cycle(1,2) by (auto simp: flying_def)

lemma reachable_dispatch:
  assumes "reachable us y" and "e_uuidString e = us" and "s_started (sy_sched y)"
  shows "sched_inv (e_uuidString e) {} (sy_sched y)" "room (computeDispatchLimits e (sy_sched y)) (sy_sched y)"
proof -
  have inv: "sys_inv us y" by (rule reachable_inv [OF assms(1)])
  then show s: "sched_inv (e_uuidString e) {} (sy_sched y)" using assms(2) by (simp add: sys_inv_def)
  show "room (computeDispatchLimits e (sy_sched y)) (sy_sched y)" using sys_room [OF inv assms(3)] s assms(2) by simp
qed



text \<open>
  C5: Dispatching is work-conserving: when a cycle ends because no task was eligible, every task still
  in a ready queue is blocked by a limit in the state the cycle ends in. In particular the memory of
  the scan (classes found at their limit are skipped) hides no admissible task.
\<close>

theorem dispatch_work_conserving:
  assumes "reachable us y" and "e_uuidString e = us" and "s_started (sy_sched y)"
    and "dispatchReady e ctxDone now (sy_sched y) = (NoEligibleTask, t)"
  shows "filter (\<lambda>r. ib_reason (dispatchBlockWithLimits e (hi_task (s_mem t r)) (computeDispatchLimits e (sy_sched y)) t) = [])
    (readyRefs t) = []"
proof -
  have "\<forall>p<3. \<forall>r\<in>set (s_ready t p). \<not> admissible e (computeDispatchLimits e (sy_sched y)) t r"
    using dispatchReady_loop [OF reachable_dispatch [OF assms(1-3)] assms(4)] by (simp add: loop_post_def)
  moreover have "(0::nat) < 3" "(1::nat) < 3" "(2::nat) < 3" by simp_all
  ultimately show ?thesis unfolding filter_empty_conv readyRefs_def set_append admissible_def by blast
qed

theorem dispatch_work_conserving_witness:
  "filter (\<lambda>r. ib_reason (dispatchBlockWithLimits demoEnv
      (hi_task (s_mem (snd (dispatchReady demoEnv (\<lambda>_. False) 1000 demoReady)) r))
      (computeDispatchLimits demoEnv demoReady) (snd (dispatchReady demoEnv (\<lambda>_. False) 1000 demoReady))) = [])
    (readyRefs (snd (dispatchReady demoEnv (\<lambda>_. False) 1000 demoReady))) = []"
proof -
  obtain reason t where d: "dispatchReady demoEnv (\<lambda>_. False) 1000 demoReady = (reason, t)" by fastforce
  then show ?thesis
    using dispatch_work_conserving [OF demo_reachable refl, of "\<lambda>_. False" 1000 t] demo_dispatch(1) [OF d] demo_fields by simp
qed

text \<open>
  C8: Essential work goes first: a scan of the ready queues returns a task that is not essential only
  when no ready essential task is admissible.
\<close>

theorem essential_first:
  assumes "reachable us y" and "popReadyEligible e limits emptyScanState (sy_sched y) = (Some r, state, s)"
    and "p < 3" and "x \<in> set (s_ready (sy_sched y) p)" and "pt_Kind (hi_task (s_mem (sy_sched y) x)) = TaskKindEssential"
    and "ib_reason (dispatchBlockWithLimits e (hi_task (s_mem (sy_sched y) x)) limits (sy_sched y)) = []"
  shows "pt_Kind (hi_task (s_mem (sy_sched y) r)) = TaskKindEssential"
proof -
  have inv: "sched_inv us {} (sy_sched y)" using reachable_inv [OF assms(1)] by (simp add: sys_inv_def)
  show ?thesis
    using popReadyEligible_some(4) [OF inv assms(2) emptyScanState_sound _ assms(3-5)] assms(6)
    by (auto simp: admissible_def)
qed

theorem essential_first_witness:
  "pt_Kind (hi_task (s_mem demoReady 0)) = TaskKindEssential"
  using essential_first [OF demo_reachable, of demoEnv "computeDispatchLimits demoEnv demoReady" 0 _ _ 0 0]
    demo_pop demo_admissible [of demoReady] demo_fields
  by (simp add: admissible_def) (simp add: demoItem_def newTask_def)

text \<open>
  C7: Dispatching makes progress: when an enabled ready task is admissible and the global limit is not
  reached, a cycle that is not cancelled sends at least one task.
\<close>

theorem dispatch_progress:
  assumes "reachable us y" and "e_uuidString e = us" and "s_started (sy_sched y)"
    and "s_inFlight (sy_sched y) < dl_globalLimit (computeDispatchLimits e (sy_sched y))"
    and "p < 3" and "r \<in> set (s_ready (sy_sched y) p)" and "\<not> hi_disabled (s_mem (sy_sched y) r)"
    and "ib_reason (dispatchBlockWithLimits e (hi_task (s_mem (sy_sched y) r)) (computeDispatchLimits e (sy_sched y)) (sy_sched y)) = []"
  shows "length (s_tasks (sy_sched y)) < length (s_tasks (snd (dispatchReady e (\<lambda>_. False) now (sy_sched y))))"
proof -
  let ?s = "sy_sched y" and ?l = "computeDispatchLimits e (sy_sched y)"
  obtain reason t where d: "dispatchReady e (\<lambda>_. False) now ?s = (reason, t)" by fastforce
  note R = reachable_dispatch [OF assms(1-3)]
  have "p \<in> set [0..<3]" "s_ready ?s p \<noteq> []" using assms(5,6) by auto
  then have "\<not> readyQueuesEmpty ?s" unfolding readyQueuesEmpty_def list_all_iff by blast
  then have "dispatchLoop e ?l (\<lambda>_. False) now 0 emptyScanState ?s = (reason, t)" using d by (simp add: dispatchReady_def)
  moreover have "\<exists>p<3. \<exists>r\<in>set (s_ready ?s p). admissible e ?l ?s r \<and> \<not> hi_disabled (s_mem ?s r)"
    using assms(5-8) by (auto simp: admissible_def)
  ultimately show ?thesis using dispatchLoop_progress [OF R(1) emptyScanState_sound R(2) _ assms(4)] d by simp
qed

theorem dispatch_progress_witness:
  "0 < length (s_tasks (snd (dispatchReady demoEnv (\<lambda>_. False) 1000 demoReady)))"
  using dispatch_progress [OF demo_reachable refl, of 0 0 1000] demo_fields demo_admissible [of demoReady]
    computeDispatchLimits_pos(2) [of demoEnv demoReady]
  by (simp add: admissible_def) (simp add: demoItem_def newHeapItem_def)

text \<open>
  C13: Moving due work empties the heap of everything due: afterwards every item in the heap is due
  strictly later, and the delay of the wake-up timer is the time to the earliest of them, never zero.
\<close>

theorem due_work_leaves_heap:
  fixes e :: SchedEnv and now :: gotime and y :: System
  assumes "reachable us y" and "e_uuidString e = us"
  defines "t \<equiv> moveDueTasksToReady e now (sy_sched y)"
  shows "set (s_heap t) \<subseteq> {r. now < hi_dueAt (s_mem t r)} \<and>
    nextWakeDelay now t = (if s_heap t = [] then s_refreshInterval t
      else Min ((\<lambda>r. tSub (hi_dueAt (s_mem t r)) now) ` set (s_heap t)))"
proof -
  let ?u = "markElapsedInFlightWindows e now (sy_sched y)"
  have "sched_inv us {} ?u"
    using markElapsed_keeps [of us "sy_sched y" e now] reachable_inv [OF assms(1)] by (simp add: keeps_def sys_inv_def)
  then have D: "sched_inv us {} t" "\<forall>x\<in>set (s_heap t). tAfter (hi_dueAt (s_mem t x)) now"
    using drainDue_spec [of us ?u now] assms(2) by (simp_all add: t_def moveDueTasksToReady_def)
  then have a: "set (s_heap t) \<subseteq> {r. now < hi_dueAt (s_mem t r)}" by (auto simp: tAfter_def)
  have root: "hi_dueAt (s_mem t (s_heap t ! 0)) \<le> hi_dueAt (s_mem t r)" if "r \<in> set (s_heap t)" for r
    using heap_root_due [of us "(s_mem t, s_heap t)" r] place_of [OF D(1)] that by (simp add: place_inv_def)
  have mono: "tSub b now \<le> tSub c now" if "b \<le> c" for b c using that by (auto simp: tSub_def)
  have pos: "0 < tSub b now" if "now < b" for b using that by (auto simp: tSub_def)
  show ?thesis
  proof (cases "s_heap t = []")
    case False
    let ?d = "tSub (hi_dueAt (s_mem t (s_heap t ! 0))) now"
    have "0 < ?d" using a pos False by (auto simp: subset_iff)
    then have "nextWakeDelay now t = ?d" using False by (simp add: nextWakeDelay_def Let_def)
    also have "\<dots> = Min ((\<lambda>r. tSub (hi_dueAt (s_mem t r)) now) ` set (s_heap t))"
      by (rule Min_eqI [symmetric]) (use root mono False in auto)
    finally show ?thesis using a False by simp
  qed (use a in \<open>simp add: nextWakeDelay_def\<close>)
qed

theorem due_work_leaves_heap_witness:
  "set (s_heap (moveDueTasksToReady demoEnv 5000 demoFlying)) \<subseteq>
     {r. 5000 < hi_dueAt (s_mem (moveDueTasksToReady demoEnv 5000 demoFlying) r)}"
  using due_work_leaves_heap [OF demo_flying_reachable refl, of 5000] by simp

text \<open>
  C10: A completion of an earlier run is ignored. Whatever worker reports late after a restart, the
  scheduler is left exactly as it was.
\<close>

theorem stale_completion_ignored:
  assumes "reachable us y" and "cp_RunID c \<noteq> s_runID (sy_sched y)"
  shows "handleCompletion e c (sy_sched y) = sy_sched y"
proof (rule completion_ignored)
  have "\<forall>x\<in>flights (sy_sched y). snd x = s_runID (sy_sched y)" using reachable_inv [OF assms(1)] by (simp add: sys_inv_def)
  then have "(cp_Key c, cp_RunID c) \<notin> flights (sy_sched y)" using assms(2) by auto
  then show "\<not> accepted e c (sy_sched y)" by (auto simp: accepted_def flights_def split: option.splits)
qed

theorem stale_completion_ignored_witness:
  "handleCompletion demoEnv \<lparr>cp_RunID = 0, cp_Key = demoKey, cp_FinishedAt = 2000\<rparr> demoFlying = demoFlying"
  using stale_completion_ignored [OF demo_flying_reachable] demo_cycle by simp

text \<open>
  C9: A completion of the current run ends exactly one flight. The counter of tasks in flight drops by
  one, the key is no longer in flight, no other key is affected; a disabled item is forgotten, any
  other item stays scheduled and is back in a ready queue or in the heap.
\<close>

theorem completion_ends_flight:
  assumes "reachable us y" and "e_uuidString e = us" and "s_items (sy_sched y) (cp_Key c) = Some r"
    and "hi_inFlight (s_mem (sy_sched y) r)" and "cp_RunID c = s_runID (sy_sched y)"
    and "hi_dispatchedAt (s_mem (sy_sched y) r) \<le> cp_FinishedAt c" and "cp_FinishedAt c \<noteq> 0"
    and "t = handleCompletion e c (sy_sched y)"
  shows "flying t = flying (sy_sched y) - {cp_Key c} \<and> s_inFlight t = s_inFlight (sy_sched y) - 1 \<and>
    (if hi_disabled (s_mem (sy_sched y) r) then s_items t = (s_items (sy_sched y))(cp_Key c := None)
     else s_items t = s_items (sy_sched y) \<and> (r \<in> set (s_heap t) \<or> r \<in> set (readyRefs t)))"
proof -
  let ?s = "sy_sched y" and ?k = "cp_Key c"
  have sys: "sys_inv us y" by (rule reachable_inv [OF assms(1)])
  then have inv: "sched_inv (e_uuidString e) {} ?s" using assms(2) by (simp add: sys_inv_def)
  have fl: "(?k, hi_runID (s_mem ?s r)) \<in> flights ?s" using assms(3,4) by (auto simp: flights_def)
  then have "hi_runID (s_mem ?s r) = cp_RunID c" using sys assms(5) by (auto simp: sys_inv_def)
  then have acc: "accepted e c ?s"
    using assms(3,4,6,7) by (simp add: accepted_def IsZero_def tBefore_def)
  note A = completion_accepted [OF inv acc assms(8)]
  have f: "flying t = flying ?s - {?k}" using A(2) by (auto simp: landed_def flying_flights)
  have c: "s_inFlight ?s = int (card (flying ?s))" "s_inFlight t = int (card (flying t))"
    using inv A(1) by (simp_all add: sched_inv_def count_inv_def)
  have "?k \<in> flying ?s" using fl by (force simp: flying_flights)
  moreover have "finite (flying ?s)" by (rule flying_finite [OF place_of [OF inv]])
  ultimately have n: "s_inFlight t = s_inFlight ?s - 1" using count_remove [of "flying ?s" ?k "\<lambda>_. True"] c f by (simp add: set_diff_eq)
  have "x \<in> set (s_heap t) \<or> x \<in> set (readyRefs t)" if x: "s_items t ?k = Some x" for x
  proof -
    have "\<not> hi_inFlight (s_mem t x)" using f x by (auto simp: flying_def)
    then show ?thesis using item_invD(3,5) [OF place_of [OF A(1)] x] by (auto simp: places_def split: if_splits)
  qed
  then show ?thesis using f n A(4) [OF assms(3)] assms(3) by simp
qed

theorem completion_ends_flight_witness:
  "demoKey \<notin> flying (handleCompletion demoEnv \<lparr>cp_RunID = 1, cp_Key = demoKey, cp_FinishedAt = 2000\<rparr> demoFlying) \<and>
   s_items (handleCompletion demoEnv \<lparr>cp_RunID = 1, cp_Key = demoKey, cp_FinishedAt = 2000\<rparr> demoFlying) demoKey = Some 0"
  using completion_ends_flight [OF demo_flying_reachable refl, of "\<lparr>cp_RunID = 1, cp_Key = demoKey, cp_FinishedAt = 2000\<rparr>" 0, OF _ _ _ _ _ refl]
    demo_cycle by simp

text \<open>
  C11: A refresh makes the schedule follow the inventory: afterwards every task of every recurring
  device is scheduled and enabled, and every other scheduled task is disabled and only kept until its
  queued or running execution is over.
\<close>

theorem refresh_follows_inventory:
  assumes "reachable us y" and "e_uuidString e = us" and "range_ok e" and "e_devices e = Some devices"
    and "t = refreshDevices e now (sy_sched y)"
  defines "seen \<equiv> \<Union>d\<in>{d \<in> set devices. shouldScheduleRecurringDevice d}. set (scheduledKeys d)"
  shows "(\<forall>k\<in>seen. \<exists>r. s_items t k = Some r \<and> \<not> hi_disabled (s_mem t r)) \<and>
    (\<forall>k r. s_items t k = Some r \<and> k \<notin> seen \<longrightarrow> hi_disabled (s_mem t r) \<and> (hi_inFlight (s_mem t r) \<or> hi_queued (s_mem t r)))"
proof -
  have inv: "sched_inv (e_uuidString e) {} (sy_sched y)" using reachable_inv [OF assms(1)] assms(2) by (simp add: sys_inv_def)
  note R = refresh_sync [OF inv assms(3-5) seen_def [THEN meta_eq_to_obj_eq]]
  show ?thesis
    using R by (auto simp: enabled_def item_ok_def retired_def split: option.splits)
qed

lemma demo_range: "range_ok demoEnv" "range_ok (demoEnv\<lparr>e_devices := ds\<rparr>)"
proof -
  have "set (SOME xs. set xs = dom m) = dom m" if "finite (dom m)" for m :: "TaskKey \<rightharpoonup> ref"
    using someI_ex [OF finite_list [OF that]] .
  then show "range_ok demoEnv" "range_ok (demoEnv\<lparr>e_devices := ds\<rparr>)" by (simp_all add: range_ok_def demoEnv_def)
qed

theorem refresh_follows_inventory_witness:
  "\<exists>r. s_items (refreshDevices (demoEnv\<lparr>e_devices := Some [demoDevice]\<rparr>) 3000 demoReady) demoKey = Some r"
proof -
  have "demoKey \<in> set (scheduledKeys demoDevice)"
    using demo_device by (simp add: scheduledKeys_def shouldScheduleEssentialTask_def demoKey_def IsVirtualWithIPDevice_def)
  then show ?thesis
    using refresh_follows_inventory [OF demo_reachable _ demo_range(2), of "Some [demoDevice]" "[demoDevice]" _ 3000, OF _ _ refl]
      demo_device(1) by auto
qed

text \<open>
  C12: Reconciling a device that should no longer be polled retires all its work: every task of the
  device is gone, except those in flight, which are disabled and vanish when they complete.
\<close>

theorem reconcile_retires_device:
  assumes "reachable us y" and "e_uuidString e = us" and "range_ok e"
    and "\<not> (sourceIncludesDevice e (dev_ID device) \<and> shouldScheduleRecurringDevice device)"
    and "t = ReconcileDeviceTasks e device changedAt (sy_sched y)"
  shows "{k \<in> dom (s_items t). tk_DeviceID k = dev_ID device} \<subseteq> {k \<in> flying t. \<not> enabled k t}"
proof -
  have inv: "sched_inv (e_uuidString e) {} (sy_sched y)" using reachable_inv [OF assms(1)] assms(2) by (simp add: sys_inv_def)
  have "t = removeDeviceTasksLocked e (dev_ID device) (sy_sched y)"
    using assms(4,5) by (auto simp: ReconcileDeviceTasks_def Let_def)
  then have "retired (\<lambda>it. hi_inFlight it \<and> hi_disabled it) k t" if "tk_DeviceID k = dev_ID device" for k
    using removeDevice_sync [OF inv assms(3), of "dev_ID device"] that by blast
  then show ?thesis by (fastforce simp: retired_def flying_def enabled_def item_ok_def split: option.splits)
qed

theorem reconcile_retires_device_witness:
  "{k \<in> dom (s_items (ReconcileDeviceTasks demoEnv (demoDevice\<lparr>dev_Managed := False\<rparr>) 3000 demoReady)). tk_DeviceID k = 7}
    \<subseteq> flying (ReconcileDeviceTasks demoEnv (demoDevice\<lparr>dev_Managed := False\<rparr>) 3000 demoReady)"
proof -
  have "\<not> shouldScheduleRecurringDevice (demoDevice\<lparr>dev_Managed := False\<rparr>)" by (simp add: shouldScheduleRecurringDevice_def)
  moreover have "dev_ID (demoDevice\<lparr>dev_Managed := False\<rparr>) = 7" by (simp add: demoDevice_def)
  ultimately show ?thesis
    using reconcile_retires_device [OF demo_reachable refl demo_range(1), of "demoDevice\<lparr>dev_Managed := False\<rparr>" _ 3000, OF _ refl]
    by auto
qed

subsection \<open>A leak of the isolation counters\<close>

text \<open>
  The counters per site, subnet and SNMP profile are decremented with the device the item has when
  its run completes, which a cadence change or a refresh may have replaced in the meantime. The run
  below moves the device to another site while its task is in flight: afterwards nothing is in
  flight, and the old site still counts one worker. The per-device counters do not suffer from this,
  because the identifier of a device never changes.
\<close>

definition movedDevice :: Device where
  "movedDevice = demoDevice\<lparr>dev_AreaIDs := [2]\<rparr>"

definition movedRequest :: reduePerformanceTaskRequest where
  "movedRequest = \<lparr>rq_device = movedDevice, rq_changedAt = 1500, rq_taskKind = TaskKindEssential\<rparr>"

definition demoLeak :: Scheduler where
  "demoLeak = handleCompletion demoEnv \<lparr>cp_RunID = 1, cp_Key = demoKey, cp_FinishedAt = 2000\<rparr>
     (handleRedueEssentialTask demoEnv movedRequest demoFlying)"

lemma reschedule_sites [simp]: "s_inFlightBySite (rescheduleItem e r fin s) = s_inFlightBySite s"
  by (simp add: rescheduleItem_def Let_def enqueueReady_def pushHeap_def setStore_def upd_def)

lemma fold_decrementCount_other: "x \<notin> set xs \<Longrightarrow> cget (fold decrementCount xs m) x = cget m x"
  by (induction xs arbitrary: m) (auto simp: decrementCount_def cget_def)

lemma fold_decrementCount_once:
  assumes "count_list xs x = 1" and "x \<noteq> []"
  shows "cget (fold decrementCount xs m) x = (if cget m x \<le> 1 then 0 else cget m x - 1)"
  using assms(1)
proof (induction xs arbitrary: m)
  case (Cons y ys)
  show ?case
  proof (cases "x = y")
    case True
    then have "x \<notin> set ys" using Cons.prems by (simp add: count_list_0_iff)
    moreover have "cget (decrementCount x m) x = (if cget m x \<le> 1 then 0 else cget m x - 1)"
      using assms(2) by (simp add: decrementCount_def cget_def)
    ultimately show ?thesis using True by (simp add: fold_decrementCount_other)
  next
    case False
    then have "cget (decrementCount y m) x = cget m x" by (simp add: decrementCount_def cget_def)
    then show ?thesis using False Cons by simp
  qed
qed simp

lemma completion_sites:
  assumes "sched_inv us {} s" and "accepted e c s" and k: "s_items s (cp_Key c) = Some r"
  shows "s_inFlightBySite (handleCompletion e c s) =
    fold decrementCount (siteKeys e (pt_Device (hi_task (s_mem s r)))) (s_inFlightBySite s)"
proof -
  have "task_ok (cp_Key c) (hi_task (s_mem s r))" by (rule item_invD(2) [OF place_of [OF assms(1)] k])
  then show ?thesis
    using assms(2) k
    by (auto simp: handleCompletion_def accepted_def Let_def upd_def deleteItem_def decrementInFlight_def
        decrementIsolationCounts_def siteKeys_def normalize_ok)
qed

text \<open>What an essential re-schedule does to an item in flight: it replaces the device the task carries.\<close>

lemma redue_in_flight:
  assumes "s_items s (NewEssentialTaskKey (dev_ID device)) = Some r" and "hi_inFlight (s_mem s r)"
    and "shouldScheduleRecurringDevice device" and "sourceIncludesDevice e (dev_ID device)"
    and "dev_DeviceType device \<noteq> DeviceTypeVirtual" and "rq_device request = device"
    and t: "t = handleRedueEssentialTask e request s"
  shows "s_items t = s_items s" and "s_inFlightBySite t = s_inFlightBySite s" and "s_inFlight t = s_inFlight s"
    and "pt_Device (hi_task (s_mem t r)) = device" and "accepted e' c t = accepted e' c s"
    and "flying t = flying s"
proof -
  obtain due where eq: "t = upd r (\<lambda>it. (applySchedule (NewEssentialTaskKey (dev_ID device)) TaskKindEssential LaneEssential
      VolatilityClassNone device due (EssentialInterval device) it)\<lparr>hi_pending := True, hi_immediateRerun := True\<rparr>) s"
    using assms by (auto simp: handleRedueEssentialTask_def Let_def replaceItem_def applyEssentialRedue_def
        applySchedule_def upd_upd)
  show "s_items t = s_items s" "s_inFlightBySite t = s_inFlightBySite s" "s_inFlight t = s_inFlight s"
    "pt_Device (hi_task (s_mem t r)) = device"
    by (simp_all add: eq applySchedule_def)
  show "accepted e' c t = accepted e' c s" "flying t = flying s"
    by (auto simp: eq accepted_def flying_def applySchedule_def upd_def split: option.splits)
qed

text \<open>
  C40: The per-site counter leaks when a device leaves a site while its essential poll is in flight.
  The completion would take the flight off the count of every site it was counted for; but if the
  device is re-scheduled first with areas that no longer name a site, the same completion ends the
  flight and leaves that site's count as it was.
\<close>

theorem site_counter_leak:
  assumes key: "key = NewEssentialTaskKey (dev_ID device)" and "reachable us y" and "s = sy_sched y" and "e_uuidString e = us" and "e_uuidString e' = us"
    and "s_items s key = Some r" and "cp_Key c = key" and "accepted e' c s"
    and "count_list (siteKeys e' (pt_Device (hi_task (s_mem s r)))) site = 1" and "site \<noteq> []"
    and "rq_device request = device" and "shouldScheduleRecurringDevice device"
    and "sourceIncludesDevice e (dev_ID device)" and "dev_DeviceType device \<noteq> DeviceTypeVirtual"
    and "site \<notin> set (siteKeys e' device)"
    and t: "t = handleCompletion e' c (handleRedueEssentialTask e request s)"
  shows "cget (s_inFlightBySite (handleCompletion e' c s)) site =
      (if cget (s_inFlightBySite s) site \<le> 1 then 0 else cget (s_inFlightBySite s) site - 1) \<and>
    flying t = flying s - {key} \<and> cget (s_inFlightBySite t) site = cget (s_inFlightBySite s) site"
proof -
  let ?m = "handleRedueEssentialTask e request s"
  have inv: "sched_inv us {} s" using reachable_inv [OF assms(2)] assms(3) by (simp add: sys_inv_def)
  then have inv': "sched_inv us {} ?m"
    using handleRedueEssential_keeps [of e s request] assms(4) by (simp add: keeps_def)
  have fl: "hi_inFlight (s_mem s r)" using assms(6,7,8) by (auto simp: accepted_def)
  note M = redue_in_flight [OF _ fl, of device e request ?m, folded key, OF assms(6) _ _ _ _ refl]
  have acc: "accepted e' c ?m" using M(5) assms by simp
  have "landed (cp_Key c) ?m t" using completion_accepted(2) [OF _ acc t] inv' assms(5) by simp
  then have "flying t = flying ?m - {key}" using assms(7) by (auto simp: landed_def flying_flights)
  moreover have "s_items ?m (cp_Key c) = Some r" using M(1) assms by simp
  then have "cget (s_inFlightBySite t) site = cget (s_inFlightBySite s) site"
    using completion_sites [OF inv' acc] M(2,4) assms by (simp add: t fold_decrementCount_other)
  moreover have "flying ?m = flying s" using M(6) assms by simp
  ultimately show ?thesis
    using completion_sites [OF inv assms(8)] assms by (simp add: fold_decrementCount_once)
qed

theorem site_counter_leak_witness:
  "flying demoLeak = {} \<and> cget (s_inFlightBySite demoLeak) ''a1'' = 1"
proof -
  let ?c = "\<lparr>cp_RunID = 1, cp_Key = demoKey, cp_FinishedAt = 2000\<rparr>"
  have m: "NewEssentialTaskKey (dev_ID movedDevice) = demoKey" "shouldScheduleRecurringDevice movedDevice"
      "dev_DeviceType movedDevice \<noteq> DeviceTypeVirtual" "rq_device movedRequest = movedDevice"
      "sourceIncludesDevice demoEnv (dev_ID movedDevice)" "''a1'' \<notin> set (siteKeys demoEnv movedDevice)"
    using demo_device by (simp_all add: movedDevice_def movedRequest_def shouldScheduleRecurringDevice_def
        DevicePollingEnabled_def IsVirtualNoIPDevice_def demoKey_def sourceIncludesDevice_def demoEnv_def siteKeys_def taskSiteKey_def)
  have f: "s_items demoFlying demoKey = Some 0" "accepted demoEnv ?c demoFlying" "flying demoFlying = {demoKey}"
      "dev_AreaIDs (pt_Device (hi_task (s_mem demoFlying 0))) = [1]"
      "count_list (siteKeys demoEnv (pt_Device (hi_task (s_mem demoFlying 0)))) ''a1'' = 1"
      "cget (s_inFlightBySite demoFlying) ''a1'' = 1"
    using demo_cycle demo_device
    by (auto simp add: accepted_def IsZero_def tBefore_def siteKeys_def flying_def dispatchTask_def Let_def demoItem_def
        newHeapItem_def newTask_def demoDevice_def taskSiteKey_def demoEnv_def cget_def split: if_splits)
  show ?thesis
    using site_counter_leak [OF refl demo_flying_reachable refl refl refl, where c = ?c and r = 0 and site = "''a1''"
        and device = movedDevice and request = movedRequest, OF _ _ _ _ _ _ _ _ _ _ refl] m f
    by (simp add: demoLeak_def)
qed

end
