(* ===== verification/Scheduler_Timing.thy ===== *)
theory Scheduler_Timing
  imports Scheduler_Types
begin

text \<open>
  Timing of recurring work (\<open>jitter.go\<close>): start offsets fall inside the interval, background
  tasks stay on the phase grid of their first due time, and jitter stays within about ten
  percent of the interval. \<open>rounds_well\<close> is the error bound of IEEE 754 rounding to nearest for
  \<open>float64\<close>, and \<open>round64\<close> a rounding that has it.
\<close>

text \<open>
  Below overflow the error is at most half a unit in the last place: a relative \<open>2 ^ - 53\<close> for
  normal numbers, an absolute \<open>2 ^ - 1075\<close> for subnormal ones.
\<close>

definition rounds_well :: "FloatOps \<Rightarrow> bool" where
  "rounds_well F \<longleftrightarrow> (\<forall>x. \<bar>x\<bar> \<le> 2 ^ 1023 \<longrightarrow> \<bar>fl F x - x\<bar> \<le> max (\<bar>x\<bar> / 2 ^ 53) (1 / 2 ^ 1075))"

subsection \<open>Rounding to 53 bits\<close>

text \<open>The exponent of the leading bit of a natural number and of a positive fraction.\<close>

fun lead :: "nat \<Rightarrow> nat" where
  "lead n = (if n < 2 then 0 else Suc (lead (n div 2)))"

declare lead.simps [simp del]

definition lead_rat :: "rat \<Rightarrow> int" where
  "lead_rat x =
     (let (p, q) = quotient_of x; e = int (lead (nat p)) - int (lead (nat q))
      in if 2 powi e \<le> x then e else e - 1)"

definition round_even :: "rat \<Rightarrow> int" where
  "round_even y =
     (let n = \<lfloor>y\<rfloor>; r = y - of_int n
      in if r < 1 / 2 \<or> r = 1 / 2 \<and> even n then n else n + 1)"

definition round64 :: "rat \<Rightarrow> rat" where
  "round64 x =
     (if x = 0 then 0
      else let ulp = 2 powi max (lead_rat \<bar>x\<bar> - 52) (- 1074) in of_int (round_even (x / ulp)) * ulp)"

lemma lead_bounds: "0 < n \<Longrightarrow> 2 ^ lead n \<le> n \<and> n < 2 ^ Suc (lead n)"
proof (induction n rule: lead.induct)
  case (1 n)
  show ?case
  proof (cases "n < 2")
    case True
    then show ?thesis
      using 1 by (simp add: lead.simps [of n])
  next
    case False
    then have "2 ^ lead (n div 2) \<le> n div 2 \<and> n div 2 < 2 ^ Suc (lead (n div 2))"
      using 1 by simp
    moreover have "2 * (n div 2) \<le> n" "n < 2 * (n div 2) + 2"
      by linarith+
    ultimately show ?thesis
      using False by (auto simp: lead.simps [of n])
  qed
qed

lemma lead_rat_le: "0 < x \<Longrightarrow> 2 powi lead_rat x \<le> x"
proof -
  assume x: "0 < x"
  obtain p q where pq: "quotient_of x = (p, q)"
    by fastforce
  have q: "0 < q" and xq: "x = of_int p / of_int q"
    using quotient_of_denom_pos [OF pq] quotient_of_div [OF pq] by simp_all
  then have p: "0 < p"
    using x by (simp add: zero_less_divide_iff)
  let ?a = "lead (nat p)" and ?b = "lead (nat q)"
  have "2 ^ ?a \<le> p" "q < 2 ^ Suc ?b"
    using lead_bounds [of "nat p"] lead_bounds [of "nat q"] p q
    by (simp_all add: le_nat_iff nat_less_iff)
  then have "(2::rat) ^ ?a \<le> of_int p" "(of_int q :: rat) < 2 ^ Suc ?b"
    by (metis of_int_le_iff of_int_numeral of_int_power, metis of_int_less_iff of_int_numeral of_int_power)
  then have "(2::rat) ^ ?a / 2 ^ Suc ?b \<le> x"
    using q p unfolding xq by (intro frac_le) simp_all
  moreover have "(2::rat) powi (int ?a - int ?b - 1) = 2 ^ ?a / 2 ^ Suc ?b"
    by (simp add: power_int_diff)
  ultimately show ?thesis
    by (simp add: lead_rat_def pq Let_def)
qed

lemma round_even_err: "\<bar>of_int (round_even y) - y\<bar> \<le> 1 / 2"
proof -
  have "of_int \<lfloor>y\<rfloor> \<le> y" "y < of_int \<lfloor>y\<rfloor> + 1"
    by (rule of_int_floor_le, rule floor_less_iff [THEN iffD1, of y "\<lfloor>y\<rfloor> + 1", simplified])
  then show ?thesis
    by (auto simp: round_even_def Let_def abs_le_iff)
qed

lemma round64_err: "\<bar>round64 x - x\<bar> \<le> max (\<bar>x\<bar> / 2 ^ 53) (1 / 2 ^ 1075)"
proof (cases "x = 0")
  case False
  let ?m = "max (lead_rat \<bar>x\<bar> - 52) (- 1074)"
  let ?u = "2 powi ?m :: rat"
  have u: "0 < ?u"
    by simp
  have "round64 x - x = (of_int (round_even (x / ?u)) - x / ?u) * ?u"
    using False u by (simp add: round64_def Let_def algebra_simps)
  then have "\<bar>round64 x - x\<bar> \<le> ?u / 2"
    using round_even_err [of "x / ?u"] u by (simp add: abs_mult)
  also have "?u / 2 \<le> max (\<bar>x\<bar> / 2 ^ 53) (1 / 2 ^ 1075)"
  proof (cases "lead_rat \<bar>x\<bar> - 52 \<le> - 1074")
    case True
    then have "?u / 2 = 1 / 2 ^ 1075"
      by (simp add: max_def power_int_def field_simps)
    then show ?thesis by simp
  next
    case big: False
    then have "?u / 2 = 2 powi lead_rat \<bar>x\<bar> / 2 ^ 53"
      by (simp add: max_def power_int_diff)
    also have "\<dots> \<le> \<bar>x\<bar> / 2 ^ 53"
      using lead_rat_le [of "\<bar>x\<bar>"] False by (intro divide_right_mono) simp_all
    finally show ?thesis by simp
  qed
  finally show ?thesis .
qed (simp add: round64_def)

lemma round64_rounds_well: "rounds_well \<lparr>fl = round64, parseFloat = pf\<rparr>"
  using round64_err by (simp add: rounds_well_def)

subsection \<open>Offsets and phases\<close>

lemma div_bounds: "0 < (b::int) \<Longrightarrow> a div b * b \<le> a \<and> a < a div b * b + b"
  using div_mult_mod_eq [of a b] pos_mod_bound [of b a] pos_mod_sign [of b a] by linarith

lemma one_le_div: "0 < (b::int) \<Longrightarrow> b \<le> a \<Longrightarrow> 1 \<le> a div b"
  using zdiv_mono1 [of b a b] by simp

lemma initialOffset_range:
  assumes "0 < interval" and "int64_range interval"
  shows "0 \<le> initialOffsetForKey key interval \<and> initialOffsetForKey key interval < interval"
proof -
  obtain h :: "64 word" where off: "initialOffsetForKey key interval = wrap64 (uint (h mod word_of_int interval))"
    using assms by (auto simp: initialOffsetForKey_def Let_def)
  have u: "uint (word_of_int interval :: 64 word) = interval"
    using assms by (simp add: int64_range_def uint_word_of_int)
  have r: "0 \<le> uint (h mod word_of_int interval)" "uint (h mod word_of_int interval) < interval"
    using assms u by (simp_all add: uint_mod)
  then have "wrap64 (uint (h mod word_of_int interval)) = uint (h mod word_of_int interval)"
    using assms(2) r unfolding int64_range_def by (intro wrap64_id) (unfold int64_range_def, linarith)
  then show ?thesis using r off by simp
qed

lemma nextPhaseAfter_eq:
  assumes "0 < interval" and "previousDue \<noteq> 0" and "\<bar>after - previousDue\<bar> + interval < 2 ^ 63"
  shows "nextPhaseAfter previousDue interval after =
    previousDue + interval * (if after < previousDue + interval then 1
                              else (after - previousDue) div interval + 1)"
proof (cases "after < previousDue + interval")
  case False
  let ?q = "(after - previousDue) div interval"
  have q: "1 \<le> ?q" using assms(1) False by (intro one_le_div) simp_all
  have qi: "?q * interval \<le> after - previousDue" using assms(1) by (simp add: div_bounds)
  have qs: "?q \<le> ?q * interval" using q assms(1) by (simp add: mult_le_cancel_left1)
  have "?q + 1 \<le> after - previousDue + interval" using qs qi assms(1) by linarith
  then have w: "wrap64 (?q + 1) = ?q + 1"
    using q assms(1,3) by (intro wrap64_id) (unfold int64_range_def, linarith)
  have w2: "wrap64 ((?q + 1) * interval) = (?q + 1) * interval"
    using qs q qi assms(1,3) unfolding distrib_right mult_1
    by (intro wrap64_id) (unfold int64_range_def, linarith)
  show ?thesis
    using assms False w w2
    by (simp add: nextPhaseAfter_def go_simps Let_def tSub_exact quot64_nonneg mult.commute)
qed (use assms in \<open>simp add: nextPhaseAfter_def go_simps Let_def\<close>)

lemma nextPhaseAfter_spec:
  assumes "0 < interval" and "previousDue \<noteq> 0" and "\<bar>after - previousDue\<bar> + interval < 2 ^ 63"
  defines "nxt \<equiv> nextPhaseAfter previousDue interval after"
  shows "after < nxt" and "(nxt - previousDue) mod interval = 0" and "previousDue + interval \<le> nxt"
    and "nxt = previousDue + interval \<or> nxt \<le> after + interval"
proof -
  let ?q = "(after - previousDue) div interval"
  have d: "?q * interval \<le> after - previousDue" "after - previousDue < ?q * interval + interval"
    using div_bounds [OF assms(1)] by auto
  note e = nextPhaseAfter_eq [OF assms(1-3), folded nxt_def]
  have q: "1 \<le> ?q" if "\<not> after < previousDue + interval" using that assms(1) by (intro one_le_div) simp_all
  show "after < nxt" and "nxt = previousDue + interval \<or> nxt \<le> after + interval"
    using d by (auto simp: e algebra_simps)
  show "(nxt - previousDue) mod interval = 0" by (simp add: e)
  show "previousDue + interval \<le> nxt"
    using q assms(1) by (force simp: e)
qed

lemma truncate_rat_le: "of_int \<bar>truncate_rat x\<bar> \<le> \<bar>x\<bar>"
proof (cases "x < 0")
  case True
  then have "0 \<le> \<lfloor>- x\<rfloor>" by simp
  then show ?thesis using True of_int_floor_le [of "- x"] by (simp add: truncate_rat_def)
next
  case False
  then have "0 \<le> \<lfloor>x\<rfloor>" by simp
  then show ?thesis using False of_int_floor_le [of x] by (simp add: truncate_rat_def)
qed

lemma fl_le:
  assumes "rounds_well F" and "\<bar>x\<bar> \<le> y" and "1 / 10 \<le> y" "y \<le> 2 ^ 64"
  shows "\<bar>fl F x\<bar> \<le> y * (10001 / 10000)"
proof -
  have "\<bar>x\<bar> \<le> 2 ^ 1023"
    using assms(2,4) by (rule order_trans [OF order_trans]) (simp add: power_increasing)
  then have "\<bar>fl F x - x\<bar> \<le> max (\<bar>x\<bar> / 2 ^ 53) (1 / 2 ^ 1075)" using assms(1) by (simp only: rounds_well_def)
  also have "\<dots> \<le> y * (1 / 10000)"
  proof (rule max.boundedI)
    show "\<bar>x\<bar> / 2 ^ 53 \<le> y * (1 / 10000)" using assms(2,3) by simp
    have "(1::rat) / 2 ^ 1075 \<le> 1 / 10 * (1 / 10000)" by simp
    also have "\<dots> \<le> y * (1 / 10000)" using assms(3) by simp
    finally show "1 / 2 ^ 1075 \<le> y * (1 / 10000)" .
  qed
  finally show ?thesis using assms(2) by linarith
qed

lemma jitter_delta:
  assumes F: "rounds_well F" and "0 < interval" "interval \<le> 2 ^ 62" and "0 \<le> draw" "draw < 1"
  shows "\<bar>fl F (fl F (fl F (draw * 2) - 1) * fl F (fl F (of_int interval) * fl F (1 / 10)))\<bar>
     \<le> of_int interval * (101 / 1000)"
proof -
  let ?I = "of_int interval :: rat" and ?u = "fl F (draw * 2)"
  have "of_int interval \<le> (of_int (2 ^ 62) :: rat)"
    using assms(3) by (simp only: of_int_le_iff)
  then have I: "1 \<le> ?I" "?I \<le> 2 ^ 62"
    using assms(2) by simp_all
  have "\<bar>draw * 2\<bar> \<le> 2 ^ 1023"
    using assms(4,5) by (simp add: abs_mult)
  then have "\<bar>?u - draw * 2\<bar> \<le> max (\<bar>draw * 2\<bar> / 2 ^ 53) (1 / 2 ^ 1075)" using F by (simp only: rounds_well_def)
  also have "\<dots> \<le> 1 / 10000" using assms(4,5) by (simp add: abs_mult)
  finally have "\<bar>?u - 1\<bar> \<le> 10001 / 10000" using assms(4,5) by linarith
  then have v: "\<bar>fl F (?u - 1)\<bar> \<le> (10001 / 10000) * (10001 / 10000)" by (rule fl_le [OF F]) simp_all
  have "\<bar>fl F ?I\<bar> \<le> ?I * (10001 / 10000)" "\<bar>fl F (1 / 10)\<bar> \<le> (1 / 10) * (10001 / 10000)"
    using fl_le [OF F, of ?I ?I] fl_le [OF F, of "1 / 10" "1 / 10"] I by simp_all
  then have "\<bar>fl F ?I * fl F (1 / 10)\<bar> \<le> (?I * (10001 / 10000)) * ((1 / 10) * (10001 / 10000))"
    unfolding abs_mult using I by (intro mult_mono) auto
  then have "\<bar>fl F (fl F ?I * fl F (1 / 10))\<bar> \<le> (?I * (10001 / 10000)) * ((1 / 10) * (10001 / 10000)) * (10001 / 10000)"
    by (rule fl_le [OF F]) (use I in simp_all)
  then have "\<bar>fl F (?u - 1) * fl F (fl F ?I * fl F (1 / 10))\<bar> \<le>
     ((10001 / 10000) * (10001 / 10000)) * ((?I * (10001 / 10000)) * ((1 / 10) * (10001 / 10000)) * (10001 / 10000))"
    unfolding abs_mult using v by (intro mult_mono) auto
  then have "\<bar>fl F (fl F (?u - 1) * fl F (fl F ?I * fl F (1 / 10)))\<bar> \<le>
     ((10001 / 10000) * (10001 / 10000)) * ((?I * (10001 / 10000)) * ((1 / 10) * (10001 / 10000)) * (10001 / 10000)) * (10001 / 10000)"
    by (rule fl_le [OF F]) (use I in simp_all)
  then show ?thesis using I by simp
qed

lemma jitteredNext_bounds:
  assumes "rounds_well F" and "0 < interval" "interval \<le> 2 ^ 62" and "0 \<le> draw" "draw < 1"
  shows "1000 * \<bar>jitteredNext F lastFire interval (Some draw) - (lastFire + interval)\<bar> \<le> 101 * interval"
    and "lastFire < jitteredNext F lastFire interval (Some draw)"
proof -
  let ?d = "fl F (fl F (fl F (draw * 2) - 1) * fl F (fl F (of_int interval) * fl F (1 / 10)))"
  let ?t = "truncate_rat ?d"
  have "(of_int \<bar>?t\<bar> :: rat) \<le> of_int interval * (101 / 1000)"
    using order_trans [OF truncate_rat_le jitter_delta [OF assms]] .
  then have "of_int (1000 * \<bar>?t\<bar>) \<le> (of_int (101 * interval) :: rat)" by simp
  then have t: "1000 * \<bar>?t\<bar> \<le> 101 * interval" by (simp only: of_int_le_iff)
  then have "wrap64 (interval + ?t) = interval + ?t"
    using assms(2,3) by (intro wrap64_id) (auto simp: int64_range_def)
  then have "jitteredNext F lastFire interval (Some draw) = lastFire + interval + ?t"
    using assms(2) by (simp add: jitteredNext_def Let_def go_simps)
  then show "1000 * \<bar>jitteredNext F lastFire interval (Some draw) - (lastFire + interval)\<bar> \<le> 101 * interval"
    and "lastFire < jitteredNext F lastFire interval (Some draw)"
    using t assms(2) by auto
qed

end
