(* ===== verification/Go_Map.thy ===== *)
theory Go_Map
  imports Prelude "HOL-Library.AList" "HOL-Library.Multiset"
begin

text \<open>
  Go maps whose size or whose entries the code walks through: an association list with distinct
  keys. Storing is \<open>AList.update\<close>, \<open>delete\<close> is \<open>AList.delete\<close>, and reading an absent key gives
  the zero value of the element type. The order of the list stands for the order in which one
  \<open>range\<close> loop meets the entries, which Go leaves open.
\<close>

type_synonym ('k, 'v) gomap = "('k \<times> 'v) list"

definition mget :: "'v \<Rightarrow> ('k, 'v) gomap \<Rightarrow> 'k \<Rightarrow> 'v" where
  "mget z m k = (case map_of m k of None \<Rightarrow> z | Some v \<Rightarrow> v)"

abbreviation mkeys :: "('k, 'v) gomap \<Rightarrow> 'k set" where
  "mkeys m \<equiv> fst ` set m"

definition map_ok :: "('k, 'v) gomap \<Rightarrow> bool" where
  "map_ok m \<longleftrightarrow> distinct (map fst m)"

lemma map_ok_Nil [simp]: "map_ok []"
  by (simp add: map_ok_def)

lemma map_ok_update [simp]: "map_ok m \<Longrightarrow> map_ok (AList.update k v m)"
  by (simp add: map_ok_def distinct_update)

lemma map_ok_delete [simp]: "map_ok m \<Longrightarrow> map_ok (AList.delete k m)"
  by (simp add: map_ok_def distinct_delete)

lemma map_ok_update_all: "map_ok m \<Longrightarrow> map_ok (fold (\<lambda>(k, v). AList.update k v) kvs m)"
  by (induction kvs arbitrary: m) auto

lemma mkeys_update [simp]: "mkeys (AList.update k v m) = insert k (mkeys m)"
  using dom_update [of k v m] by simp

lemma mkeys_update_all:
  "mkeys (fold (\<lambda>(k, v). AList.update k v) kvs m) = mkeys m \<union> mkeys kvs"
  by (induction kvs arbitrary: m) (simp_all add: split_beta)

lemma map_of_update_all:
  "map_ok kvs \<Longrightarrow> map_of (fold (\<lambda>(k, v). AList.update k v) kvs m) = map_of m ++ map_of kvs"
proof (induction kvs arbitrary: m)
  case Nil
  then show ?case by simp
next
  case (Cons kv kvs)
  obtain k v where kv: "kv = (k, v)"
    by (cases kv)
  have "k \<notin> mkeys kvs" "map_ok kvs"
    using Cons.prems by (auto simp: kv map_ok_def)
  then show ?case
    using Cons.IH [of "AList.update k v m"]
    by (auto simp: kv update_conv' map_add_def fun_eq_iff map_of_eq_None_iff [symmetric] split: option.splits)
qed

lemma length_map_ok: "map_ok m \<Longrightarrow> length m = card (mkeys m)"
  unfolding map_ok_def by (metis distinct_card length_map list.set_map)

text \<open>
  The comparison loop the code writes for two maps: equal sizes, and the second map read at every
  key of the first gives the same value. It decides equality when no key is dropped from the
  first map to the second.
\<close>

definition mapEqual :: "'v \<Rightarrow> ('k, 'v) gomap \<Rightarrow> ('k, 'v) gomap \<Rightarrow> bool" where
  "mapEqual z a b \<longleftrightarrow> length a = length b \<and> list_all (\<lambda>(k, v). mget z b k = v) a"

lemma mapEqual_map_of:
  assumes "map_ok a" "map_ok b" "mkeys a \<subseteq> mkeys b"
  shows "mapEqual z a b \<longleftrightarrow> map_of a = map_of b"
proof
  assume eq: "mapEqual z a b"
  then have keys: "mkeys a = mkeys b"
    using assms by (simp add: mapEqual_def length_map_ok card_subset_eq)
  show "map_of a = map_of b"
  proof
    fix k
    show "map_of a k = map_of b k"
    proof (cases "map_of a k")
      case None
      then show ?thesis
        by (metis keys map_of_eq_None_iff)
    next
      case (Some v)
      then have "(k, v) \<in> set a"
        by (rule map_of_SomeD)
      then have "mget z b k = v" "k \<in> mkeys a"
        using eq by (auto simp: mapEqual_def list_all_iff intro: rev_image_eqI)
      then show ?thesis
        using Some keys by (auto simp: mget_def map_of_eq_None_iff split: option.splits)
    qed
  qed
next
  assume eq: "map_of a = map_of b"
  then have "mkeys a = mkeys b"
    by (metis dom_map_of_conv_image_fst)
  moreover have "mget z b k = v" if "(k, v) \<in> set a" for k v
    using that assms(1) eq by (metis (mono_tags) map_ok_def map_of_is_SomeI mget_def option.case(2))
  ultimately show "mapEqual z a b"
    using assms by (auto simp: mapEqual_def length_map_ok list_all_iff)
qed

lemma mapEqual_keys_of_true:
  assumes "mapEqual False a b" "\<forall>(k, v) \<in> set a. v"
  shows "mkeys a \<subseteq> mkeys b"
proof
  fix k
  assume "k \<in> mkeys a"
  then obtain v where "(k, v) \<in> set a" "mget False b k = v" "v"
    using assms by (force simp: mapEqual_def list_all_iff)
  then show "k \<in> mkeys b"
    by (auto simp: mget_def map_of_eq_None_iff split: option.splits dest: map_of_SomeD intro: rev_image_eqI)
qed

end
