(* ===== verification/State_Health.thy ===== *)
theory State_Health
  imports Device_Domain Go_Map
begin

text \<open>
  The data of the device state store (\<open>internal/state\<close>, \<open>internal/polling/types.go\<close>,
  \<open>internal/domain/metrics.go\<close>) and its health evaluation (\<open>internal/state/health.go\<close>):
  per-metric severities with hysteresis and their aggregation. String enumerations carry an
  \<open>Other\<close> constructor; the Go zero value is \<open>Other ''''\<close>. A \<open>*float64\<close> is an option.
\<close>

subsection \<open>Polling results\<close>

datatype TriState = TriStateTrue | TriStateFalse | TriStateUnknown | TriStateOther string

datatype FieldState =
    FieldStateOK | FieldStateMissing | FieldStateError | FieldStateStale | FieldStateOther string

datatype PollStatus = PollStatusComplete | PollStatusPartial | PollStatusFailed | PollStatusOther string

datatype PrimaryHealth =
    PrimaryHealthProbing | PrimaryHealthUpFresh | PrimaryHealthUpStale | PrimaryHealthSNMPDegraded
  | PrimaryHealthUnreachable | PrimaryHealthQuarantined | PrimaryHealthOther string

datatype RuntimeFlag =
    FlagDeadlineMissed | FlagOverloaded | FlagBackgroundPending | FlagPartialTelemetry
  | FlagDegradedRisk | FlagPersistenceLagging | FlagOther string

record NetworkProbeResult =
  np_Port :: int
  np_Reachable :: bool
  np_Error :: string

record DeviceMetrics =
  dm_DeviceID :: uuid
  dm_CPUPercent :: "f64 option"
  dm_MemPercent :: "f64 option"
  dm_TempCelsius :: "f64 option"
  dm_UptimeSecs :: "f64 option"
  dm_CollectedAt :: gotime

record LinkMetrics =
  lm_LinkID :: string
  lm_DeviceID :: uuid
  lm_IfName :: string
  lm_TxBps :: "f64 option"
  lm_RxBps :: "f64 option"
  lm_Utilization :: "f64 option"
  lm_CollectedAt :: gotime

subsection \<open>Device state\<close>

datatype HealthStatus =
    HealthStatusHealthy | HealthStatusWarning | HealthStatusCritical | HealthStatusUnknown
  | HealthStatusOther string

datatype ReachabilityStatus =
    ReachabilityUnknown | ReachabilityUp | ReachabilitySoftDown | ReachabilityHardDown
  | ReachabilityOther string

datatype MetricSeverity =
    MetricSeverityOK | MetricSeverityWarning | MetricSeverityCritical | MetricSeverityOther string

record DeviceState =
  ds_Metrics :: DeviceMetrics
  ds_LinkMetrics :: "LinkMetrics list"
  ds_Health :: HealthStatus
  ds_CPUSeverity :: MetricSeverity
  ds_MemSeverity :: MetricSeverity
  ds_TempSeverity :: MetricSeverity
  ds_Reachability :: ReachabilityStatus
  ds_ConsecutiveFailures :: int
  ds_PrimaryHealth :: PrimaryHealth
  ds_NetworkReachable :: TriState
  ds_SNMPReachable :: TriState
  ds_NetworkReachabilityResults :: "NetworkProbeResult list"
  ds_FieldStates :: "(string, FieldState) gomap"
  ds_RuntimeFlags :: "(RuntimeFlag, bool) gomap"
  ds_Stale :: bool
  ds_LastPolledAt :: gotime
  ds_ExpectedInterval :: duration

text \<open>The zero values of the two structs.\<close>

definition zeroMetrics :: DeviceMetrics where
  "zeroMetrics =
     \<lparr> dm_DeviceID = uuid_Nil, dm_CPUPercent = None, dm_MemPercent = None, dm_TempCelsius = None,
       dm_UptimeSecs = None, dm_CollectedAt = 0 \<rparr>"

definition zeroDeviceState :: DeviceState where
  "zeroDeviceState =
     \<lparr> ds_Metrics = zeroMetrics, ds_LinkMetrics = [], ds_Health = HealthStatusOther '''',
       ds_CPUSeverity = MetricSeverityOther '''', ds_MemSeverity = MetricSeverityOther '''',
       ds_TempSeverity = MetricSeverityOther '''', ds_Reachability = ReachabilityOther '''',
       ds_ConsecutiveFailures = 0, ds_PrimaryHealth = PrimaryHealthOther '''',
       ds_NetworkReachable = TriStateOther '''', ds_SNMPReachable = TriStateOther '''',
       ds_NetworkReachabilityResults = [], ds_FieldStates = [], ds_RuntimeFlags = [],
       ds_Stale = False, ds_LastPolledAt = 0, ds_ExpectedInterval = 0 \<rparr>"

subsection \<open>Severities\<close>

record ThresholdConfig =
  WarnRise :: f64
  WarnFall :: f64
  CriticalRise :: f64
  CriticalFall :: f64

text \<open>The table is read at its own keys only; the zero value is what any other key gives.\<close>

definition defaultThresholds :: "(string, ThresholdConfig) gomap" where
  "defaultThresholds =
     [(''cpu'', \<lparr> WarnRise = Fin 70, WarnFall = Fin 60, CriticalRise = Fin 90, CriticalFall = Fin 80 \<rparr>),
      (''mem'', \<lparr> WarnRise = Fin 70, WarnFall = Fin 60, CriticalRise = Fin 90, CriticalFall = Fin 80 \<rparr>),
      (''temp'', \<lparr> WarnRise = Fin 70, WarnFall = Fin 60, CriticalRise = Fin 90, CriticalFall = Fin 80 \<rparr>)]"

definition threshold_of :: "string \<Rightarrow> ThresholdConfig" where
  "threshold_of key =
     mget \<lparr> WarnRise = Fin 0, WarnFall = Fin 0, CriticalRise = Fin 0, CriticalFall = Fin 0 \<rparr>
       defaultThresholds key"

definition evaluateMetricSeverity :: "f64 \<Rightarrow> MetricSeverity \<Rightarrow> ThresholdConfig \<Rightarrow> MetricSeverity" where
  "evaluateMetricSeverity value current threshold =
     (if value = NaN then current
      else case current of
        MetricSeverityWarning \<Rightarrow>
          if f64_ge value (CriticalRise threshold) then MetricSeverityCritical
          else if f64_lt value (WarnFall threshold) then MetricSeverityOK
          else MetricSeverityWarning
      | MetricSeverityCritical \<Rightarrow>
          if f64_lt value (WarnFall threshold) then MetricSeverityOK
          else if f64_lt value (CriticalFall threshold) then MetricSeverityWarning
          else MetricSeverityCritical
      | _ \<Rightarrow>
          if f64_ge value (CriticalRise threshold) then MetricSeverityCritical
          else if f64_ge value (WarnRise threshold) then MetricSeverityWarning
          else MetricSeverityOK)"

text \<open>The loop over the three severities; \<open>hasWarning\<close> and \<open>allEmpty\<close> are its variables.\<close>

fun aggregateLoop :: "MetricSeverity list \<Rightarrow> bool \<Rightarrow> bool \<Rightarrow> HealthStatus" where
  "aggregateLoop [] hasWarning allEmpty =
     (if allEmpty then HealthStatusUnknown
      else if hasWarning then HealthStatusWarning
      else HealthStatusHealthy)"
| "aggregateLoop (s # severities) hasWarning allEmpty =
     (if s = MetricSeverityCritical then HealthStatusCritical
      else aggregateLoop severities
             (hasWarning \<or> s = MetricSeverityWarning)
             (allEmpty \<and> s = MetricSeverityOther ''''))"

definition aggregateHealth :: "MetricSeverity \<Rightarrow> MetricSeverity \<Rightarrow> MetricSeverity \<Rightarrow> HealthStatus" where
  "aggregateHealth cpu mem temp = aggregateLoop [cpu, mem, temp] False True"

definition evaluateSeverity :: "f64 option \<Rightarrow> MetricSeverity \<Rightarrow> string \<Rightarrow> MetricSeverity" where
  "evaluateSeverity value current key =
     (case value of None \<Rightarrow> current
      | Some v \<Rightarrow> evaluateMetricSeverity v current (threshold_of key))"

definition evaluateHealth :: "DeviceState \<Rightarrow> DeviceMetrics option \<Rightarrow> DeviceState" where
  "evaluateHealth state metrics =
     (let state =
        (case metrics of None \<Rightarrow> state
         | Some m \<Rightarrow>
             state\<lparr> ds_CPUSeverity := evaluateSeverity (dm_CPUPercent m) (ds_CPUSeverity state) ''cpu'',
                    ds_MemSeverity := evaluateSeverity (dm_MemPercent m) (ds_MemSeverity state) ''mem'',
                    ds_TempSeverity := evaluateSeverity (dm_TempCelsius m) (ds_TempSeverity state) ''temp'' \<rparr>)
      in state\<lparr> ds_Health := aggregateHealth (ds_CPUSeverity state) (ds_MemSeverity state) (ds_TempSeverity state) \<rparr>)"

subsection \<open>Hysteresis as two triggers\<close>

text \<open>
  What the thresholds mean: a trigger switches on when the value reaches \<open>rise\<close>, off when it
  drops below \<open>fall\<close>, and keeps its position in between. A severity is the state of two such
  triggers fed with the same values.
\<close>

definition trigger :: "f64 \<Rightarrow> f64 \<Rightarrow> f64 \<Rightarrow> bool \<Rightarrow> bool" where
  "trigger rise fall v on = (if f64_ge v rise then True else if f64_lt v fall then False else on)"

definition severity_of :: "bool \<times> bool \<Rightarrow> MetricSeverity" where
  "severity_of t =
     (case t of (warn, crit) \<Rightarrow>
        if crit then MetricSeverityCritical else if warn then MetricSeverityWarning else MetricSeverityOK)"

definition trigger_step :: "ThresholdConfig \<Rightarrow> f64 \<Rightarrow> bool \<times> bool \<Rightarrow> bool \<times> bool" where
  "trigger_step th v t =
     (trigger (WarnRise th) (WarnFall th) v (fst t),
      trigger (CriticalRise th) (CriticalFall th) v (snd t))"

definition f64_le :: "f64 \<Rightarrow> f64 \<Rightarrow> bool" where
  "f64_le x y = f64_ge y x"

definition thresholds_ordered :: "ThresholdConfig \<Rightarrow> bool" where
  "thresholds_ordered th \<longleftrightarrow>
     f64_le (WarnFall th) (WarnRise th) \<and> f64_le (WarnRise th) (CriticalRise th) \<and>
     f64_le (WarnFall th) (CriticalFall th) \<and> f64_le (CriticalFall th) (CriticalRise th)"

lemma f64_ge_trans: "f64_ge a b \<Longrightarrow> f64_ge b c \<Longrightarrow> f64_ge a c"
  by (cases a; cases b; cases c) (auto simp: f64_ge_def f64_eq_def)

lemma f64_not_lt: "v \<noteq> NaN \<Longrightarrow> w \<noteq> NaN \<Longrightarrow> \<not> f64_lt v w \<longleftrightarrow> f64_ge v w"
  by (cases v; cases w) (auto simp: f64_ge_def f64_eq_def)

lemma f64_ge_not_NaN: "f64_ge a b \<Longrightarrow> a \<noteq> NaN \<and> b \<noteq> NaN"
  by (cases a; cases b) (auto simp: f64_ge_def f64_eq_def)

lemma f64_NaN [simp]: "\<not> f64_ge NaN b" "\<not> f64_lt NaN b" "\<not> f64_ge b NaN" "\<not> f64_lt b NaN"
  by (cases b; simp add: f64_ge_def f64_eq_def)+

text \<open>The warning trigger is never off while the critical one is on.\<close>

lemma trigger_step_nested:
  assumes th: "thresholds_ordered th" and t: "snd t \<longrightarrow> fst t"
  shows "snd (trigger_step th v t) \<longrightarrow> fst (trigger_step th v t)"
proof (cases "v = NaN")
  case True
  then show ?thesis
    using t by (simp add: trigger_step_def trigger_def)
next
  case False
  have "f64_ge v (WarnRise th)" if "f64_ge v (CriticalRise th)"
    using that th f64_ge_trans by (auto simp: thresholds_ordered_def f64_le_def)
  moreover have "f64_lt v (CriticalFall th)" if "f64_lt v (WarnFall th)"
    using that th False f64_ge_trans f64_ge_not_NaN f64_not_lt
    by (metis f64_le_def thresholds_ordered_def)
  ultimately show ?thesis
    using t by (auto simp: trigger_step_def trigger_def)
qed

lemma severity_step:
  assumes th: "thresholds_ordered th" and t: "snd t \<longrightarrow> fst t"
  shows "evaluateMetricSeverity v (severity_of t) th = severity_of (trigger_step th v t)"
proof (cases "v = NaN")
  case True
  then show ?thesis
    by (simp add: evaluateMetricSeverity_def trigger_step_def trigger_def severity_of_def)
next
  case False
  have nn: "WarnRise th \<noteq> NaN" "WarnFall th \<noteq> NaN" "CriticalRise th \<noteq> NaN" "CriticalFall th \<noteq> NaN"
    using th by (auto simp: thresholds_ordered_def f64_le_def dest: f64_ge_not_NaN)
  have up: "f64_ge v (CriticalRise th) \<Longrightarrow> f64_ge v (WarnRise th)"
    "f64_ge v (CriticalRise th) \<Longrightarrow> f64_ge v (CriticalFall th)"
    "f64_ge v (CriticalRise th) \<Longrightarrow> f64_ge v (WarnFall th)"
    "f64_ge v (CriticalFall th) \<Longrightarrow> f64_ge v (WarnFall th)"
    "f64_ge v (WarnRise th) \<Longrightarrow> f64_ge v (WarnFall th)"
    using th f64_ge_trans unfolding thresholds_ordered_def f64_le_def by blast+
  have lt: "f64_lt v w \<longleftrightarrow> \<not> f64_ge v w" if "w \<noteq> NaN" for w
    using f64_not_lt [OF False that] by auto
  obtain warn crit where tt: "t = (warn, crit)"
    by (cases t)
  show ?thesis
    using False t nn up
    by (cases crit; cases warn)
      (auto simp: tt evaluateMetricSeverity_def severity_of_def trigger_step_def trigger_def lt)
qed

lemma severity_run_aux:
  assumes th: "thresholds_ordered th"
  shows "snd t \<longrightarrow> fst t \<Longrightarrow>
    fold (\<lambda>v s. evaluateMetricSeverity v s th) vs (severity_of t) = severity_of (fold (trigger_step th) vs t)"
proof (induction vs arbitrary: t)
  case Nil
  then show ?case by simp
next
  case (Cons v vs)
  then show ?case
    using severity_step [OF th Cons.prems] trigger_step_nested [OF th Cons.prems, of v] by simp
qed

lemma fold_trigger_step:
  "fold (trigger_step th) vs (w, c) =
     (fold (trigger (WarnRise th) (WarnFall th)) vs w,
      fold (trigger (CriticalRise th) (CriticalFall th)) vs c)"
  by (induction vs arbitrary: w c) (simp_all add: trigger_step_def)

lemma threshold_of_known: "key \<in> {''cpu'', ''mem'', ''temp''} \<Longrightarrow>
   threshold_of key = \<lparr> WarnRise = Fin 70, WarnFall = Fin 60, CriticalRise = Fin 90, CriticalFall = Fin 80 \<rparr>"
  by (auto simp: threshold_of_def mget_def defaultThresholds_def)

lemma threshold_of_ordered: "thresholds_ordered (threshold_of key)"
proof (cases "key \<in> {''cpu'', ''mem'', ''temp''}")
  case True
  then show ?thesis
    by (simp add: threshold_of_known thresholds_ordered_def f64_le_def f64_ge_def f64_eq_def)
next
  case False
  then show ?thesis
    by (simp add: threshold_of_def mget_def defaultThresholds_def thresholds_ordered_def f64_le_def f64_ge_def f64_eq_def)
qed

subsection \<open>Worst-of aggregation\<close>

fun severity_rank :: "MetricSeverity \<Rightarrow> nat" where
  "severity_rank MetricSeverityCritical = 3"
| "severity_rank MetricSeverityWarning = 2"
| "severity_rank MetricSeverityOK = 1"
| "severity_rank (MetricSeverityOther s) = (if s = '''' then 0 else 1)"

fun health_rank :: "HealthStatus \<Rightarrow> nat" where
  "health_rank HealthStatusCritical = 3"
| "health_rank HealthStatusWarning = 2"
| "health_rank HealthStatusHealthy = 1"
| "health_rank _ = 0"

lemma severity_rank_le: "severity_rank s \<le> 3"
  by (cases s) simp_all

lemma aggregateLoop_rank:
  "hasWarning \<longrightarrow> \<not> allEmpty \<Longrightarrow>
   health_rank (aggregateLoop ss hasWarning allEmpty) =
     fold max (map severity_rank ss) (if hasWarning then 2 else if allEmpty then 0 else 1)"
proof (induction ss hasWarning allEmpty rule: aggregateLoop.induct)
  case (1 hasWarning allEmpty)
  then show ?case by simp
next
  case (2 s ss hasWarning allEmpty)
  have crit: "fold max ns (3::nat) = 3" if "set ns \<subseteq> {..3}" for ns
    using that by (induction ns) auto
  have le: "set (map severity_rank ss) \<subseteq> {..3}" for ss
    by (auto simp: severity_rank_le)
  show ?case
  proof (cases "s = MetricSeverityCritical")
    case True
    then show ?thesis
      using crit [OF le [of ss]] by simp
  next
    case False
    then show ?thesis
      using 2 by (cases s) (auto simp: max_def)
  qed
qed

end
