(* ===== verification/State_Store.thy ===== *)
theory State_Store
  imports State_Health
begin

text \<open>
  The device state store (\<open>internal/state/store.go\<close>): the update rules of each poll class, change
  detection, the staleness pass, and the bounded change channel with its coalescing. A method is
  a function of the store record; the sections it runs under \<open>mu\<close> are atomic. Copies of pointers,
  slices and maps are copies of values here: \<open>nil\<close> and empty slices or maps are not
  distinguished, since the code never tells them apart.
\<close>

subsection \<open>Updates and the store\<close>

record EssentialUpdate =
  eu_PollStatus :: PollStatus
  eu_NetworkReachable :: TriState
  eu_NetworkReachabilityResults :: "NetworkProbeResult list"
  eu_SNMPReachable :: TriState
  eu_Uptime :: FieldState
  eu_CPU :: FieldState
  eu_Memory :: FieldState
  eu_DeadlineMissed :: bool
  eu_Overloaded :: bool

record StateUpdate =
  su_DeviceID :: uuid
  su_VolatilityClass :: VolatilityClass
  su_Metrics :: "DeviceMetrics option"
  su_LinkMetrics :: "LinkMetrics list"
  su_PollSuccess :: bool
  su_ExpectedInterval :: duration
  su_Timestamp :: gotime
  su_Essential :: "EssentialUpdate option"

text \<open>
  \<open>st_cap\<close> is the capacity of the change channel. \<open>st_cancel\<close> says that the cancel function
  of the staleness goroutine is set and \<open>st_ticking\<close> that the goroutine still runs; the latter
  ends early when the parent context is cancelled. \<open>st_droppedTotal\<close> is the drop counter of the
  metrics registry, which \<open>markChangesOverflowed\<close> advances.
\<close>

record Store =
  st_devices :: "uuid \<rightharpoonup> DeviceState"
  st_changes :: "uuid list list"
  st_cap :: nat
  st_overflowed :: bool
  st_cancel :: bool
  st_ticking :: bool
  st_droppedTotal :: "64 word"

definition NewStore :: Store where
  "NewStore =
     \<lparr> st_devices = Map.empty, st_changes = [], st_cap = 32, st_overflowed = False,
       st_cancel = False, st_ticking = False, st_droppedTotal = 0 \<rparr>"

datatype StoreError = ErrAlreadyStarted

subsection \<open>Copies\<close>

definition cloneFloat64Ptr :: "f64 option \<Rightarrow> f64 option" where
  "cloneFloat64Ptr v = (case v of None \<Rightarrow> None | Some cloned \<Rightarrow> Some cloned)"

definition cloneMetrics :: "DeviceMetrics \<Rightarrow> DeviceMetrics" where
  "cloneMetrics m =
     m\<lparr> dm_CPUPercent := cloneFloat64Ptr (dm_CPUPercent m),
        dm_MemPercent := cloneFloat64Ptr (dm_MemPercent m),
        dm_TempCelsius := cloneFloat64Ptr (dm_TempCelsius m),
        dm_UptimeSecs := cloneFloat64Ptr (dm_UptimeSecs m) \<rparr>"

definition cloneLinkMetrics :: "LinkMetrics list \<Rightarrow> LinkMetrics list" where
  "cloneLinkMetrics ms =
     map (\<lambda>m. m\<lparr> lm_TxBps := cloneFloat64Ptr (lm_TxBps m), lm_RxBps := cloneFloat64Ptr (lm_RxBps m),
                 lm_Utilization := cloneFloat64Ptr (lm_Utilization m) \<rparr>) ms"

definition cloneFieldStates :: "(string, FieldState) gomap \<Rightarrow> (string, FieldState) gomap" where
  "cloneFieldStates m = fold (\<lambda>(k, v). AList.update k v) m []"

text \<open>The copy keeps the flags that are set and drops those stored as \<open>false\<close>.\<close>

definition cloneRuntimeFlags :: "(RuntimeFlag, bool) gomap \<Rightarrow> (RuntimeFlag, bool) gomap" where
  "cloneRuntimeFlags m = fold (\<lambda>(k, v) out. if v then AList.update k True out else out) m []"

definition cloneNetworkProbeResults :: "NetworkProbeResult list \<Rightarrow> NetworkProbeResult list" where
  "cloneNetworkProbeResults rs = map (\<lambda>r. r) rs"

definition cloneDeviceState :: "DeviceState \<Rightarrow> DeviceState" where
  "cloneDeviceState ds =
     ds\<lparr> ds_Metrics := cloneMetrics (ds_Metrics ds),
         ds_LinkMetrics := cloneLinkMetrics (ds_LinkMetrics ds),
         ds_NetworkReachabilityResults := cloneNetworkProbeResults (ds_NetworkReachabilityResults ds),
         ds_FieldStates := cloneFieldStates (ds_FieldStates ds),
         ds_RuntimeFlags := cloneRuntimeFlags (ds_RuntimeFlags ds) \<rparr>"

definition setFlag :: "(RuntimeFlag, bool) gomap \<Rightarrow> RuntimeFlag \<Rightarrow> bool \<Rightarrow> (RuntimeFlag, bool) gomap" where
  "setFlag flags flag enabled =
     (if enabled then AList.update flag True flags else AList.delete flag flags)"

subsection \<open>Update rules\<close>

definition applyFreshnessMetadata :: "DeviceState \<Rightarrow> StateUpdate \<Rightarrow> DeviceState" where
  "applyFreshnessMetadata next u =
     next\<lparr> ds_LastPolledAt := su_Timestamp u,
           ds_ExpectedInterval :=
             (if su_ExpectedInterval u > 0 then su_ExpectedInterval u else ds_ExpectedInterval next),
           ds_Stale := False \<rparr>"

definition essentialNetworkReachability :: "EssentialUpdate option \<Rightarrow> TriState" where
  "essentialNetworkReachability essential =
     (case essential of
        None \<Rightarrow> TriStateUnknown
      | Some e \<Rightarrow>
          if eu_NetworkReachable e \<noteq> TriStateUnknown then eu_NetworkReachable e
          else if eu_NetworkReachabilityResults e = [] then TriStateUnknown
          else if list_ex np_Reachable (eu_NetworkReachabilityResults e) then TriStateTrue
          else TriStateFalse)"

definition isDownReachability :: "ReachabilityStatus \<Rightarrow> bool" where
  "isDownReachability r \<longleftrightarrow> r = ReachabilitySoftDown \<or> r = ReachabilityHardDown"

definition mergeEssentialFieldState :: "FieldState \<Rightarrow> f64 option \<Rightarrow> FieldState" where
  "mergeEssentialFieldState observed existingValue =
     (if observed = FieldStateMissing \<and> existingValue \<noteq> None then FieldStateOK else observed)"

definition mergeEssentialFieldStates ::
  "(string, FieldState) gomap \<Rightarrow> DeviceMetrics \<Rightarrow> EssentialUpdate \<Rightarrow> (string, FieldState) gomap" where
  "mergeEssentialFieldStates prev metrics e =
     (let fs = [(''uptime'', FieldStateMissing), (''cpu'', FieldStateMissing),
                    (''memory'', FieldStateMissing)];
          fs = fold (\<lambda>(k, v). AList.update k v) prev fs;
          fs = AList.update ''uptime'' (mergeEssentialFieldState (eu_Uptime e) (dm_UptimeSecs metrics)) fs;
          fs = AList.update ''cpu'' (mergeEssentialFieldState (eu_CPU e) (dm_CPUPercent metrics)) fs
      in AList.update ''memory'' (mergeEssentialFieldState (eu_Memory e) (dm_MemPercent metrics)) fs)"

definition hasPartialTelemetryFields :: "(string, FieldState) gomap \<Rightarrow> bool" where
  "hasPartialTelemetryFields fs =
     list_ex (\<lambda>key. mget (FieldStateOther '''') fs key \<noteq> FieldStateOK) [''uptime'', ''cpu'', ''memory'']"

text \<open>\<open>orKeep new old\<close> is the assignment under \<open>if new != nil\<close> of one metric.\<close>

definition orKeep :: "f64 option \<Rightarrow> f64 option \<Rightarrow> f64 option" where
  "orKeep new old = (if new \<noteq> None then cloneFloat64Ptr new else old)"

definition mergeEssentialMetrics :: "DeviceState \<Rightarrow> StateUpdate \<Rightarrow> DeviceState" where
  "mergeEssentialMetrics next u =
     (case su_Metrics u of
        None \<Rightarrow> next
      | Some m \<Rightarrow>
          let merged = cloneMetrics (ds_Metrics next)
          in next\<lparr> ds_Metrics :=
               merged\<lparr> dm_DeviceID := su_DeviceID u,
                       dm_CPUPercent := orKeep (dm_CPUPercent m) (dm_CPUPercent merged),
                       dm_MemPercent := orKeep (dm_MemPercent m) (dm_MemPercent merged),
                       dm_UptimeSecs := orKeep (dm_UptimeSecs m) (dm_UptimeSecs merged),
                       dm_CollectedAt := dm_CollectedAt m \<rparr> \<rparr>)"

text \<open>
  \<open>ConsecutiveFailures\<close> is a Go \<open>int\<close>. The two sites that count a failure share the
  threshold of three.
\<close>

definition countFailure :: "DeviceState \<Rightarrow> DeviceState \<Rightarrow> DeviceState" where
  "countFailure next prev =
     (let n = wrap64 (ds_ConsecutiveFailures prev + 1)
      in next\<lparr> ds_ConsecutiveFailures := n,
               ds_Reachability := (if n \<ge> 3 then ReachabilityHardDown else ReachabilitySoftDown) \<rparr>)"

text \<open>
  A device that is down stays so when an observation says nothing about the network, and any
  other device is reachable again only if it was.
\<close>

definition keepDown :: "DeviceState \<Rightarrow> DeviceState \<Rightarrow> DeviceState" where
  "keepDown next prev =
     next\<lparr> ds_Reachability := ds_Reachability prev,
           ds_ConsecutiveFailures := ds_ConsecutiveFailures prev,
           ds_NetworkReachable :=
             (if ds_NetworkReachable prev = TriStateFalse then TriStateFalse else ds_NetworkReachable next),
           ds_PrimaryHealth := PrimaryHealthUnreachable \<rparr>"

definition keepUp :: "DeviceState \<Rightarrow> DeviceState \<Rightarrow> DeviceState" where
  "keepUp next prev =
     next\<lparr> ds_ConsecutiveFailures := 0,
           ds_Reachability :=
             (if ds_Reachability prev = ReachabilityUp then ReachabilityUp else ReachabilityUnknown) \<rparr>"

definition applyNetworkObservation :: "DeviceState \<Rightarrow> DeviceState \<Rightarrow> EssentialUpdate \<Rightarrow> TriState \<Rightarrow> DeviceState" where
  "applyNetworkObservation next prev e networkReachable =
     (if networkReachable = TriStateTrue then
        next\<lparr> ds_ConsecutiveFailures := 0, ds_Reachability := ReachabilityUp,
              ds_PrimaryHealth :=
                (if eu_SNMPReachable e = TriStateFalse then PrimaryHealthSNMPDegraded else PrimaryHealthUpFresh) \<rparr>
      else if networkReachable = TriStateFalse then
        (countFailure next prev)\<lparr> ds_PrimaryHealth := PrimaryHealthUnreachable \<rparr>
      else if isDownReachability (ds_Reachability prev) then keepDown next prev
      else (keepUp next prev)\<lparr> ds_PrimaryHealth :=
             (if eu_SNMPReachable e = TriStateFalse then PrimaryHealthSNMPDegraded else PrimaryHealthProbing) \<rparr>)"

definition applyEssentialUpdate :: "DeviceState \<Rightarrow> DeviceState \<Rightarrow> StateUpdate \<Rightarrow> EssentialUpdate \<Rightarrow> DeviceState" where
  "applyEssentialUpdate next prev u e =
     (let next = applyFreshnessMetadata next u;
          networkReachable = essentialNetworkReachability (Some e);
          next =
            (if networkReachable \<noteq> TriStateUnknown \<or> eu_NetworkReachabilityResults e \<noteq> []
             then next\<lparr> ds_NetworkReachable := networkReachable,
                        ds_NetworkReachabilityResults :=
                          cloneNetworkProbeResults (eu_NetworkReachabilityResults e) \<rparr>
             else next);
          flags = cloneRuntimeFlags (ds_RuntimeFlags prev);
          flags = setFlag flags FlagDeadlineMissed (eu_DeadlineMissed e);
          flags = setFlag flags FlagOverloaded (eu_Overloaded e);
          next = next\<lparr> ds_SNMPReachable := eu_SNMPReachable e \<rparr>;
          next = mergeEssentialMetrics next u;
          fs = mergeEssentialFieldStates (ds_FieldStates prev) (ds_Metrics next) e;
          flags = setFlag flags FlagPartialTelemetry
                    (eu_PollStatus e = PollStatusPartial \<and> hasPartialTelemetryFields fs);
          next = next\<lparr> ds_FieldStates := fs, ds_RuntimeFlags := flags \<rparr>
      in applyNetworkObservation next prev e networkReachable)"

definition markMetricFieldStates :: "DeviceState \<Rightarrow> DeviceMetrics option \<Rightarrow> DeviceState" where
  "markMetricFieldStates next metrics =
     (case metrics of
        None \<Rightarrow> next
      | Some m \<Rightarrow>
          let fs = cloneFieldStates (ds_FieldStates next);
              fs = (if dm_UptimeSecs m \<noteq> None then AList.update ''uptime'' FieldStateOK fs else fs);
              fs = (if dm_CPUPercent m \<noteq> None then AList.update ''cpu'' FieldStateOK fs else fs);
              fs = (if dm_MemPercent m \<noteq> None then AList.update ''memory'' FieldStateOK fs else fs)
          in next\<lparr> ds_FieldStates := fs \<rparr>)"

definition applyPerformanceUpdate :: "DeviceState \<Rightarrow> StateUpdate \<Rightarrow> DeviceState" where
  "applyPerformanceUpdate next u =
     (if \<not> su_PollSuccess u then next
      else let next = (if su_LinkMetrics u \<noteq> []
                       then next\<lparr> ds_LinkMetrics := cloneLinkMetrics (su_LinkMetrics u) \<rparr> else next)
           in case su_Metrics u of
                None \<Rightarrow> next
              | Some m \<Rightarrow>
                  let merged = cloneMetrics (ds_Metrics next);
                      merged = merged\<lparr> dm_DeviceID := su_DeviceID u,
                        dm_CPUPercent := orKeep (dm_CPUPercent m) (dm_CPUPercent merged),
                        dm_MemPercent := orKeep (dm_MemPercent m) (dm_MemPercent merged),
                        dm_TempCelsius := orKeep (dm_TempCelsius m) (dm_TempCelsius merged),
                        dm_UptimeSecs := orKeep (dm_UptimeSecs m) (dm_UptimeSecs merged),
                        dm_CollectedAt := dm_CollectedAt m \<rparr>;
                      next = markMetricFieldStates (next\<lparr> ds_Metrics := merged \<rparr>) (Some m)
                  in evaluateHealth next (Some (ds_Metrics next)))"

definition applySNMPFailureOnlyUpdate :: "DeviceState \<Rightarrow> DeviceState \<Rightarrow> DeviceState" where
  "applySNMPFailureOnlyUpdate next prev =
     (let next = next\<lparr> ds_SNMPReachable := TriStateFalse \<rparr>
      in if isDownReachability (ds_Reachability prev) then keepDown next prev
         else (keepUp next prev)\<lparr> ds_PrimaryHealth := PrimaryHealthSNMPDegraded \<rparr>)"

definition applyReachabilityUpdate :: "DeviceState \<Rightarrow> DeviceState \<Rightarrow> bool \<Rightarrow> DeviceState" where
  "applyReachabilityUpdate next prev pollSuccess =
     (if pollSuccess then next\<lparr> ds_Reachability := ReachabilityUp, ds_ConsecutiveFailures := 0 \<rparr>
      else countFailure next prev)"

definition applyOperationalUpdate :: "DeviceState \<Rightarrow> DeviceState \<Rightarrow> StateUpdate \<Rightarrow> DeviceState" where
  "applyOperationalUpdate next prev u =
     (let next =
            (if \<not> su_PollSuccess u then applySNMPFailureOnlyUpdate next prev
             else applyReachabilityUpdate (next\<lparr> ds_SNMPReachable := TriStateTrue \<rparr>) prev (su_PollSuccess u));
          next =
            (case su_Metrics u of
               None \<Rightarrow> next
             | Some m \<Rightarrow>
                 if dm_UptimeSecs m = None then next
                 else next\<lparr> ds_Metrics := (cloneMetrics (ds_Metrics next))\<lparr> dm_DeviceID := su_DeviceID u,
                              dm_UptimeSecs := cloneFloat64Ptr (dm_UptimeSecs m) \<rparr> \<rparr>)
      in if ds_Reachability next = ReachabilityUp then evaluateHealth next (Some (ds_Metrics next)) else next)"

definition applyStaticUpdate :: "DeviceState \<Rightarrow> StateUpdate \<Rightarrow> DeviceState" where
  "applyStaticUpdate next u =
     (if \<not> su_PollSuccess u then next
      else case su_Metrics u of
             None \<Rightarrow> next
           | Some m \<Rightarrow>
               let merged = cloneMetrics (ds_Metrics next);
                   merged = merged\<lparr> dm_DeviceID := su_DeviceID u,
                     dm_CPUPercent := orKeep (dm_CPUPercent m) (dm_CPUPercent merged),
                     dm_MemPercent := orKeep (dm_MemPercent m) (dm_MemPercent merged),
                     dm_TempCelsius := orKeep (dm_TempCelsius m) (dm_TempCelsius merged),
                     dm_CollectedAt := dm_CollectedAt m \<rparr>;
                   next = markMetricFieldStates (next\<lparr> ds_Metrics := merged \<rparr>) (Some m)
               in if ds_Reachability next = ReachabilityUp
                  then evaluateHealth next (Some (ds_Metrics next)) else next)"

definition applyLegacyUpdate :: "DeviceState \<Rightarrow> DeviceState \<Rightarrow> bool \<Rightarrow> StateUpdate \<Rightarrow> DeviceState" where
  "applyLegacyUpdate next prev existed u =
     (let next = applyReachabilityUpdate next prev (su_PollSuccess u)
      in if \<not> su_PollSuccess u then next
         else let next = (if su_LinkMetrics u \<noteq> []
                          then next\<lparr> ds_LinkMetrics := cloneLinkMetrics (su_LinkMetrics u) \<rparr> else next)
              in case su_Metrics u of
                   Some m \<Rightarrow> evaluateHealth (next\<lparr> ds_Metrics := cloneMetrics m \<rparr>) (Some (cloneMetrics m))
                 | None \<Rightarrow>
                     next\<lparr> ds_Metrics := zeroMetrics,
                           ds_CPUSeverity := MetricSeverityOther '''',
                           ds_MemSeverity := MetricSeverityOther '''',
                           ds_TempSeverity := MetricSeverityOther '''',
                           ds_Health := HealthStatusUnknown,
                           ds_ConsecutiveFailures := (if \<not> existed then 0 else ds_ConsecutiveFailures next) \<rparr>)"

subsection \<open>Change detection\<close>

definition floatPtrEqual :: "f64 option \<Rightarrow> f64 option \<Rightarrow> bool" where
  "floatPtrEqual a b =
     (case (a, b) of
        (None, None) \<Rightarrow> True
      | (Some x, Some y) \<Rightarrow> f64_eq x y
      | _ \<Rightarrow> False)"

definition networkProbeResultEqual :: "NetworkProbeResult list \<Rightarrow> NetworkProbeResult list \<Rightarrow> bool" where
  "networkProbeResultEqual a b =
     (length a = length b \<and>
      list_all2 (\<lambda>left right. np_Port left = np_Port right \<and> np_Reachable left = np_Reachable right \<and>
                              np_Error left = np_Error right) a b)"

definition fieldStatesEqual :: "(string, FieldState) gomap \<Rightarrow> (string, FieldState) gomap \<Rightarrow> bool" where
  "fieldStatesEqual a b = mapEqual (FieldStateOther '''') a b"

definition runtimeFlagsEqual :: "(RuntimeFlag, bool) gomap \<Rightarrow> (RuntimeFlag, bool) gomap \<Rightarrow> bool" where
  "runtimeFlagsEqual a b = mapEqual False a b"

text \<open>
  \<open>sort.Slice\<close> permutes the slice so that the keys \<open>(IfName, LinkID)\<close> ascend; it is not stable,
  so the order of metrics with one key is its own. The sorting function is a parameter \<open>srt\<close>.
\<close>

type_synonym link_sort = "LinkMetrics list \<Rightarrow> LinkMetrics list"

definition link_key :: "LinkMetrics \<Rightarrow> string \<times> string" where
  "link_key m = (lm_IfName m, lm_LinkID m)"

definition linkMetricEqual :: "LinkMetrics \<Rightarrow> LinkMetrics \<Rightarrow> bool" where
  "linkMetricEqual left right \<longleftrightarrow>
     lm_LinkID left = lm_LinkID right \<and> lm_DeviceID left = lm_DeviceID right \<and>
     lm_IfName left = lm_IfName right \<and> floatPtrEqual (lm_TxBps left) (lm_TxBps right) \<and>
     floatPtrEqual (lm_RxBps left) (lm_RxBps right) \<and>
     floatPtrEqual (lm_Utilization left) (lm_Utilization right)"

definition linkMetricsEqual :: "link_sort \<Rightarrow> LinkMetrics list \<Rightarrow> LinkMetrics list \<Rightarrow> bool" where
  "linkMetricsEqual srt a b =
     (if length a \<noteq> length b then False
      else if a = [] then True
      else list_all2 linkMetricEqual (srt a) (srt b))"

definition deviceStateEqual :: "link_sort \<Rightarrow> DeviceState \<Rightarrow> DeviceState \<Rightarrow> bool" where
  "deviceStateEqual srt a b \<longleftrightarrow>
     ds_Health a = ds_Health b \<and>
     ds_CPUSeverity a = ds_CPUSeverity b \<and> ds_MemSeverity a = ds_MemSeverity b \<and>
     ds_TempSeverity a = ds_TempSeverity b \<and>
     ds_Reachability a = ds_Reachability b \<and>
     ds_PrimaryHealth a = ds_PrimaryHealth b \<and> ds_NetworkReachable a = ds_NetworkReachable b \<and>
     ds_SNMPReachable a = ds_SNMPReachable b \<and>
     networkProbeResultEqual (ds_NetworkReachabilityResults a) (ds_NetworkReachabilityResults b) \<and>
     fieldStatesEqual (ds_FieldStates a) (ds_FieldStates b) \<and>
     runtimeFlagsEqual (ds_RuntimeFlags a) (ds_RuntimeFlags b) \<and>
     ds_ConsecutiveFailures a = ds_ConsecutiveFailures b \<and>
     ds_Stale a = ds_Stale b \<and>
     ds_ExpectedInterval a = ds_ExpectedInterval b \<and>
     floatPtrEqual (dm_CPUPercent (ds_Metrics a)) (dm_CPUPercent (ds_Metrics b)) \<and>
     floatPtrEqual (dm_MemPercent (ds_Metrics a)) (dm_MemPercent (ds_Metrics b)) \<and>
     floatPtrEqual (dm_TempCelsius (ds_Metrics a)) (dm_TempCelsius (ds_Metrics b)) \<and>
     floatPtrEqual (dm_UptimeSecs (ds_Metrics a)) (dm_UptimeSecs (ds_Metrics b)) \<and>
     linkMetricsEqual srt (ds_LinkMetrics a) (ds_LinkMetrics b)"

subsection \<open>The change channel\<close>

text \<open>
  \<open>addIDs\<close> is the closure \<open>add\<close> of \<open>coalesceQueuedChanges\<close> on \<open>(merged, dropped)\<close>; the set
  \<open>seen\<close> holds exactly the members of \<open>merged\<close>.
\<close>

fun addIDs :: "nat \<Rightarrow> uuid list \<Rightarrow> uuid list \<times> nat \<Rightarrow> uuid list \<times> nat" where
  "addIDs limit [] acc = acc"
| "addIDs limit (i # batch) (merged, dropped) =
     (if i \<in> set merged then addIDs limit batch (merged, dropped)
      else if length merged \<ge> limit then addIDs limit batch (merged, dropped + 1)
      else addIDs limit batch (merged @ [i], dropped))"

text \<open>The receiving loop: at most \<open>n\<close> batches, and none once the channel is empty.\<close>

fun drainBatches :: "nat \<Rightarrow> nat \<Rightarrow> uuid list list \<Rightarrow> uuid list \<times> nat \<Rightarrow> uuid list list \<times> (uuid list \<times> nat)" where
  "drainBatches limit 0 changes acc = (changes, acc)"
| "drainBatches limit (Suc n) [] acc = ([], acc)"
| "drainBatches limit (Suc n) (queued # changes) acc = drainBatches limit n changes (addIDs limit queued acc)"

definition coalesceQueuedChanges :: "Store \<Rightarrow> uuid list \<Rightarrow> Store \<times> uuid list \<times> nat" where
  "coalesceQueuedChanges s ids =
     (let limit = st_cap s
      in if limit = 0 then (s, [], length ids)
         else let (changes, acc) = drainBatches limit limit (st_changes s) ([], 0)
              in (s\<lparr> st_changes := changes \<rparr>, addIDs limit ids acc))"

definition markChangesOverflowed :: "Store \<Rightarrow> nat \<Rightarrow> Store" where
  "markChangesOverflowed s dropped =
     s\<lparr> st_overflowed := True, st_droppedTotal := st_droppedTotal s + word_of_nat dropped \<rparr>"

definition sendChanges :: "Store \<Rightarrow> uuid list \<Rightarrow> Store option" where
  "sendChanges s ids =
     (if length (st_changes s) < st_cap s then Some (s\<lparr> st_changes := st_changes s @ [ids] \<rparr>) else None)"

definition emitChanges :: "Store \<Rightarrow> uuid list \<Rightarrow> Store" where
  "emitChanges s ids =
     (if ids = [] then s
      else case sendChanges s ids of
        Some s \<Rightarrow> s
      | None \<Rightarrow>
          let (s, merged, dropped) = coalesceQueuedChanges s ids;
              (s, dropped) =
                (if merged = [] then (s, dropped)
                 else case sendChanges s merged of
                        Some s \<Rightarrow> (s, dropped)
                      | None \<Rightarrow> (s, dropped + length merged))
          in if dropped > 0 then markChangesOverflowed s dropped else s)"

subsection \<open>Operations\<close>

text \<open>The choice of the update rule, and the new state of a device as \<open>Update\<close> computes it.\<close>

definition prev_of :: "DeviceState option \<Rightarrow> DeviceState" where
  "prev_of old = (case old of None \<Rightarrow> zeroDeviceState | Some d \<Rightarrow> d)"

definition applyUpdate :: "StateUpdate \<Rightarrow> bool \<Rightarrow> DeviceState \<Rightarrow> DeviceState" where
  "applyUpdate u existed prev =
     (case su_Essential u of
        Some e \<Rightarrow> applyEssentialUpdate prev prev u e
      | None \<Rightarrow>
          (case su_VolatilityClass u of
             VolatilityClassPerformance \<Rightarrow> applyPerformanceUpdate (applyFreshnessMetadata prev u) u
           | VolatilityClassOperational \<Rightarrow> applyOperationalUpdate prev prev u
           | VolatilityClassStatic \<Rightarrow> applyStaticUpdate prev u
           | _ \<Rightarrow> applyLegacyUpdate (applyFreshnessMetadata prev u) prev existed u))"

definition nextState :: "StateUpdate \<Rightarrow> DeviceState option \<Rightarrow> DeviceState" where
  "nextState u old =
     (let next = applyUpdate u (old \<noteq> None) (prev_of old)
      in if ds_Health next = HealthStatusOther '''' then next\<lparr> ds_Health := HealthStatusUnknown \<rparr> else next)"

text \<open>The section under the lock: the store with the new state, and the identifiers to announce.\<close>

definition updateLocked :: "link_sort \<Rightarrow> Store \<Rightarrow> StateUpdate \<Rightarrow> Store \<times> uuid list" where
  "updateLocked srt s u =
     (if su_DeviceID u = uuid_Nil then (s, [])
      else let old = st_devices s (su_DeviceID u);
               next = nextState u old;
               changed = (case old of None \<Rightarrow> True | Some prev \<Rightarrow> \<not> deviceStateEqual srt prev next)
           in (s\<lparr> st_devices := (st_devices s)(su_DeviceID u \<mapsto> next) \<rparr>,
               if changed then [su_DeviceID u] else []))"

definition Store_Update :: "link_sort \<Rightarrow> Store \<Rightarrow> StateUpdate \<Rightarrow> Store" where
  "Store_Update srt s u = (let (s, ids) = updateLocked srt s u in emitChanges s ids)"

definition Snapshot :: "Store \<Rightarrow> (uuid \<rightharpoonup> DeviceState)" where
  "Snapshot s = (\<lambda>i. map_option cloneDeviceState (st_devices s i))"

fun snapshotLoop :: "Store \<Rightarrow> uuid list \<Rightarrow> (uuid \<rightharpoonup> DeviceState) \<Rightarrow> (uuid \<rightharpoonup> DeviceState)" where
  "snapshotLoop s [] out = out"
| "snapshotLoop s (i # ids) out =
     (if i = uuid_Nil then snapshotLoop s ids out
      else if out i \<noteq> None then snapshotLoop s ids out
      else case st_devices s i of
             None \<Rightarrow> snapshotLoop s ids out
           | Some ds \<Rightarrow> snapshotLoop s ids (out(i \<mapsto> cloneDeviceState ds)))"

definition SnapshotFor :: "Store \<Rightarrow> uuid list \<Rightarrow> (uuid \<rightharpoonup> DeviceState)" where
  "SnapshotFor s ids = (if ids = [] then Map.empty else snapshotLoop s ids Map.empty)"

definition GetDevice :: "Store \<Rightarrow> uuid \<Rightarrow> DeviceState \<times> bool" where
  "GetDevice s i =
     (case st_devices s i of
        None \<Rightarrow> (zeroDeviceState, False)
      | Some ds \<Rightarrow> (cloneDeviceState ds, True))"

definition removeLocked :: "Store \<Rightarrow> uuid \<Rightarrow> Store \<times> uuid list" where
  "removeLocked s i =
     (if st_devices s i \<noteq> None then (s\<lparr> st_devices := (st_devices s)(i := None) \<rparr>, [i]) else (s, []))"

definition Store_Remove :: "Store \<Rightarrow> uuid \<Rightarrow> Store" where
  "Store_Remove s i = (let (s, ids) = removeLocked s i in emitChanges s ids)"

definition ConsumeOverflowed :: "Store \<Rightarrow> Store \<times> bool" where
  "ConsumeOverflowed s = (s\<lparr> st_overflowed := False \<rparr>, st_overflowed s)"

definition Store_Start :: "Store \<Rightarrow> StoreError + Store" where
  "Store_Start s =
     (if st_cancel s then Inl ErrAlreadyStarted else Inr (s\<lparr> st_cancel := True, st_ticking := True \<rparr>))"

definition Store_Stop :: "Store \<Rightarrow> Store" where
  "Store_Stop s = (if \<not> st_cancel s then s else s\<lparr> st_cancel := False, st_ticking := False \<rparr>)"

text \<open>
  The staleness pass. \<open>order\<close> lists the keys of \<open>devices\<close> in the order in which the loop meets
  them; twice the interval is an \<open>int64\<close> product.
\<close>

definition overdue :: "gotime \<Rightarrow> DeviceState \<Rightarrow> bool" where
  "overdue now ds \<longleftrightarrow>
     \<not> ds_Stale ds \<and> ds_ExpectedInterval ds > 0 \<and>
     tAfter now (tAdd (ds_LastPolledAt ds) (wrap64 (2 * ds_ExpectedInterval ds)))"

definition staleState :: "DeviceState \<Rightarrow> DeviceState" where
  "staleState ds =
     ds\<lparr> ds_Stale := True,
         ds_PrimaryHealth :=
           (if ds_PrimaryHealth ds = PrimaryHealthUpFresh then PrimaryHealthUpStale else ds_PrimaryHealth ds) \<rparr>"

fun markStaleLoop :: "gotime \<Rightarrow> uuid list \<Rightarrow> Store \<Rightarrow> uuid list \<Rightarrow> Store \<times> uuid list" where
  "markStaleLoop now [] s newlyStale = (s, newlyStale)"
| "markStaleLoop now (i # order) s newlyStale =
     (case st_devices s i of
        None \<Rightarrow> markStaleLoop now order s newlyStale
      | Some ds \<Rightarrow>
          if overdue now ds
          then markStaleLoop now order (s\<lparr> st_devices := (st_devices s)(i \<mapsto> staleState ds) \<rparr>) (newlyStale @ [i])
          else markStaleLoop now order s newlyStale)"

definition markStale :: "uuid list \<Rightarrow> gotime \<Rightarrow> Store \<Rightarrow> Store" where
  "markStale order now s = (let (s, newlyStale) = markStaleLoop now order s [] in emitChanges s newlyStale)"

text \<open>One iteration of \<open>runStaleness\<close>: the goroutine ends, or a tick runs the pass.\<close>

definition runStaleness :: "uuid list \<Rightarrow> gotime option \<Rightarrow> Store \<Rightarrow> Store" where
  "runStaleness order tick s =
     (if \<not> st_ticking s then s
      else case tick of
             None \<Rightarrow> s\<lparr> st_ticking := False \<rparr>
           | Some now \<Rightarrow> markStale order now s)"

end
