(* ===== verification/State_Observed.thy ===== *)
theory State_Observed
  imports State_Store
begin

text \<open>
  The well-formedness of stored device states and the frames of the update rules: the two maps of
  a state have distinct keys, only flags that are set are stored, and no update drops a field key.
\<close>

subsection \<open>Copies are equal values\<close>

named_theorems clone_simps \<open>copies as the values they copy\<close>

lemma cloneFloat64Ptr_id [simp, clone_simps]: "cloneFloat64Ptr v = v"
  by (cases v) (simp_all add: cloneFloat64Ptr_def)

lemma cloneMetrics_id [simp, clone_simps]: "cloneMetrics m = m"
  by (simp add: cloneMetrics_def)

lemma cloneLinkMetrics_id [simp, clone_simps]: "cloneLinkMetrics ms = ms"
  by (simp add: cloneLinkMetrics_def map_idI)

lemma cloneNetworkProbeResults_id [simp, clone_simps]: "cloneNetworkProbeResults rs = rs"
  by (simp add: cloneNetworkProbeResults_def)

lemma map_of_cloneFieldStates: "map_ok m \<Longrightarrow> map_of (cloneFieldStates m) = map_of m"
  by (simp add: cloneFieldStates_def map_of_update_all)

lemma map_ok_cloneFieldStates [simp]: "map_ok (cloneFieldStates m)"
  unfolding cloneFieldStates_def by (rule map_ok_update_all) simp

lemma mkeys_cloneFieldStates [simp]: "mkeys (cloneFieldStates m) = mkeys m"
  by (simp add: cloneFieldStates_def mkeys_update_all)

definition flags_ok :: "(RuntimeFlag, bool) gomap \<Rightarrow> bool" where
  "flags_ok m \<longleftrightarrow> map_ok m \<and> list_all snd m"

lemma flags_ok_Nil [simp]: "flags_ok []"
  by (simp add: flags_ok_def)

lemma snd_update: "list_all snd m \<Longrightarrow> list_all snd (AList.update k True m)"
  by (induction m) auto

lemma flags_ok_update [simp]: "flags_ok m \<Longrightarrow> flags_ok (AList.update k True m)"
  by (simp add: flags_ok_def snd_update)

lemma snd_delete: "list_all snd m \<Longrightarrow> list_all snd (AList.delete k m)"
  by (auto simp: list_all_iff AList.delete_eq)

lemma flags_ok_setFlag [simp]: "flags_ok m \<Longrightarrow> flags_ok (setFlag m k b)"
  by (simp add: setFlag_def flags_ok_def snd_update snd_delete)

lemma flags_ok_clone_aux: "flags_ok out \<Longrightarrow>
   flags_ok (fold (\<lambda>(k, v) out. if v then AList.update k True out else out) m out)"
  by (induction m arbitrary: out) auto

lemma flags_ok_clone [simp]: "flags_ok (cloneRuntimeFlags m)"
  unfolding cloneRuntimeFlags_def by (rule flags_ok_clone_aux) simp

lemma map_of_cloneRuntimeFlags:
  assumes "flags_ok m"
  shows "map_of (cloneRuntimeFlags m) = map_of m"
proof -
  have "fold (\<lambda>(k, v) out. if v then AList.update k True out else out) m out =
        fold (\<lambda>(k, v). AList.update k v) m out" if "list_all snd m" for out :: "(RuntimeFlag, bool) gomap"
    using that by (induction m arbitrary: out) auto
  then show ?thesis
    using assms map_of_update_all [of m "[]"] by (simp add: flags_ok_def cloneRuntimeFlags_def)
qed

subsection \<open>Well-formed states\<close>

definition state_ok :: "DeviceState \<Rightarrow> bool" where
  "state_ok d \<longleftrightarrow> map_ok (ds_FieldStates d) \<and> flags_ok (ds_RuntimeFlags d)"

lemma state_ok_zero [simp]: "state_ok zeroDeviceState"
  by (simp add: state_ok_def zeroDeviceState_def)

text \<open>
  The frame of the update rules: the fields and flags they leave alone, and the reachability
  they leave alone.
\<close>

named_theorems rule_frames \<open>what the update rules keep\<close>

lemma evaluateHealth_frame [simp, rule_frames]:
  "ds_FieldStates (evaluateHealth d m) = ds_FieldStates d"
  "ds_RuntimeFlags (evaluateHealth d m) = ds_RuntimeFlags d"
  "ds_Reachability (evaluateHealth d m) = ds_Reachability d"
  "ds_ConsecutiveFailures (evaluateHealth d m) = ds_ConsecutiveFailures d"
  by (simp_all add: evaluateHealth_def Let_def split: option.splits)

lemma freshness_frame [simp, rule_frames]:
  "ds_FieldStates (applyFreshnessMetadata d u) = ds_FieldStates d"
  "ds_RuntimeFlags (applyFreshnessMetadata d u) = ds_RuntimeFlags d"
  "ds_Reachability (applyFreshnessMetadata d u) = ds_Reachability d"
  "ds_ConsecutiveFailures (applyFreshnessMetadata d u) = ds_ConsecutiveFailures d"
  "ds_Health (applyFreshnessMetadata d u) = ds_Health d"
  "ds_CPUSeverity (applyFreshnessMetadata d u) = ds_CPUSeverity d"
  "ds_MemSeverity (applyFreshnessMetadata d u) = ds_MemSeverity d"
  "ds_TempSeverity (applyFreshnessMetadata d u) = ds_TempSeverity d"
  by (simp_all add: applyFreshnessMetadata_def)

lemma reachability_rules_frame [simp, rule_frames]:
  "ds_FieldStates (countFailure d p) = ds_FieldStates d"
  "ds_RuntimeFlags (countFailure d p) = ds_RuntimeFlags d"
  "ds_FieldStates (keepDown d p) = ds_FieldStates d"
  "ds_RuntimeFlags (keepDown d p) = ds_RuntimeFlags d"
  "ds_FieldStates (keepUp d p) = ds_FieldStates d"
  "ds_RuntimeFlags (keepUp d p) = ds_RuntimeFlags d"
  by (simp_all add: countFailure_def keepDown_def keepUp_def Let_def)

lemma mergeEssentialMetrics_frame [simp, rule_frames]:
  "ds_FieldStates (mergeEssentialMetrics d u) = ds_FieldStates d"
  "ds_RuntimeFlags (mergeEssentialMetrics d u) = ds_RuntimeFlags d"
  "ds_Health (mergeEssentialMetrics d u) = ds_Health d"
  "ds_CPUSeverity (mergeEssentialMetrics d u) = ds_CPUSeverity d"
  "ds_MemSeverity (mergeEssentialMetrics d u) = ds_MemSeverity d"
  "ds_TempSeverity (mergeEssentialMetrics d u) = ds_TempSeverity d"
  by (simp_all add: mergeEssentialMetrics_def Let_def split: option.splits)

lemma markMetricFieldStates_frame [simp, rule_frames]:
  "ds_RuntimeFlags (markMetricFieldStates d m) = ds_RuntimeFlags d"
  "ds_Reachability (markMetricFieldStates d m) = ds_Reachability d"
  "ds_ConsecutiveFailures (markMetricFieldStates d m) = ds_ConsecutiveFailures d"
  "ds_Health (markMetricFieldStates d m) = ds_Health d"
  "ds_CPUSeverity (markMetricFieldStates d m) = ds_CPUSeverity d"
  "ds_MemSeverity (markMetricFieldStates d m) = ds_MemSeverity d"
  "ds_TempSeverity (markMetricFieldStates d m) = ds_TempSeverity d"
  by (simp_all add: markMetricFieldStates_def Let_def split: option.splits)

lemma markMetricFieldStates_fields:
  "map_ok (ds_FieldStates d) \<Longrightarrow> map_ok (ds_FieldStates (markMetricFieldStates d m))"
  "mkeys (ds_FieldStates d) \<subseteq> mkeys (ds_FieldStates (markMetricFieldStates d m))"
  by (cases m; simp add: markMetricFieldStates_def Let_def subset_insertI subset_insertI2)+

lemma mergeEssentialFieldStates_fields:
  "map_ok (mergeEssentialFieldStates p m e)"
  "mkeys p \<subseteq> mkeys (mergeEssentialFieldStates p m e)"
proof -
  have "map_ok [(''uptime'', FieldStateMissing), (''cpu'', FieldStateMissing), (''memory'', FieldStateMissing)]"
    by (simp add: map_ok_def)
  then show "map_ok (mergeEssentialFieldStates p m e)"
    by (simp add: mergeEssentialFieldStates_def Let_def map_ok_update_all)
  show "mkeys p \<subseteq> mkeys (mergeEssentialFieldStates p m e)"
    by (simp add: mergeEssentialFieldStates_def Let_def mkeys_update_all subset_insertI2 le_supI2)
qed

lemma applyNetworkObservation_frame [simp, rule_frames]:
  "ds_FieldStates (applyNetworkObservation d p e r) = ds_FieldStates d"
  "ds_RuntimeFlags (applyNetworkObservation d p e r) = ds_RuntimeFlags d"
  by (simp_all add: applyNetworkObservation_def)

text \<open>\<open>grows p d\<close>: the update rule took \<open>p\<close> to the well-formed \<open>d\<close> and dropped no field key.\<close>

definition grows :: "DeviceState \<Rightarrow> DeviceState \<Rightarrow> bool" where
  "grows p d \<longleftrightarrow> state_ok d \<and> mkeys (ds_FieldStates p) \<subseteq> mkeys (ds_FieldStates d)"

lemma essential_grows: "state_ok p \<Longrightarrow> grows p (applyEssentialUpdate p p u e)"
  by (simp add: grows_def state_ok_def applyEssentialUpdate_def Let_def mergeEssentialFieldStates_fields)

lemma markMetricFieldStates_grows:
  assumes "state_ok p" "ds_FieldStates d = ds_FieldStates p" "ds_RuntimeFlags d = ds_RuntimeFlags p"
  shows "grows p (markMetricFieldStates d m)"
  using assms markMetricFieldStates_fields [of d m] by (simp add: grows_def state_ok_def)

lemma grows_evaluateHealth [simp]: "grows p (evaluateHealth d m) = grows p d"
  by (simp add: grows_def state_ok_def)

lemma grows_same:
  "state_ok p \<Longrightarrow> ds_FieldStates d = ds_FieldStates p \<Longrightarrow> ds_RuntimeFlags d = ds_RuntimeFlags p \<Longrightarrow> grows p d"
  by (simp add: grows_def state_ok_def)

lemma performance_grows: "state_ok p \<Longrightarrow> grows p (applyPerformanceUpdate (applyFreshnessMetadata p u) u)"
  by (simp add: applyPerformanceUpdate_def Let_def grows_same markMetricFieldStates_grows split: option.splits)

lemma operational_grows: "state_ok p \<Longrightarrow> grows p (applyOperationalUpdate p p u)"
  by (simp add: applyOperationalUpdate_def applySNMPFailureOnlyUpdate_def applyReachabilityUpdate_def
      Let_def grows_same split: option.splits)

lemma static_grows: "state_ok p \<Longrightarrow> grows p (applyStaticUpdate p u)"
  by (simp add: applyStaticUpdate_def Let_def grows_same markMetricFieldStates_grows split: option.splits)

lemma legacy_grows: "state_ok p \<Longrightarrow> grows p (applyLegacyUpdate (applyFreshnessMetadata p u) p b u)"
  by (simp add: applyLegacyUpdate_def applyReachabilityUpdate_def Let_def grows_same split: option.splits)

lemmas rules_grow = essential_grows performance_grows operational_grows static_grows legacy_grows

lemma grows_health [simp]: "grows p (d\<lparr> ds_Health := h \<rparr>) = grows p d"
  by (simp add: grows_def state_ok_def)

lemma applyUpdate_grows: "state_ok p \<Longrightarrow> grows p (applyUpdate u b p)"
  by (simp add: applyUpdate_def rules_grow split: option.splits VolatilityClass.splits)

lemma nextState_grows: "state_ok (prev_of old) \<Longrightarrow> grows (prev_of old) (nextState u old)"
  by (simp add: nextState_def Let_def applyUpdate_grows)

end
