(* ===== verification/State_Change.thy ===== *)
theory State_Change
  imports State_Observed
begin

text \<open>
  What change detection is about, and that \<open>deviceStateEqual\<close> decides whether
  an update changed anything of it; the invariant of reachability and failure count; when health
  is left alone.
\<close>

subsection \<open>The observed content of a state\<close>

text \<open>
  The content of a state that change detection is about: everything except the poll and collection
  instants (which clients are sent with the state, but which announce no change by themselves), the
  identifier inside the metrics, the order of the link metrics, and the
  representation of the two maps.
\<close>

type_synonym link_view = "string \<times> uuid \<times> string \<times> f64 option \<times> f64 option \<times> f64 option"

definition link_obs :: "LinkMetrics \<Rightarrow> link_view" where
  "link_obs m = (lm_LinkID m, lm_DeviceID m, lm_IfName m, lm_TxBps m, lm_RxBps m, lm_Utilization m)"

record Observation =
  ob_Health :: HealthStatus
  ob_Severities :: "MetricSeverity list"
  ob_Reachability :: ReachabilityStatus
  ob_ConsecutiveFailures :: int
  ob_PrimaryHealth :: PrimaryHealth
  ob_Network :: "TriState \<times> TriState"
  ob_Probes :: "NetworkProbeResult list"
  ob_FieldStates :: "string \<rightharpoonup> FieldState"
  ob_RuntimeFlags :: "RuntimeFlag \<rightharpoonup> bool"
  ob_Stale :: bool
  ob_ExpectedInterval :: duration
  ob_Metrics :: "f64 option list"
  ob_Links :: "link_view multiset"

definition observed :: "DeviceState \<Rightarrow> Observation" where
  "observed d =
     \<lparr> ob_Health = ds_Health d,
       ob_Severities = [ds_CPUSeverity d, ds_MemSeverity d, ds_TempSeverity d],
       ob_Reachability = ds_Reachability d,
       ob_ConsecutiveFailures = ds_ConsecutiveFailures d,
       ob_PrimaryHealth = ds_PrimaryHealth d,
       ob_Network = (ds_NetworkReachable d, ds_SNMPReachable d),
       ob_Probes = ds_NetworkReachabilityResults d,
       ob_FieldStates = map_of (ds_FieldStates d),
       ob_RuntimeFlags = map_of (ds_RuntimeFlags d),
       ob_Stale = ds_Stale d,
       ob_ExpectedInterval = ds_ExpectedInterval d,
       ob_Metrics = [dm_CPUPercent (ds_Metrics d), dm_MemPercent (ds_Metrics d),
                     dm_TempCelsius (ds_Metrics d), dm_UptimeSecs (ds_Metrics d)],
       ob_Links = mset (map link_obs (ds_LinkMetrics d)) \<rparr>"

lemma observed_clone: "state_ok d \<Longrightarrow> observed (cloneDeviceState d) = observed d"
  by (simp add: observed_def cloneDeviceState_def state_ok_def map_of_cloneFieldStates
      map_of_cloneRuntimeFlags flags_ok_def)

subsection \<open>Change detection\<close>

text \<open>What \<open>sort.Slice\<close> promises for the two comparison functions.\<close>

definition sorts_links :: "link_sort \<Rightarrow> bool" where
  "sorts_links srt \<longleftrightarrow> (\<forall>ms. mset (srt ms) = mset ms \<and> sorted (map link_key (srt ms)))"

text \<open>Values that are not NaN; NaN differs from itself, so it always counts as a change.\<close>

definition no_NaN :: "f64 option \<Rightarrow> bool" where
  "no_NaN v \<longleftrightarrow> v \<noteq> Some NaN"

definition link_no_NaN :: "LinkMetrics \<Rightarrow> bool" where
  "link_no_NaN m \<longleftrightarrow> no_NaN (lm_TxBps m) \<and> no_NaN (lm_RxBps m) \<and> no_NaN (lm_Utilization m)"

definition state_no_NaN :: "DeviceState \<Rightarrow> bool" where
  "state_no_NaN d \<longleftrightarrow>
     no_NaN (dm_CPUPercent (ds_Metrics d)) \<and> no_NaN (dm_MemPercent (ds_Metrics d)) \<and>
     no_NaN (dm_TempCelsius (ds_Metrics d)) \<and> no_NaN (dm_UptimeSecs (ds_Metrics d)) \<and>
     list_all link_no_NaN (ds_LinkMetrics d)"

lemma floatPtrEqual_iff: "floatPtrEqual a b \<longleftrightarrow> a = b \<and> no_NaN a"
  by (auto simp: floatPtrEqual_def no_NaN_def f64_eq_def split: option.splits)

lemma linkMetricEqual_iff: "linkMetricEqual a b \<longleftrightarrow> link_obs a = link_obs b \<and> link_no_NaN a"
  by (auto simp: linkMetricEqual_def link_obs_def link_no_NaN_def floatPtrEqual_iff)

lemma networkProbeResultEqual_iff: "networkProbeResultEqual a b \<longleftrightarrow> a = b"
  by (auto simp: networkProbeResultEqual_def list_all2_conv_all_nth list_eq_iff_nth_eq)

lemma sorts_links_mset: "sorts_links srt \<Longrightarrow> mset (srt ms) = mset ms"
  by (simp add: sorts_links_def)

lemma linkMetricsEqual_sound:
  assumes srt: "sorts_links srt" and eq: "linkMetricsEqual srt a b"
  shows "mset (map link_obs a) = mset (map link_obs b)"
proof (cases "a = []")
  case True
  then show ?thesis
    using eq by (auto simp: linkMetricsEqual_def split: if_splits)
next
  case False
  then have "list_all2 linkMetricEqual (srt a) (srt b)"
    using eq by (auto simp: linkMetricsEqual_def split: if_splits)
  then have "map link_obs (srt a) = map link_obs (srt b)"
    by (simp add: list_all2_conv_all_nth linkMetricEqual_iff list_eq_iff_nth_eq)
  then have "image_mset link_obs (mset (srt a)) = image_mset link_obs (mset (srt b))"
    by (metis mset_map)
  then show ?thesis
    by (simp add: sorts_links_mset [OF srt])
qed

definition view_key :: "link_view \<Rightarrow> string \<times> string" where
  "view_key v = (fst (snd (snd v)), fst v)"

lemma view_key_obs: "view_key \<circ> link_obs = link_key"
  by (simp add: fun_eq_iff view_key_def link_obs_def link_key_def)

lemma sorted_views_unique:
  assumes srt: "sorts_links srt" and eq: "mset (map link_obs a) = mset (map link_obs b)"
    and d: "distinct (map link_key a)"
  shows "map link_obs (srt a) = map link_obs (srt b)"
proof -
  have perm: "mset (map link_obs (srt ms)) = mset (map link_obs ms)" for ms
    by (simp add: sorts_links_mset [OF srt])
  have same: "mset (map link_obs (srt a)) = mset (map link_obs (srt b))"
    unfolding perm by (rule eq)
  have "mset (map link_key (srt a)) = mset (map link_key a)"
    by (simp add: sorts_links_mset [OF srt])
  then have "distinct (map link_key (srt a))"
    using d by (rule mset_eq_imp_distinct_iff [THEN iffD2])
  then have da: "distinct (map view_key (map link_obs (srt a)))"
    by (simp add: view_key_obs)
  have "mset (map view_key (map link_obs (srt a))) = mset (map view_key (map link_obs (srt b)))"
    using same by (metis mset_map)
  then have db: "distinct (map view_key (map link_obs (srt b)))"
    using da by (rule mset_eq_imp_distinct_iff [THEN iffD1])
  have sa: "sorted (map view_key (map link_obs (srt ms)))" for ms
    using srt by (simp add: sorts_links_def view_key_obs)
  have set: "set (map link_obs (srt a)) = set (map link_obs (srt b))"
    using same by (rule mset_eq_setD)
  have "inj_on view_key (set (map link_obs (srt a)) \<union> set (map link_obs (srt b)))"
    unfolding set [symmetric] using da by (simp only: distinct_map Un_absorb)
  then show ?thesis
    using sa da sa db set by (rule map_sorted_distinct_set_unique)
qed

lemma linkMetricsEqual_complete:
  assumes srt: "sorts_links srt" and eq: "mset (map link_obs a) = mset (map link_obs b)"
    and d: "distinct (map link_key a)" and nn: "list_all link_no_NaN a"
  shows "linkMetricsEqual srt a b"
proof -
  have views: "map link_obs (srt a) = map link_obs (srt b)"
    using srt eq d by (rule sorted_views_unique)
  have "set (srt a) = set a"
    by (rule mset_eq_setD) (rule sorts_links_mset [OF srt])
  then have "list_all link_no_NaN (srt a)"
    using nn by (simp add: list_all_iff)
  then have "list_all2 linkMetricEqual (srt a) (srt b)"
    using views map_eq_imp_length_eq [OF views]
    by (simp add: list_all2_conv_all_nth linkMetricEqual_iff list_eq_iff_nth_eq list_all_length)
  moreover have "length a = length b"
    using arg_cong [OF eq, of size] by simp
  ultimately show ?thesis
    by (simp add: linkMetricsEqual_def)
qed

lemma runtimeFlagsEqual_iff:
  assumes "flags_ok a" "flags_ok b"
  shows "runtimeFlagsEqual a b \<longleftrightarrow> map_of a = map_of b"
proof
  assume eq: "runtimeFlagsEqual a b"
  then have "mkeys a \<subseteq> mkeys b"
    using assms by (intro mapEqual_keys_of_true) (auto simp: runtimeFlagsEqual_def flags_ok_def list_all_iff)
  then show "map_of a = map_of b"
    using eq assms by (simp add: runtimeFlagsEqual_def flags_ok_def mapEqual_map_of)
next
  assume eq: "map_of a = map_of b"
  then have "mkeys a \<subseteq> mkeys b"
    by (metis dom_map_of_conv_image_fst order_refl)
  then show "runtimeFlagsEqual a b"
    using eq assms by (simp add: runtimeFlagsEqual_def flags_ok_def mapEqual_map_of)
qed

lemma deviceStateEqual_sound:
  assumes srt: "sorts_links srt" and ok: "state_ok a" "grows a b" and eq: "deviceStateEqual srt a b"
  shows "observed a = observed b"
proof -
  have "map_of (ds_FieldStates a) = map_of (ds_FieldStates b)"
    using ok eq by (simp add: deviceStateEqual_def fieldStatesEqual_def grows_def state_ok_def mapEqual_map_of)
  moreover have "map_of (ds_RuntimeFlags a) = map_of (ds_RuntimeFlags b)"
    using ok eq by (simp add: deviceStateEqual_def grows_def state_ok_def runtimeFlagsEqual_iff)
  moreover have "mset (map link_obs (ds_LinkMetrics a)) = mset (map link_obs (ds_LinkMetrics b))"
    using eq by (intro linkMetricsEqual_sound [OF srt]) (simp add: deviceStateEqual_def)
  ultimately show ?thesis
    using eq by (simp add: observed_def deviceStateEqual_def floatPtrEqual_iff networkProbeResultEqual_iff)
qed

lemma deviceStateEqual_complete:
  assumes srt: "sorts_links srt" and ok: "state_ok a" "grows a b" and nn: "state_no_NaN a"
    and d: "distinct (map link_key (ds_LinkMetrics a))" and eq: "observed a = observed b"
  shows "deviceStateEqual srt a b"
proof -
  have "fieldStatesEqual (ds_FieldStates a) (ds_FieldStates b)"
    using ok eq by (simp add: observed_def fieldStatesEqual_def grows_def state_ok_def mapEqual_map_of)
  moreover have "runtimeFlagsEqual (ds_RuntimeFlags a) (ds_RuntimeFlags b)"
    using ok eq by (simp add: observed_def grows_def state_ok_def runtimeFlagsEqual_iff)
  moreover have "linkMetricsEqual srt (ds_LinkMetrics a) (ds_LinkMetrics b)"
    using eq nn by (intro linkMetricsEqual_complete [OF srt _ d]) (simp_all add: observed_def state_no_NaN_def)
  ultimately show ?thesis
    using eq nn
    by (simp add: observed_def deviceStateEqual_def floatPtrEqual_iff networkProbeResultEqual_iff state_no_NaN_def)
qed

subsection \<open>Reachability and failures\<close>

text \<open>Down means that failures were counted, hard down that at least three were.\<close>

definition reach_ok :: "DeviceState \<Rightarrow> bool" where
  "reach_ok d \<longleftrightarrow>
     0 \<le> ds_ConsecutiveFailures d \<and>
     (ds_Reachability d = ReachabilitySoftDown \<longleftrightarrow> ds_ConsecutiveFailures d \<in> {1, 2}) \<and>
     (ds_Reachability d = ReachabilityHardDown \<longleftrightarrow> 3 \<le> ds_ConsecutiveFailures d)"

text \<open>\<open>reach_step p d\<close>: the rule kept the invariant and counted at most one failure.\<close>

definition reach_step :: "DeviceState \<Rightarrow> DeviceState \<Rightarrow> bool" where
  "reach_step p d \<longleftrightarrow> reach_ok d \<and> ds_ConsecutiveFailures d \<le> ds_ConsecutiveFailures p + 1"

lemma reach_ok_zero [simp]: "reach_ok zeroDeviceState"
  by (simp add: reach_ok_def zeroDeviceState_def)

lemma reach_cong:
  "ds_Reachability d = ds_Reachability d' \<Longrightarrow> ds_ConsecutiveFailures d = ds_ConsecutiveFailures d' \<Longrightarrow>
   reach_step p d = reach_step p d'"
  by (simp add: reach_step_def reach_ok_def)

lemma reach_refl: "reach_ok p \<Longrightarrow> reach_step p p"
  by (simp add: reach_step_def)

lemma countFailure_reach:
  assumes "reach_ok p" "ds_ConsecutiveFailures p < 2 ^ 63 - 1"
  shows "reach_step p (countFailure d p)"
proof -
  have "wrap64 (ds_ConsecutiveFailures p + 1) = ds_ConsecutiveFailures p + 1"
    using assms by (intro wrap64_id) (simp add: int64_range_def reach_ok_def)
  then show ?thesis
    using assms by (auto simp: reach_step_def reach_ok_def countFailure_def Let_def)
qed

lemma keepDown_reach: "reach_ok p \<Longrightarrow> reach_step p (keepDown d p)"
  by (simp add: reach_step_def reach_ok_def keepDown_def)

lemma keepUp_reach: "reach_ok p \<Longrightarrow> reach_step p (keepUp d p)"
  by (simp add: reach_step_def reach_ok_def keepUp_def)

lemma up_reach: "reach_ok p \<Longrightarrow> reach_step p (d\<lparr> ds_Reachability := ReachabilityUp, ds_ConsecutiveFailures := 0 \<rparr>)"
  "reach_ok p \<Longrightarrow> reach_step p (d\<lparr> ds_ConsecutiveFailures := 0, ds_Reachability := ReachabilityUp \<rparr>)"
  by (simp_all add: reach_step_def reach_ok_def)

lemma reach_step_frame [simp]:
  "reach_step p (evaluateHealth d m) = reach_step p d"
  "reach_step p (markMetricFieldStates d mm) = reach_step p d"
  "reach_step p (applyFreshnessMetadata d u) = reach_step p d"
  "reach_step p (d\<lparr> ds_Health := h \<rparr>) = reach_step p d"
  "reach_step p (d\<lparr> ds_PrimaryHealth := ph \<rparr>) = reach_step p d"
  "reach_step p (d\<lparr> ds_Metrics := ms \<rparr>) = reach_step p d"
  "reach_step p (d\<lparr> ds_LinkMetrics := ls \<rparr>) = reach_step p d"
  by (simp_all add: reach_step_def reach_ok_def)

lemmas reach_rules = countFailure_reach keepDown_reach keepUp_reach up_reach reach_refl

lemma network_reach:
  assumes "reach_ok p" "ds_ConsecutiveFailures p < 2 ^ 63 - 1"
  shows "reach_step p (applyNetworkObservation d p e r)"
proof -
  have "reach_step p (d\<lparr> ds_ConsecutiveFailures := 0, ds_Reachability := ReachabilityUp, ds_PrimaryHealth := ph \<rparr>)" for ph
    using assms(1) by (simp add: reach_step_def reach_ok_def)
  then show ?thesis
    using assms by (simp add: applyNetworkObservation_def reach_rules)
qed

lemma applyUpdate_reach:
  assumes "reach_ok p" "ds_ConsecutiveFailures p < 2 ^ 63 - 1"
  shows "reach_step p (applyUpdate u b p)"
proof -
  have legacy: "reach_step p (applyLegacyUpdate (applyFreshnessMetadata p u) p b u)"
    using assms reach_rules
    by (auto simp: applyLegacyUpdate_def applyReachabilityUpdate_def Let_def reach_step_def reach_ok_def
        split: option.splits)
  show ?thesis
    using assms legacy
    by (auto simp: applyUpdate_def applyEssentialUpdate_def applyPerformanceUpdate_def applyOperationalUpdate_def
        applyStaticUpdate_def applySNMPFailureOnlyUpdate_def applyReachabilityUpdate_def Let_def network_reach reach_rules
        split: option.splits VolatilityClass.splits)
qed

lemma nextState_reach:
  "reach_ok (prev_of old) \<Longrightarrow> ds_ConsecutiveFailures (prev_of old) < 2 ^ 63 - 1 \<Longrightarrow>
   reach_step (prev_of old) (nextState u old)"
  by (simp add: nextState_def Let_def applyUpdate_reach)

lemma staleState_reach [simp]: "reach_ok (staleState d) = reach_ok d"
  by (simp add: reach_ok_def staleState_def)

lemma staleState_ok [simp]: "state_ok (staleState d) = state_ok d"
  by (simp add: state_ok_def staleState_def)

subsection \<open>Health\<close>

definition severities :: "DeviceState \<Rightarrow> MetricSeverity list" where
  "severities d = [ds_CPUSeverity d, ds_MemSeverity d, ds_TempSeverity d]"

text \<open>Health and severities as they were; a health never evaluated reads as unknown.\<close>

definition health_kept :: "DeviceState \<Rightarrow> DeviceState \<Rightarrow> bool" where
  "health_kept p d \<longleftrightarrow>
     severities d = severities p \<and>
     ds_Health d = (if ds_Health p = HealthStatusOther '''' then HealthStatusUnknown else ds_Health p)"

lemma network_health_frame [simp]:
  "ds_Health (applyNetworkObservation d p e r) = ds_Health d"
  "severities (applyNetworkObservation d p e r) = severities d"
  by (simp_all add: applyNetworkObservation_def countFailure_def keepDown_def keepUp_def severities_def Let_def)

lemma applyUpdate_frozen:
  assumes "su_Essential u \<noteq> None \<or> su_VolatilityClass u \<noteq> VolatilityClassPerformance"
    and "ds_Reachability (applyUpdate u b p) \<noteq> ReachabilityUp"
  shows "severities (applyUpdate u b p) = severities p \<and> ds_Health (applyUpdate u b p) = ds_Health p"
proof (cases "su_Essential u")
  case (Some e)
  then show ?thesis
    by (simp add: applyUpdate_def applyEssentialUpdate_def Let_def) (simp add: severities_def)
next
  case None
  then consider "su_VolatilityClass u = VolatilityClassOperational" | "su_VolatilityClass u = VolatilityClassStatic"
    | "su_VolatilityClass u = VolatilityClassNone"
    using assms(1) by (cases "su_VolatilityClass u") auto
  then show ?thesis
  proof cases
    case 1
    then show ?thesis
      using assms(2) None
      by (auto simp: applyUpdate_def applyOperationalUpdate_def applySNMPFailureOnlyUpdate_def
          applyReachabilityUpdate_def keepDown_def keepUp_def severities_def Let_def split: option.splits if_splits)
  next
    case 2
    then show ?thesis
      using assms(2) None
      by (auto simp: applyUpdate_def applyStaticUpdate_def severities_def Let_def split: option.splits if_splits)
  next
    case 3
    then show ?thesis
      using assms(2) None
      by (auto simp: applyUpdate_def applyLegacyUpdate_def applyReachabilityUpdate_def countFailure_def
          severities_def Let_def split: option.splits if_splits)
  qed
qed

end
