(* ===== verification/State_Feed.thy ===== *)
theory State_Feed
  imports State_Change
begin

text \<open>
  The store at work: goroutines that update it and announce their changes, interleaved step by
  step, and a receiver that takes batches off the channel and consumes the overflow mark. What the
  receiver does with the news is its own affair; the store's contract is that it is told: a device
  that changed since the receiver was last told of it is still announced somewhere, or the
  overflow mark is set or about to be set.
\<close>

subsection \<open>The steps of one announcement\<close>

text \<open>
  \<open>emitChanges\<close> runs outside the lock, so other goroutines act between its channel operations.
  An emitter is where such a call stands: before the first send, draining (with the batches it
  may still receive, and \<open>merged\<close> and \<open>dropped\<close> so far), before the second send, or before
  setting the overflow mark.
\<close>

datatype Emitter =
    EmSend "uuid list"
  | EmDrain "uuid list" nat "uuid list" nat
  | EmSendMerged "uuid list" nat
  | EmMark nat

definition emitDropped :: "nat \<Rightarrow> Emitter option" where
  "emitDropped dropped = (if dropped > 0 then Some (EmMark dropped) else None)"

definition emitMerged :: "uuid list \<times> nat \<Rightarrow> Emitter option" where
  "emitMerged acc = (if fst acc \<noteq> [] then Some (EmSendMerged (fst acc) (snd acc)) else emitDropped (snd acc))"

fun emitStep :: "Store \<Rightarrow> Emitter \<Rightarrow> Store \<times> Emitter option" where
  "emitStep s (EmSend ids) =
     (case sendChanges s ids of
        Some s' \<Rightarrow> (s', None)
      | None \<Rightarrow>
          if st_cap s = 0 then (s, emitDropped (length ids))
          else (s, Some (EmDrain ids (st_cap s) [] 0)))"
| "emitStep s (EmDrain ids n merged dropped) =
     (if n = 0 then (s, emitMerged (addIDs (st_cap s) ids (merged, dropped)))
      else case st_changes s of
             [] \<Rightarrow> (s, emitMerged (addIDs (st_cap s) ids (merged, dropped)))
           | queued # rest \<Rightarrow>
               let acc = addIDs (st_cap s) queued (merged, dropped)
               in (s\<lparr> st_changes := rest \<rparr>, Some (EmDrain ids (n - 1) (fst acc) (snd acc))))"
| "emitStep s (EmSendMerged merged dropped) =
     (case sendChanges s merged of
        Some s' \<Rightarrow> (s', emitDropped dropped)
      | None \<Rightarrow> (s, emitDropped (dropped + length merged)))"
| "emitStep s (EmMark dropped) = (markChangesOverflowed s dropped, None)"

definition announce :: "uuid list \<Rightarrow> Emitter list" where
  "announce ids = (if ids = [] then [] else [EmSend ids])"

text \<open>An emitter left alone: at most \<open>n\<close> of its steps.\<close>

fun emitRun :: "nat \<Rightarrow> Store \<Rightarrow> Emitter option \<Rightarrow> Store \<times> Emitter option" where
  "emitRun 0 s e = (s, e)"
| "emitRun (Suc n) s None = (s, None)"
| "emitRun (Suc n) s (Some e) = (case emitStep s e of (s', e') \<Rightarrow> emitRun n s' e')"

text \<open>The steps an emitter still has to take, at most, whatever the others do.\<close>

fun emitWork :: "nat \<Rightarrow> Emitter \<Rightarrow> nat" where
  "emitWork cap (EmSend ids) = cap + 4"
| "emitWork cap (EmDrain ids n merged dropped) = n + 3"
| "emitWork cap (EmSendMerged merged dropped) = 2"
| "emitWork cap (EmMark dropped) = 1"

definition emitWorkOpt :: "nat \<Rightarrow> Emitter option \<Rightarrow> nat" where
  "emitWorkOpt cap e = (case e of None \<Rightarrow> 0 | Some e \<Rightarrow> emitWork cap e)"

lemma emitWork_emitDropped [simp]: "emitWorkOpt cap (emitDropped d) \<le> 1"
  by (simp add: emitDropped_def emitWorkOpt_def)

lemma emitWork_emitMerged [simp]: "emitWorkOpt cap (emitMerged acc) \<le> 2"
  using emitWork_emitDropped [of cap "snd acc"] by (simp add: emitMerged_def emitWorkOpt_def)

lemma emitStep_decreases:
  assumes "emitStep s e = (s', e')"
  shows "emitWorkOpt (st_cap s) e' < emitWork (st_cap s) e"
proof (cases e)
  case (EmSend ids)
  then show ?thesis
    using assms emitWork_emitDropped [of "st_cap s" "length ids"]
    by (auto simp: emitWorkOpt_def split: option.splits if_splits)
next
  case (EmDrain ids n merged dropped)
  then show ?thesis
    using assms emitWork_emitMerged [of "st_cap s" "addIDs (st_cap s) ids (merged, dropped)"]
    by (auto simp: Let_def emitWorkOpt_def split: list.splits if_splits)
next
  case (EmSendMerged merged dropped)
  then show ?thesis
    using assms emitWork_emitDropped [of "st_cap s"]
    by (auto simp: less_Suc_eq_le numeral_2_eq_2 split: option.splits)
next
  case (EmMark dropped)
  then show ?thesis
    using assms by (auto simp: emitWorkOpt_def)
qed

text \<open>The emitter meets some store at each of its steps; only the capacity is constant.\<close>

fun emitUnder :: "Store list \<Rightarrow> Emitter option \<Rightarrow> Emitter option" where
  "emitUnder [] e = e"
| "emitUnder (s # ss) None = None"
| "emitUnder (s # ss) (Some e) = emitUnder ss (snd (emitStep s e))"

lemma emitUnder_None [simp]: "emitUnder ss None = None"
  by (cases ss) simp_all

lemma emitUnder_ends:
  "emitWorkOpt c e \<le> length ss \<Longrightarrow> \<forall>s\<in>set ss. st_cap s = c \<Longrightarrow> emitUnder ss e = None"
proof (induction ss arbitrary: e)
  case Nil
  then show ?case
    by (cases e; cases "the e") (simp_all add: emitWorkOpt_def)
next
  case (Cons s ss)
  show ?case
  proof (cases e)
    case None
    then show ?thesis by simp
  next
    case (Some e0)
    have "emitWorkOpt c (snd (emitStep s e0)) < emitWork c e0"
      using emitStep_decreases [of s e0] Cons.prems(2) by (metis list.set_intros(1) prod.collapse)
    then show ?thesis
      using Cons.IH [of "snd (emitStep s e0)"] Cons.prems Some by (simp add: emitWorkOpt_def)
  qed
qed

text \<open>Alone, the steps compute what \<open>emitChanges\<close> computes.\<close>

lemma emitRun_None [simp]: "emitRun n s None = (s, None)"
  by (cases n) simp_all

lemma emitRun_dropped:
  "emitRun (Suc n) s (emitDropped d) = (if d > 0 then markChangesOverflowed s d else s, None)"
  by (simp add: emitDropped_def)

lemma emitRun_merged:
  "emitRun (Suc (Suc n)) s (emitMerged (merged, dropped)) =
     ((let (s, dropped) =
             (if merged = [] then (s, dropped)
              else case sendChanges s merged of Some s \<Rightarrow> (s, dropped) | None \<Rightarrow> (s, dropped + length merged))
       in if dropped > 0 then markChangesOverflowed s dropped else s), None)"
  by (cases "merged = []")
    (auto simp: emitMerged_def emitRun_dropped emitRun.simps(3) [of "Suc n"] Let_def split: option.splits
      simp del: emitRun.simps(3))

lemma store_changes_id: "st_changes s = q \<Longrightarrow> s\<lparr> st_changes := q \<rparr> = s"
  by (cases s) simp

lemma emitRun_drain:
  "length (st_changes s) = k \<Longrightarrow> k \<le> n \<Longrightarrow>
   emitRun (Suc (Suc (Suc k + m))) s (Some (EmDrain ids n merged dropped)) =
   (let (changes, acc) = drainBatches (st_cap s) n (st_changes s) (merged, dropped)
    in emitRun (Suc (Suc m)) (s\<lparr> st_changes := changes \<rparr>) (emitMerged (addIDs (st_cap s) ids acc)))"
proof (induction k arbitrary: s n merged dropped)
  case 0
  then show ?case
    by (cases n) (simp_all add: Let_def store_changes_id)
next
  case (Suc k)
  obtain b q where bq: "st_changes s = b # q"
    using Suc.prems by (cases "st_changes s") auto
  obtain n' where n: "n = Suc n'"
    using Suc.prems by (cases n) auto
  obtain m' d' where acc: "addIDs (st_cap s) b (merged, dropped) = (m', d')"
    by fastforce
  show ?case
    using Suc.IH [of "s\<lparr> st_changes := q \<rparr>" n' m' d'] Suc.prems by (simp add: bq n acc)
qed

lemma emitRun_emitChanges:
  assumes "length (st_changes s) \<le> st_cap s" "ids \<noteq> []"
  shows "emitRun (st_cap s + 4) s (Some (EmSend ids)) = (emitChanges s ids, None)"
proof (cases "length (st_changes s) < st_cap s")
  case True
  then show ?thesis
    using assms by (simp add: emitChanges_def sendChanges_def numeral_eq_Suc)
next
  case full: False
  show ?thesis
  proof (cases "st_cap s = 0")
    case True
    then show ?thesis
      using full assms
      by (simp add: emitChanges_def sendChanges_def numeral_eq_Suc coalesceQueuedChanges_def emitDropped_def Let_def)
  next
    case False
    define k where "k = length (st_changes s)"
    have k: "k = st_cap s"
      using full assms k_def by simp
    obtain changes acc where d: "drainBatches (st_cap s) (st_cap s) (st_changes s) ([], 0) = (changes, acc)"
      by (meson surj_pair)
    obtain merged dropped where a: "addIDs (st_cap s) ids acc = (merged, dropped)"
      by (meson surj_pair)
    have "emitRun (st_cap s + 4) s (Some (EmSend ids)) =
        emitRun (Suc (Suc (Suc k + 0))) s (Some (EmDrain ids (st_cap s) [] 0))"
      using full False k by (simp add: sendChanges_def numeral_eq_Suc)
    also have "\<dots> = emitRun (Suc (Suc 0)) (s\<lparr> st_changes := changes \<rparr>) (emitMerged (merged, dropped))"
      by (subst emitRun_drain) (simp_all add: k_def [symmetric] k d a)
    also have "\<dots> = (emitChanges s ids, None)"
      using full False assms(2)
      by (simp add: emitRun_merged emitChanges_def sendChanges_def coalesceQueuedChanges_def d a Let_def split: prod.splits)
    finally show ?thesis .
  qed
qed

subsection \<open>What coalescing keeps\<close>

text \<open>
  \<open>acc_ok limit A acc\<close>: the accumulator after the identifiers \<open>A\<close> were added to it. Nothing is
  dropped until \<open>limit\<close> distinct identifiers are merged.
\<close>

definition acc_ok :: "nat \<Rightarrow> uuid set \<Rightarrow> uuid list \<times> nat \<Rightarrow> bool" where
  "acc_ok limit A acc \<longleftrightarrow>
     distinct (fst acc) \<and> length (fst acc) \<le> limit \<and> set (fst acc) \<subseteq> A \<and>
     (if snd acc = 0 then set (fst acc) = A else length (fst acc) = limit \<and> set (fst acc) \<noteq> A)"

lemma addIDs_acc: "acc_ok limit A acc \<Longrightarrow> acc_ok limit (A \<union> set batch) (addIDs limit batch acc)"
proof (induction limit batch acc arbitrary: A rule: addIDs.induct)
  case (1 limit acc)
  then show ?case by simp
next
  case (2 limit i batch merged dropped)
  have step: "acc_ok limit (insert i A) (if i \<in> set merged then (merged, dropped)
      else if length merged \<ge> limit then (merged, dropped + 1) else (merged @ [i], dropped))"
    using 2(4) by (auto simp: acc_ok_def split: if_splits)
  then show ?case
    using 2(1-3) [of "insert i A"] by (auto split: if_splits)
qed

lemma drainBatches_acc:
  "length q \<le> n \<Longrightarrow> acc_ok limit A acc \<Longrightarrow>
   \<exists>acc'. drainBatches limit n q acc = ([], acc') \<and> acc_ok limit (A \<union> set (concat q)) acc'"
proof (induction limit n q acc arbitrary: A rule: drainBatches.induct)
  case (3 limit n b q acc)
  then show ?case
    using addIDs_acc [OF 3(3), of b] by (fastforce simp: Un_assoc)
qed simp_all

lemma acc_ok_card:
  assumes "acc_ok limit A acc" and "finite A"
  shows "snd acc > 0 \<longleftrightarrow> card A > limit"
proof (cases "snd acc = 0")
  case True
  then show ?thesis using assms distinct_card [of "fst acc"] by (auto simp: acc_ok_def)
next
  case False
  then have "set (fst acc) \<subset> A" "card (set (fst acc)) = limit"
    using assms(1) distinct_card [of "fst acc"] by (auto simp: acc_ok_def)
  then show ?thesis using False psubset_card_mono [OF assms(2)] by auto
qed

subsection \<open>What an announcement carries\<close>

fun carried :: "Emitter \<Rightarrow> uuid set" where
  "carried (EmSend ids) = set ids"
| "carried (EmDrain ids n merged dropped) = set ids \<union> set merged"
| "carried (EmSendMerged merged dropped) = set merged"
| "carried (EmMark dropped) = {}"

text \<open>An emitter that has dropped identifiers and has yet to set the mark.\<close>

fun lossy :: "Emitter \<Rightarrow> bool" where
  "lossy (EmSend ids) = False"
| "lossy (EmDrain ids n merged dropped) = (dropped > 0)"
| "lossy (EmSendMerged merged dropped) = (dropped > 0)"
| "lossy (EmMark dropped) = True"

definition carriedOpt :: "Emitter option \<Rightarrow> uuid set" where
  "carriedOpt e = (case e of None \<Rightarrow> {} | Some e \<Rightarrow> carried e)"

definition lossyOpt :: "Emitter option \<Rightarrow> bool" where
  "lossyOpt e = (case e of None \<Rightarrow> False | Some e \<Rightarrow> lossy e)"

definition queued_ids :: "Store \<Rightarrow> uuid set" where
  "queued_ids s = set (concat (st_changes s))"

lemma addIDs_keeps:
  "addIDs limit batch (merged, dropped) = (merged', dropped') \<Longrightarrow>
   dropped \<le> dropped' \<and> set merged \<subseteq> set merged' \<and> (dropped' = dropped \<longrightarrow> set batch \<subseteq> set merged')"
proof (induction limit batch "(merged, dropped)" arbitrary: merged dropped rule: addIDs.induct)
  case (1 limit)
  then show ?case by simp
next
  case (2 limit i batch merged dropped)
  show ?case
  proof (cases "i \<in> set merged")
    case True
    then show ?thesis
      using 2 by auto
  next
    case new: False
    show ?thesis
    proof (cases "length merged \<ge> limit")
      case True
      then show ?thesis
        using 2 new by (auto simp: Suc_le_eq)
    next
      case False
      then show ?thesis
        using 2 new by auto
    qed
  qed
qed

lemma addIDs_pair: "addIDs limit batch acc = (fst (addIDs limit batch acc), snd (addIDs limit batch acc))"
  by simp

lemma emitDropped_lossy: "lossyOpt (emitDropped d) \<longleftrightarrow> d > 0" "carriedOpt (emitDropped d) = {}"
  by (simp_all add: emitDropped_def lossyOpt_def carriedOpt_def)

lemma emitMerged_lossy: "lossyOpt (emitMerged acc) \<longleftrightarrow> snd acc > 0" "carriedOpt (emitMerged acc) = set (fst acc)"
  by (simp_all add: emitMerged_def emitDropped_lossy) (simp_all add: lossyOpt_def carriedOpt_def)

text \<open>
  One step of an emitter: nothing carried or queued disappears unless the loss is on record, and
  a loss stays on record until the mark is set.
\<close>

definition conserves :: "Store \<Rightarrow> Emitter \<Rightarrow> Store \<Rightarrow> Emitter option \<Rightarrow> bool" where
  "conserves s e s' e' \<longleftrightarrow>
     (carried e \<union> queued_ids s \<subseteq> carriedOpt e' \<union> queued_ids s' \<or> lossyOpt e' \<or> st_overflowed s') \<and>
     (lossy e \<longrightarrow> lossyOpt e' \<or> st_overflowed s') \<and>
     (st_overflowed s \<longrightarrow> st_overflowed s') \<and>
     st_devices s' = st_devices s \<and> st_cap s' = st_cap s \<and>
     (length (st_changes s) \<le> st_cap s \<longrightarrow> length (st_changes s') \<le> st_cap s)"

lemma sendChanges_conserves:
  "sendChanges s ids = Some s' \<Longrightarrow>
   queued_ids s' = set ids \<union> queued_ids s \<and> st_overflowed s' = st_overflowed s \<and>
   st_devices s' = st_devices s \<and> st_cap s' = st_cap s \<and> length (st_changes s') \<le> st_cap s"
  by (auto simp: sendChanges_def queued_ids_def split: if_splits)

lemma emitStep_drain_conserves:
  assumes "emitStep s (EmDrain ids n merged dropped) = (s', e')"
  shows "conserves s (EmDrain ids n merged dropped) s' e'"
proof (cases "n = 0 \<or> st_changes s = []")
  case True
  obtain m d where acc: "addIDs (st_cap s) ids (merged, dropped) = (m, d)"
    by fastforce
  have "s' = s" "e' = emitMerged (m, d)"
    using assms True acc by (auto split: if_splits list.splits)
  then show ?thesis
    using addIDs_keeps [OF acc] by (auto simp: conserves_def emitMerged_lossy)
next
  case False
  then obtain b q where bq: "st_changes s = b # q" "n \<noteq> 0"
    by (cases "st_changes s") auto
  obtain m d where acc: "addIDs (st_cap s) b (merged, dropped) = (m, d)"
    by fastforce
  have "s' = s\<lparr> st_changes := q \<rparr>" "e' = Some (EmDrain ids (n - 1) m d)"
    using assms bq acc by auto
  then show ?thesis
    using addIDs_keeps [OF acc] bq
    by (auto simp: conserves_def carriedOpt_def lossyOpt_def queued_ids_def)
qed

lemma emitStep_conserves:
  assumes "emitStep s e = (s', e')"
  shows "conserves s e s' e'"
proof (cases e)
  case (EmSend ids)
  then show ?thesis
    using assms sendChanges_conserves [of s ids]
    by (auto simp: conserves_def emitDropped_def carriedOpt_def lossyOpt_def split: option.splits if_splits)
next
  case (EmDrain ids n merged dropped)
  then show ?thesis
    using assms emitStep_drain_conserves by blast
next
  case (EmSendMerged merged dropped)
  then show ?thesis
    using assms sendChanges_conserves [of s merged]
    by (auto simp: conserves_def emitDropped_lossy split: option.splits)
next
  case (EmMark dropped)
  then show ?thesis
    using assms by (auto simp: conserves_def markChangesOverflowed_def queued_ids_def carriedOpt_def)
qed

text \<open>
  A whole announcement, alone: with a free slot it appends its batch; otherwise it replaces the
  queue by one batch of distinct identifiers, at most as many as the channel has slots, and marks
  the overflow exactly when there were more.
\<close>

lemma emitChanges_send:
  "ids \<noteq> [] \<Longrightarrow> length (st_changes s) < st_cap s \<Longrightarrow>
   emitChanges s ids = s\<lparr> st_changes := st_changes s @ [ids] \<rparr>"
  by (simp add: emitChanges_def sendChanges_def)

lemma emitChanges_full:
  assumes "ids \<noteq> []" and "length (st_changes s) = st_cap s"
  obtains merged dropped where "acc_ok (st_cap s) (queued_ids s \<union> set ids) (merged, dropped) \<or> st_cap s = 0 \<and> merged = [] \<and> dropped > 0"
    and "emitChanges s ids = (let t = s\<lparr> st_changes := (if merged = [] then [] else [merged]) \<rparr>
           in if dropped > 0 then markChangesOverflowed t dropped else t)"
proof (cases "st_cap s = 0")
  case True
  then have "s\<lparr> st_changes := [] \<rparr> = s" using assms(2) by (intro store_changes_id) simp
  then show ?thesis
    using that [of "[]" "length ids"] True assms
    by (simp add: emitChanges_def sendChanges_def coalesceQueuedChanges_def Let_def)
next
  case False
  obtain acc where d: "drainBatches (st_cap s) (st_cap s) (st_changes s) ([], 0) = ([], acc)"
    and ok: "acc_ok (st_cap s) (queued_ids s) acc"
    using drainBatches_acc [of "st_changes s" "st_cap s" "st_cap s" "{}" "([], 0)"] assms(2)
    by (auto simp: acc_ok_def queued_ids_def)
  obtain merged dropped where a: "addIDs (st_cap s) ids acc = (merged, dropped)" by fastforce
  show ?thesis
    using that [of merged dropped] addIDs_acc [OF ok, of ids] False assms
    by (simp add: emitChanges_def sendChanges_def coalesceQueuedChanges_def d a Let_def)
qed

subsection \<open>The feed\<close>

text \<open>
  The store, the announcements in progress, and for the statements the devices \<open>fd_due\<close> that have
  changed since the receiver was last told of them. What changes is \<open>observed\<close>; the receiver is
  told of a device by a batch that names it, and of all devices by the overflow mark.
\<close>

record Feed =
  fd_store :: Store
  fd_emitters :: "Emitter list"
  fd_due :: "uuid set"

definition feed_init :: Feed where
  "feed_init = \<lparr> fd_store = NewStore, fd_emitters = [], fd_due = {} \<rparr>"

definition changed :: "Store \<Rightarrow> Store \<Rightarrow> uuid set" where
  "changed s s' = {i. map_option observed (st_devices s' i) \<noteq> map_option observed (st_devices s i)}"

text \<open>A section under the lock is over: its announcement starts.\<close>

definition written :: "Feed \<Rightarrow> Store \<Rightarrow> uuid list \<Rightarrow> Feed" where
  "written f s ids =
     f\<lparr> fd_store := s, fd_emitters := fd_emitters f @ announce ids, fd_due := fd_due f \<union> changed (fd_store f) s \<rparr>"

text \<open>
  The steps of the goroutines that write, and those that pass the news on: an announcement acts, the
  receiver takes a batch off the channel, or it consumes the overflow mark.
\<close>

inductive write_step :: "link_sort \<Rightarrow> Feed \<Rightarrow> Feed \<Rightarrow> bool" for srt where
  write_update: "updateLocked srt (fd_store f) u = (s, ids) \<Longrightarrow> write_step srt f (written f s ids)"
| write_remove: "removeLocked (fd_store f) i = (s, ids) \<Longrightarrow> write_step srt f (written f s ids)"
| write_stale: "markStaleLoop now order (fd_store f) [] = (s, ids) \<Longrightarrow>
    set order = dom (st_devices (fd_store f)) \<Longrightarrow> distinct order \<Longrightarrow> write_step srt f (written f s ids)"

inductive pass_step :: "Feed \<Rightarrow> Feed \<Rightarrow> bool" where
  pass_emit: "fd_emitters f = xs @ e # ys \<Longrightarrow> emitStep (fd_store f) e = (s, e') \<Longrightarrow>
    pass_step f (f\<lparr> fd_store := s, fd_emitters := xs @ (case e' of None \<Rightarrow> [] | Some e \<Rightarrow> [e]) @ ys \<rparr>)"
| pass_receive: "st_changes (fd_store f) = b # q \<Longrightarrow>
    pass_step f (f\<lparr> fd_store := (fd_store f)\<lparr> st_changes := q \<rparr>, fd_due := fd_due f - set b \<rparr>)"
| pass_consume: "ConsumeOverflowed (fd_store f) = (s, True) \<Longrightarrow>
    pass_step f (f\<lparr> fd_store := s, fd_due := {} \<rparr>)"

definition feed_step :: "link_sort \<Rightarrow> Feed \<Rightarrow> Feed \<Rightarrow> bool" where
  "feed_step srt f f' \<longleftrightarrow> write_step srt f f' \<or> pass_step f f'"

inductive feed_run :: "link_sort \<Rightarrow> nat \<Rightarrow> Feed \<Rightarrow> bool" for srt where
  feed_start: "feed_run srt 0 feed_init"
| feed_next: "feed_run srt n f \<Longrightarrow> feed_step srt f f' \<Longrightarrow> feed_run srt (Suc n) f'"

subsection \<open>Nothing is forgotten\<close>

definition pending :: "Feed \<Rightarrow> uuid set" where
  "pending f = queued_ids (fd_store f) \<union> \<Union> (carried ` set (fd_emitters f))"

definition resync_due :: "Feed \<Rightarrow> bool" where
  "resync_due f \<longleftrightarrow> st_overflowed (fd_store f) \<or> list_ex lossy (fd_emitters f)"

definition feed_ok :: "Feed \<Rightarrow> bool" where
  "feed_ok f \<longleftrightarrow>
     (\<forall>i d. st_devices (fd_store f) i = Some d \<longrightarrow> state_ok d) \<and>
     length (st_changes (fd_store f)) \<le> st_cap (fd_store f) \<and> st_cap (fd_store f) = 32"

definition coherent :: "Feed \<Rightarrow> bool" where
  "coherent f \<longleftrightarrow> resync_due f \<or> fd_due f \<subseteq> pending f"

text \<open>The three writers keep well-formedness and announce whatever they changed observably.\<close>

definition writes :: "Store \<Rightarrow> Store \<Rightarrow> uuid list \<Rightarrow> bool" where
  "writes s s' ids \<longleftrightarrow>
     s' = s\<lparr> st_devices := st_devices s' \<rparr> \<and>
     ((\<forall>i d. st_devices s i = Some d \<longrightarrow> state_ok d) \<longrightarrow>
       (\<forall>i d. st_devices s' i = Some d \<longrightarrow> state_ok d) \<and> changed s s' \<subseteq> set ids)"

lemma updateLocked_writes:
  assumes srt: "sorts_links srt" and u: "updateLocked srt s u = (s', ids)"
  shows "writes s s' ids"
proof (cases "su_DeviceID u = uuid_Nil")
  case True
  then show ?thesis
    using u by (auto simp: updateLocked_def writes_def changed_def)
next
  case False
  define old where "old = st_devices s (su_DeviceID u)"
  have s': "s' = s\<lparr> st_devices := (st_devices s)(su_DeviceID u \<mapsto> nextState u old) \<rparr>"
    and ids: "ids = (if (case old of None \<Rightarrow> True | Some prev \<Rightarrow> \<not> deviceStateEqual srt prev (nextState u old))
                     then [su_DeviceID u] else [])"
    using u False unfolding updateLocked_def Let_def old_def by auto
  have ok: "state_ok (nextState u old) \<and>
      (su_DeviceID u \<in> set ids \<or> map_option observed old = Some (observed (nextState u old)))"
    if all: "\<forall>i d. st_devices s i = Some d \<longrightarrow> state_ok d"
  proof (cases old)
    case None
    then show ?thesis
      using nextState_grows [of old u] by (simp add: ids prev_of_def grows_def)
  next
    case (Some prev)
    then have p: "state_ok prev"
      using all old_def by simp
    then have g: "grows prev (nextState u old)"
      using nextState_grows [of old u] Some by (simp add: prev_of_def)
    then show ?thesis
      using deviceStateEqual_sound [OF srt p g] Some by (auto simp: ids grows_def)
  qed
  show ?thesis
    using ok False by (auto simp: writes_def changed_def s' old_def split: if_splits)
qed

lemma removeLocked_writes: "removeLocked s i = (s', ids) \<Longrightarrow> writes s s' ids"
  by (auto simp: removeLocked_def writes_def changed_def split: if_splits)

lemma markStaleLoop_spec:
  assumes "distinct order"
  shows "markStaleLoop now order s acc =
    (s\<lparr> st_devices := (\<lambda>i. if i \<in> set order then map_option (\<lambda>d. if overdue now d then staleState d else d) (st_devices s i)
                         else st_devices s i) \<rparr>,
     acc @ filter (\<lambda>i. case st_devices s i of None \<Rightarrow> False | Some d \<Rightarrow> overdue now d) order)"
  using assms
proof (induction order arbitrary: s acc)
  case Nil
  then show ?case by simp
next
  case (Cons i order)
  show ?case
  proof (cases "st_devices s i")
    case None
    then show ?thesis
      using Cons by (auto simp: fun_eq_iff intro!: filter_cong)
  next
    case (Some d)
    then show ?thesis
      using Cons by (cases "overdue now d") (auto simp: fun_eq_iff split: option.splits intro!: filter_cong)
  qed
qed

lemma markStaleLoop_writes:
  assumes "markStaleLoop now order s [] = (s', ids)" "distinct order"
  shows "writes s s' ids"
proof -
  have s': "s' = s\<lparr> st_devices := (\<lambda>i. if i \<in> set order
      then map_option (\<lambda>d. if overdue now d then staleState d else d) (st_devices s i) else st_devices s i) \<rparr>"
    and ids: "ids = filter (\<lambda>i. case st_devices s i of None \<Rightarrow> False | Some d \<Rightarrow> overdue now d) order"
    using assms markStaleLoop_spec [OF assms(2)] by auto
  show ?thesis
    unfolding writes_def changed_def
    by (auto simp: s' ids split: if_splits option.splits) (metis not_None_eq option.simps(8))
qed

lemma write_step_writes:
  assumes "sorts_links srt" "write_step srt f f'"
  obtains s ids where "writes (fd_store f) s ids" "f' = written f s ids"
  using assms(2)
proof cases
  case (write_update u s ids)
  then show ?thesis
    using that updateLocked_writes [OF assms(1)] by blast
next
  case (write_remove i s ids)
  then show ?thesis
    using that removeLocked_writes by blast
next
  case (write_stale now order s ids)
  then show ?thesis
    using that markStaleLoop_writes by blast
qed

lemma carried_announce: "\<Union> (carried ` set (announce ids)) = set ids" "\<not> list_ex lossy (announce ids)"
  by (simp_all add: announce_def)

lemma written_inv:
  assumes w: "writes (fd_store f) s ids" and ok: "feed_ok f" and c: "coherent f"
  shows "feed_ok (written f s ids) \<and> coherent (written f s ids)"
proof -
  have s: "s = (fd_store f)\<lparr> st_devices := st_devices s \<rparr>"
    using w by (simp add: writes_def)
  have same: "st_changes s = st_changes (fd_store f)" "st_cap s = st_cap (fd_store f)"
    "st_overflowed s = st_overflowed (fd_store f)"
    by (subst s, simp)+
  have "pending (written f s ids) = pending f \<union> set ids" "resync_due (written f s ids) = resync_due f"
    using carried_announce [of ids] by (auto simp: written_def pending_def resync_due_def queued_ids_def same)
  then show ?thesis
    using w ok c by (auto simp: coherent_def feed_ok_def writes_def written_def same)
qed

lemma snapshotLoop_get:
  "snapshotLoop s ids out i =
     (if out i \<noteq> None then out i
      else if i \<in> set ids \<and> i \<noteq> uuid_Nil then map_option cloneDeviceState (st_devices s i) else None)"
proof (induction ids arbitrary: out)
  case Nil
  then show ?case by simp
next
  case (Cons j ids)
  show ?case
  proof (cases "j = uuid_Nil \<or> out j \<noteq> None \<or> st_devices s j = None")
    case True
    then have "snapshotLoop s (j # ids) out = snapshotLoop s ids out"
      by auto
    then show ?thesis
      using True Cons.IH [of out] by auto
  next
    case False
    then obtain d where d: "st_devices s j = Some d"
      by auto
    then have step: "snapshotLoop s (j # ids) out = snapshotLoop s ids (out(j \<mapsto> cloneDeviceState d))"
      using False by simp
    show ?thesis
      unfolding step Cons.IH using False d by auto
  qed
qed

lemma SnapshotFor_get:
  "SnapshotFor s ids i = (if i \<in> set ids \<and> i \<noteq> uuid_Nil then map_option cloneDeviceState (st_devices s i) else None)"
  by (auto simp: SnapshotFor_def snapshotLoop_get)

lemma clone_agrees:
  "\<forall>d. st_devices s i = Some d \<longrightarrow> state_ok d \<Longrightarrow>
   map_option observed (map_option cloneDeviceState (st_devices s i)) = map_option observed (st_devices s i)"
  by (cases "st_devices s i") (simp_all add: observed_clone)

definition opt_list :: "'a option \<Rightarrow> 'a list" where
  "opt_list e = (case e of None \<Rightarrow> [] | Some e \<Rightarrow> [e])"

lemma opt_list_carried: "\<Union> (carried ` set (opt_list e)) = carriedOpt e" "list_ex lossy (opt_list e) = lossyOpt e"
  by (simp_all add: opt_list_def carriedOpt_def lossyOpt_def split: option.splits)

lemma emit_coherent:
  assumes es: "fd_emitters f = xs @ e # ys" and st: "emitStep (fd_store f) e = (s, e')" and c: "coherent f"
  shows "coherent (f\<lparr> fd_store := s, fd_emitters := xs @ opt_list e' @ ys \<rparr>)"
proof -
  let ?f = "f\<lparr> fd_store := s, fd_emitters := xs @ opt_list e' @ ys \<rparr>"
  let ?rest = "\<Union> (carried ` set xs) \<union> \<Union> (carried ` set ys)"
  have cons: "conserves (fd_store f) e s e'"
    using emitStep_conserves [OF st] .
  have p: "pending f = ?rest \<union> (carried e \<union> queued_ids (fd_store f))"
    "pending ?f = ?rest \<union> (carriedOpt e' \<union> queued_ids s)"
    by (auto simp: pending_def es opt_list_carried [symmetric])
  have r: "resync_due ?f \<longleftrightarrow> st_overflowed s \<or> list_ex lossy xs \<or> lossyOpt e' \<or> list_ex lossy ys"
    by (auto simp: resync_due_def opt_list_carried)
  have keep: "resync_due f \<Longrightarrow> resync_due ?f"
    using cons unfolding r by (auto simp: resync_due_def es conserves_def)
  have "pending f \<subseteq> pending ?f" if "\<not> resync_due ?f"
    using cons that unfolding r p by (auto simp: conserves_def)
  then show ?thesis
    using c keep by (auto simp: coherent_def)
qed

lemma pass_step_coherent:
  assumes c: "coherent f" and st: "pass_step f f'"
  shows "coherent f'"
  using st
proof cases
  case (pass_emit xs e ys s e')
  then show ?thesis
    using emit_coherent [OF pass_emit(2,3) c] by (simp add: opt_list_def)
next
  case (pass_receive b q)
  then have "pending f \<subseteq> pending f' \<union> set b" "resync_due f' = resync_due f"
    by (auto simp: pending_def queued_ids_def resync_due_def)
  then show ?thesis
    using c pass_receive(1) by (auto simp: coherent_def)
next
  case (pass_consume s)
  then show ?thesis
    by (simp add: coherent_def)
qed

lemma pass_step_ok:
  assumes ok: "feed_ok f" and st: "pass_step f f'"
  shows "feed_ok f' \<and> st_devices (fd_store f') = st_devices (fd_store f)"
  using st
proof cases
  case (pass_emit xs e ys s e')
  then show ?thesis
    using emitStep_conserves [OF pass_emit(3)] ok by (auto simp: feed_ok_def conserves_def)
qed (use ok in \<open>auto simp: feed_ok_def ConsumeOverflowed_def\<close>)

lemma feed_step_inv:
  assumes srt: "sorts_links srt" and ok: "feed_ok f" and c: "coherent f" and st: "feed_step srt f f'"
  shows "feed_ok f' \<and> coherent f'"
proof (cases "pass_step f f'")
  case True
  then show ?thesis
    using pass_step_ok [OF ok] pass_step_coherent [OF c] by blast
next
  case False
  then have "write_step srt f f'"
    using st by (simp add: feed_step_def)
  then show ?thesis
    using written_inv ok c by (metis write_step_writes [OF srt])
qed

lemma feed_init_inv: "feed_ok feed_init \<and> coherent feed_init"
  by (simp add: feed_ok_def coherent_def feed_init_def NewStore_def)

lemma feed_run_inv:
  assumes "feed_run srt n f" "sorts_links srt"
  shows "feed_ok f \<and> coherent f"
  using assms by (induction rule: feed_run.induct) (auto simp: feed_init_inv dest: feed_step_inv)

text \<open>What a receiver that has been told reads: the devices as they are in the store.\<close>

lemma told_then_read:
  assumes "feed_run srt n f" and "sorts_links srt"
  shows "map_option observed (Snapshot (fd_store f) i) = map_option observed (st_devices (fd_store f) i)"
    and "i \<in> set ids \<Longrightarrow> i \<noteq> uuid_Nil \<Longrightarrow>
      map_option observed (SnapshotFor (fd_store f) ids i) = map_option observed (st_devices (fd_store f) i)"
  using feed_run_inv [OF assms] clone_agrees [of "fd_store f" i]
  by (simp_all add: feed_ok_def Snapshot_def SnapshotFor_get)

subsection \<open>Coming to rest\<close>

text \<open>
  The steps that can still be taken without a write: what every announcement may do, what is in the
  channel, and the mark.
\<close>

fun emitCost :: "nat \<Rightarrow> Emitter \<Rightarrow> nat" where
  "emitCost cap (EmSend ids) = cap + 6"
| "emitCost cap (EmDrain ids n merged dropped) = n + 5"
| "emitCost cap (EmSendMerged merged dropped) = 4"
| "emitCost cap (EmMark dropped) = 2"

definition storeCost :: "Store \<Rightarrow> nat" where
  "storeCost s = length (st_changes s) + (if st_overflowed s then 1 else 0)"

definition feedWork :: "Feed \<Rightarrow> nat" where
  "feedWork f = sum_list (map (emitCost (st_cap (fd_store f))) (fd_emitters f)) + storeCost (fd_store f)"

lemma emitDropped_cost: "sum_list (map (emitCost cap) (opt_list (emitDropped d))) \<le> 2"
  by (simp add: emitDropped_def opt_list_def)

lemma emitMerged_cost: "sum_list (map (emitCost cap) (opt_list (emitMerged acc))) \<le> 4"
  using emitDropped_cost [of cap "snd acc"] by (simp add: emitMerged_def opt_list_def)

lemma emitStep_cost:
  assumes "emitStep s e = (s', e')"
  shows "sum_list (map (emitCost (st_cap s)) (opt_list e')) + storeCost s' < emitCost (st_cap s) e + storeCost s"
proof (cases e)
  case (EmSend ids)
  then show ?thesis
    using assms emitDropped_cost [of "st_cap s" "length ids"]
    by (auto simp: sendChanges_def storeCost_def opt_list_def split: if_splits)
next
  case (EmDrain ids n merged dropped)
  then show ?thesis
    using assms emitMerged_cost [of "st_cap s" "addIDs (st_cap s) ids (merged, dropped)"]
    by (auto simp: storeCost_def opt_list_def Let_def split: list.splits if_splits)
next
  case (EmSendMerged merged dropped)
  then show ?thesis
    using assms emitDropped_cost [of "st_cap s" dropped] emitDropped_cost [of "st_cap s" "dropped + length merged"]
    by (auto simp: sendChanges_def storeCost_def split: if_splits)
next
  case (EmMark dropped)
  then show ?thesis
    using assms by (auto simp: storeCost_def markChangesOverflowed_def opt_list_def)
qed

lemma pass_step_cost:
  assumes "pass_step f f'"
  shows "feedWork f' < feedWork f"
  using assms
proof cases
  case (pass_emit xs e ys s e')
  have "st_cap s = st_cap (fd_store f)"
    using emitStep_conserves [OF pass_emit(3)] by (simp add: conserves_def)
  then show ?thesis
    using emitStep_cost [OF pass_emit(3)] pass_emit(1,2) by (simp add: feedWork_def opt_list_def)
qed (auto simp: feedWork_def storeCost_def ConsumeOverflowed_def)

lemma pass_steps:
  assumes "(pass_step ^^ k) f f'" and "feed_ok f" and "coherent f"
  shows "feed_ok f' \<and> coherent f' \<and> st_devices (fd_store f') = st_devices (fd_store f) \<and> k + feedWork f' \<le> feedWork f"
  using assms
proof (induction k arbitrary: f')
  case (Suc k)
  then obtain g where g: "(pass_step ^^ k) f g" "pass_step g f'" by auto
  then show ?case
    using Suc.IH [OF g(1) Suc.prems(2,3)] pass_step_ok [OF _ g(2)] pass_step_coherent [OF _ g(2)] pass_step_cost [OF g(2)]
    by auto
qed simp

text \<open>At rest: no announcement in progress, an empty channel and no mark.\<close>

definition at_rest :: "Feed \<Rightarrow> bool" where
  "at_rest f \<longleftrightarrow> fd_emitters f = [] \<and> st_changes (fd_store f) = [] \<and> \<not> st_overflowed (fd_store f)"

lemma at_rest_or_step: "at_rest f \<or> (\<exists>f'. pass_step f f')"
proof (cases "fd_emitters f")
  case (Cons e ys)
  obtain s e' where "emitStep (fd_store f) e = (s, e')" by (meson surj_pair)
  then show ?thesis using pass_emit [of f "[]" e ys] Cons by fastforce
next
  case Nil
  then show ?thesis
    using pass_receive [of f] pass_consume [of f]
    by (cases "st_changes (fd_store f)") (auto simp: at_rest_def ConsumeOverflowed_def)
qed

lemma at_rest_told: "coherent f \<Longrightarrow> at_rest f \<Longrightarrow> fd_due f = {}"
  by (auto simp: coherent_def at_rest_def resync_due_def pending_def queued_ids_def)

subsection \<open>Reachability along a run\<close>

definition reach_bounded :: "int \<Rightarrow> Store \<Rightarrow> bool" where
  "reach_bounded n s \<longleftrightarrow>
     (\<forall>i d. st_devices s i = Some d \<longrightarrow> reach_ok d \<and> ds_ConsecutiveFailures d \<le> n)"

lemma reach_bounded_mono: "reach_bounded n s \<Longrightarrow> n \<le> m \<Longrightarrow> st_devices s' = st_devices s \<Longrightarrow> reach_bounded m s'"
  by (auto simp: reach_bounded_def) fastforce

lemma updateLocked_reach:
  assumes "reach_bounded n s" "0 \<le> n" "n < 2 ^ 63 - 1" "updateLocked srt s u = (s', ids)"
  shows "reach_bounded (n + 1) s'"
proof (cases "su_DeviceID u = uuid_Nil")
  case True
  then show ?thesis
    using assms reach_bounded_mono [of n s "n + 1" s'] by (simp add: updateLocked_def)
next
  case False
  define old where "old = st_devices s (su_DeviceID u)"
  have s': "s' = s\<lparr> st_devices := (st_devices s)(su_DeviceID u \<mapsto> nextState u old) \<rparr>"
    using assms(4) False unfolding updateLocked_def Let_def old_def by auto
  have "reach_ok (prev_of old) \<and> ds_ConsecutiveFailures (prev_of old) \<le> n"
  proof (cases old)
    case None
    have "ds_ConsecutiveFailures zeroDeviceState = 0"
      by (simp add: zeroDeviceState_def)
    then show ?thesis
      using None assms(2) by (simp add: prev_of_def)
  next
    case (Some d)
    then show ?thesis
      using assms(1) by (simp add: prev_of_def old_def reach_bounded_def)
  qed
  then have "reach_step (prev_of old) (nextState u old)" "ds_ConsecutiveFailures (prev_of old) \<le> n"
    using nextState_reach [of old u] assms(3) by auto
  then show ?thesis
    using assms(1) by (fastforce simp: reach_bounded_def s' reach_step_def)
qed

lemma staleState_failures: "ds_ConsecutiveFailures (staleState d) = ds_ConsecutiveFailures d"
  by (simp add: staleState_def)

lemma removeLocked_reach: "reach_bounded n s \<Longrightarrow> removeLocked s i = (s', ids) \<Longrightarrow> reach_bounded n s'"
  by (auto simp: reach_bounded_def removeLocked_def split: if_splits)

lemma write_step_reach:
  assumes "write_step srt f f'" "reach_bounded n (fd_store f)" "0 \<le> n" "n < 2 ^ 63 - 1"
  shows "reach_bounded (n + 1) (fd_store f')"
  using assms(1)
proof cases
  case (write_update u s ids)
  then show ?thesis
    using updateLocked_reach [OF assms(2-4)] by (simp add: written_def)
next
  case (write_remove i s ids)
  then show ?thesis
    using removeLocked_reach [OF assms(2)] reach_bounded_mono [of n s "n + 1" s] by (simp add: written_def)
next
  case (write_stale now order s ids)
  then have "s = (fd_store f)\<lparr> st_devices := (\<lambda>i. if i \<in> set order
      then map_option (\<lambda>d. if overdue now d then staleState d else d) (st_devices (fd_store f) i)
      else st_devices (fd_store f) i) \<rparr>"
    using markStaleLoop_spec [OF write_stale(4), of now "fd_store f" "[]"] by simp
  then have "reach_bounded n s"
    using assms(2) by (auto simp: reach_bounded_def staleState_failures split: if_splits)
  then show ?thesis
    using write_stale(1) reach_bounded_mono [of n s "n + 1" s] by (simp add: written_def)
qed

lemma feed_run_reach:
  assumes "feed_run srt n f" "sorts_links srt" "int n < 2 ^ 63 - 1"
  shows "reach_bounded (int n) (fd_store f)"
  using assms
proof (induction rule: feed_run.induct)
  case feed_start
  then show ?case
    by (simp add: feed_init_def NewStore_def reach_bounded_def)
next
  case (feed_next n f f')
  then have r: "reach_bounded (int n) (fd_store f)" and ok: "feed_ok f"
    using feed_run_inv by auto
  show ?case
  proof (cases "pass_step f f'")
    case True
    then show ?thesis
      using pass_step_ok [OF ok True] reach_bounded_mono [OF r, of "int (Suc n)"] by simp
  next
    case False
    then have "write_step srt f f'"
      using feed_next.hyps by (simp add: feed_step_def)
    then show ?thesis
      using write_step_reach [OF _ r] feed_next.prems by (simp add: algebra_simps)
  qed
qed

end
