(* ===== verification/State_Correct.thy ===== *)
theory State_Correct
  imports State_Feed
begin

text \<open>
  The properties of the device state store: severities as hysteresis triggers, frozen health,
  exact change detection, the failure count, the staleness pass, and the change feed under every
  interleaving of writers, announcements and the receiver.
\<close>

subsection \<open>A run of the store\<close>

text \<open>
  One poll of device 1 reports a processor at 95 percent; the change is announced and received.
  The link metrics are sorted by insertion, as \<open>sort.Slice\<close> does for short slices.
\<close>

definition demoSort :: link_sort where
  "demoSort = sort_key link_key"

lemma demoSort_ok: "sorts_links demoSort"
  by (simp add: sorts_links_def demoSort_def)

definition demoMetrics :: DeviceMetrics where
  "demoMetrics = zeroMetrics\<lparr> dm_DeviceID := 1, dm_CPUPercent := Some (Fin 95) \<rparr>"

definition demoUpdate :: StateUpdate where
  "demoUpdate =
     \<lparr> su_DeviceID = 1, su_VolatilityClass = VolatilityClassPerformance, su_Metrics = Some demoMetrics,
       su_LinkMetrics = [], su_PollSuccess = True, su_ExpectedInterval = 30 * Second,
       su_Timestamp = 1000 * Second, su_Essential = None \<rparr>"

definition demoState :: DeviceState where
  "demoState =
     zeroDeviceState\<lparr> ds_Metrics := demoMetrics, ds_FieldStates := [(''cpu'', FieldStateOK)],
       ds_CPUSeverity := MetricSeverityCritical, ds_Health := HealthStatusCritical,
       ds_LastPolledAt := 1000 * Second, ds_ExpectedInterval := 30 * Second \<rparr>"

lemmas store_eval =
  nextState_def applyUpdate_def prev_of_def applyPerformanceUpdate_def applyFreshnessMetadata_def
  markMetricFieldStates_def cloneFieldStates_def orKeep_def evaluateHealth_def evaluateSeverity_def
  evaluateMetricSeverity_def aggregateHealth_def threshold_of_def mget_def defaultThresholds_def
  f64_ge_def f64_eq_def zeroDeviceState_def zeroMetrics_def Let_def

lemma demo_nextState: "nextState demoUpdate None = demoState"
  by (simp add: store_eval demoUpdate_def demoMetrics_def demoState_def)

definition demoStore :: Store where
  "demoStore = NewStore\<lparr> st_devices := [1 \<mapsto> demoState] \<rparr>"

lemma demo_update: "updateLocked demoSort NewStore demoUpdate = (demoStore, [1])"
  by (simp add: updateLocked_def demo_nextState NewStore_def Let_def demoStore_def)
    (simp add: demoUpdate_def)

definition demoAnnounced :: Feed where
  "demoAnnounced = \<lparr> fd_store = demoStore, fd_emitters = [EmSend [1]], fd_due = {1} \<rparr>"

lemma demo_changed: "changed NewStore demoStore = {1}"
  by (auto simp: changed_def demoStore_def NewStore_def)

lemma demo_announced: "feed_run demoSort 1 demoAnnounced"
proof -
  have "write_step demoSort feed_init demoAnnounced"
    using write_update [of demoSort feed_init demoUpdate demoStore "[1]"] demo_update demo_changed
    by (simp add: demoAnnounced_def feed_init_def written_def announce_def)
  then show ?thesis
    using feed_next [OF feed_start] by (simp add: feed_step_def)
qed



subsection \<open>The change feed\<close>

text \<open>
  C14: No change is forgotten. Whatever the interleaving of pollers, removals, staleness passes,
  announcements and the receiver, a device that has changed since the receiver was last told of it
  is named in the channel or by an announcement still in progress, unless identifiers were dropped
  and the overflow mark, which stands for all devices, is set or about to be set.
\<close>

theorem changes_never_forgotten:
  assumes "sorts_links srt" and "feed_run srt n f" and "i \<in> fd_due f"
  shows "i \<in> pending f \<or> resync_due f"
  using feed_run_inv [OF assms(2,1)] assms(3) by (auto simp: coherent_def)

theorem changes_never_forgotten_witness:
  "1 \<in> fd_due demoAnnounced \<and> \<not> resync_due demoAnnounced \<and> 1 \<in> pending demoAnnounced"
proof -
  have "1 \<in> fd_due demoAnnounced" "\<not> resync_due demoAnnounced"
    by (simp_all add: resync_due_def demoAnnounced_def demoStore_def NewStore_def)
  then show ?thesis
    using changes_never_forgotten [OF demoSort_ok demo_announced] by blast
qed



text \<open>
  C19: An announcement ends: with a channel of capacity \<open>c\<close> it takes at most \<open>c + 4\<close> steps of its
  own, whatever the other goroutines do to the store between them.
\<close>

theorem announcement_ends:
  assumes "\<forall>s\<in>set ss. st_cap s = c" and "c + 4 \<le> length ss"
  shows "emitUnder ss (Some (EmSend ids)) = None"
  using emitUnder_ends [of c "Some (EmSend ids)" ss] assms by (simp add: emitWorkOpt_def)

theorem announcement_ends_witness:
  "emitUnder (replicate 36 (NewStore\<lparr> st_changes := replicate 32 [1] \<rparr>)) (Some (EmSend [2])) = None"
  by (rule announcement_ends [where c = 32]) (simp_all add: NewStore_def)

text \<open>
  C20: An announcement is exact. If a slot is free, or the distinct identifiers queued and new are
  no more than the slots, exactly they are queued afterwards and the overflow mark is untouched;
  otherwise the mark is set and as many of them as there are slots are queued. The channel never
  exceeds its capacity and no device changes.
\<close>

theorem announcement_exact:
  assumes "ids \<noteq> []" and "length (st_changes s) \<le> st_cap s" and t: "t = emitChanges s ids"
  shows "(if length (st_changes s) < st_cap s \<or> card (queued_ids s \<union> set ids) \<le> st_cap s
     then queued_ids t = queued_ids s \<union> set ids \<and> st_overflowed t = st_overflowed s
     else st_overflowed t \<and> queued_ids t \<subseteq> queued_ids s \<union> set ids \<and> card (queued_ids t) = st_cap s) \<and>
    length (st_changes t) \<le> st_cap s \<and> st_devices t = st_devices s"
proof (cases "length (st_changes s) < st_cap s")
  case True
  then show ?thesis
    by (auto simp: t emitChanges_send [OF assms(1)] queued_ids_def)
next
  case False
  let ?A = "queued_ids s \<union> set ids"
  have len: "length (st_changes s) = st_cap s" and fin: "finite ?A"
    using False assms(2) by (simp_all add: queued_ids_def)
  have ne: "?A \<noteq> {}" using assms(1) by simp
  obtain merged dropped where ok: "acc_ok (st_cap s) ?A (merged, dropped) \<or> st_cap s = 0 \<and> merged = [] \<and> dropped > 0"
    and eq: "emitChanges s ids = (let t = s\<lparr> st_changes := (if merged = [] then [] else [merged]) \<rparr>
           in if dropped > 0 then markChangesOverflowed t dropped else t)"
    by (rule emitChanges_full [OF assms(1) len])
  have q: "queued_ids t = set merged" "st_devices t = st_devices s" "st_overflowed t = (st_overflowed s \<or> dropped > 0)"
    "st_changes t = (if merged = [] then [] else [merged])"
    by (simp_all add: t eq queued_ids_def markChangesOverflowed_def Let_def)
  have d: "dropped > 0 \<longleftrightarrow> card ?A > st_cap s"
    using ok acc_ok_card [OF _ fin, of "st_cap s" "(merged, dropped)"] ne fin by (auto simp: card_gt_0_iff)
  have m: "set merged \<subseteq> ?A" "dropped = 0 \<Longrightarrow> set merged = ?A" "dropped > 0 \<Longrightarrow> card (set merged) = st_cap s"
      "merged \<noteq> [] \<Longrightarrow> 1 \<le> st_cap s"
    using ok distinct_card [of merged]
    by (auto simp: acc_ok_def Suc_le_eq split: if_splits) (metis length_greater_0_conv less_le_trans)
  show ?thesis
    using False d m by (auto simp: q not_less)
qed

theorem announcement_exact_witness:
  "queued_ids (emitChanges (NewStore\<lparr> st_changes := replicate 32 [1] \<rparr>) [2]) = {1, 2}"
proof -
  let ?s = "NewStore\<lparr> st_changes := replicate 32 [1] \<rparr>"
  have "queued_ids ?s = {1}" "length (st_changes ?s) = 32" "st_cap ?s = 32"
    by (simp_all add: queued_ids_def NewStore_def numeral_eq_Suc)
  then show ?thesis
    using announcement_exact [of "[2]" ?s, OF _ _ refl] by (simp add: insert_commute)
qed

subsection \<open>Reachability and health\<close>

text \<open>
  C17: Along every run, the failure count of each device is never negative, a device is soft down
  exactly with one or two failures in a row and hard down exactly with three or more.
\<close>

theorem reachability_counts_failures:
  assumes "sorts_links srt" and "feed_run srt n f" and "int n < 2 ^ 63 - 1"
    and "st_devices (fd_store f) i = Some d"
  shows "0 \<le> ds_ConsecutiveFailures d \<and> ds_ConsecutiveFailures d \<le> int n \<and>
    (ds_Reachability d = ReachabilitySoftDown \<longleftrightarrow> ds_ConsecutiveFailures d \<in> {1, 2}) \<and>
    (ds_Reachability d = ReachabilityHardDown \<longleftrightarrow> 3 \<le> ds_ConsecutiveFailures d)"
  using feed_run_reach [OF assms(2,1,3)] assms(4) by (simp add: reach_bounded_def reach_ok_def)

theorem reachability_counts_failures_witness:
  "0 \<le> ds_ConsecutiveFailures demoState \<and> ds_Reachability demoState \<noteq> ReachabilityHardDown"
  using reachability_counts_failures [OF demoSort_ok demo_announced, of 1 demoState]
  by (simp add: demoAnnounced_def demoStore_def demoState_def zeroDeviceState_def)

text \<open>
  C18: A metric's severity is the state of two independent hysteresis triggers fed with the same
  values: the warning trigger switches on at the warning rise threshold and off below its fall
  threshold, the critical one likewise, and not-a-number moves neither.
\<close>

theorem severity_is_two_triggers:
  "fold (\<lambda>v s. evaluateSeverity (Some v) s key) vs MetricSeverityOK =
   severity_of
     (fold (trigger (WarnRise (threshold_of key)) (WarnFall (threshold_of key))) vs False,
      fold (trigger (CriticalRise (threshold_of key)) (CriticalFall (threshold_of key))) vs False)"
  using severity_run_aux [OF threshold_of_ordered, of "(False, False)" key vs]
  by (simp add: evaluateSeverity_def severity_of_def fold_trigger_step)

text \<open>
  C23: Health is the worst of the three severities, unknown when none was evaluated.
\<close>

theorem health_is_worst_severity:
  "health_rank (aggregateHealth cpu mem temp) =
     max (severity_rank cpu) (max (severity_rank mem) (severity_rank temp)) \<and>
   (aggregateHealth cpu mem temp = HealthStatusUnknown \<longleftrightarrow>
     cpu = MetricSeverityOther '''' \<and> mem = MetricSeverityOther '''' \<and> temp = MetricSeverityOther '''')"
proof
  show "health_rank (aggregateHealth cpu mem temp) =
     max (severity_rank cpu) (max (severity_rank mem) (severity_rank temp))"
    using aggregateLoop_rank [of False True "[cpu, mem, temp]"] by (simp add: aggregateHealth_def max.commute max.left_commute)
  show "aggregateHealth cpu mem temp = HealthStatusUnknown \<longleftrightarrow>
     cpu = MetricSeverityOther '''' \<and> mem = MetricSeverityOther '''' \<and> temp = MetricSeverityOther ''''"
    by (auto simp: aggregateHealth_def)
qed

text \<open>
  C21: An update that leaves the device anything but up does not touch its health or severities,
  for every rule except that of performance polls; a health never evaluated reads unknown.
\<close>

theorem health_frozen_unless_up:
  assumes "su_Essential u \<noteq> None \<or> su_VolatilityClass u \<noteq> VolatilityClassPerformance"
    and "ds_Reachability (nextState u (Some p)) \<noteq> ReachabilityUp"
  shows "health_kept p (nextState u (Some p))"
proof -
  have "ds_Reachability (nextState u (Some p)) = ds_Reachability (applyUpdate u True p)"
    by (simp add: nextState_def prev_of_def Let_def)
  then show ?thesis
    using applyUpdate_frozen [of u True p] assms
    by (simp add: health_kept_def nextState_def prev_of_def severities_def Let_def)
qed

definition demoFailure :: StateUpdate where
  "demoFailure = demoUpdate\<lparr> su_VolatilityClass := VolatilityClassNone, su_PollSuccess := False \<rparr>"

lemma demo_failure_soft_down: "ds_Reachability (nextState demoFailure (Some demoState)) = ReachabilitySoftDown"
  by (simp add: nextState_def applyUpdate_def prev_of_def demoFailure_def demoUpdate_def applyLegacyUpdate_def
      applyReachabilityUpdate_def countFailure_def demoState_def zeroDeviceState_def wrap64_def Let_def)

theorem health_frozen_unless_up_witness:
  "ds_Reachability (nextState demoFailure (Some demoState)) = ReachabilitySoftDown \<and>
   ds_Health (nextState demoFailure (Some demoState)) = HealthStatusCritical"
proof -
  have "su_VolatilityClass demoFailure \<noteq> VolatilityClassPerformance"
    by (simp add: demoFailure_def)
  then have "health_kept demoState (nextState demoFailure (Some demoState))"
    using health_frozen_unless_up [of demoFailure demoState] demo_failure_soft_down by simp
  then show ?thesis
    using demo_failure_soft_down by (simp add: health_kept_def) (simp add: demoState_def)
qed





subsection \<open>Change detection and staleness\<close>

text \<open>
  C16: An update is announced exactly when it changed something observable: the comparison of the
  old and the new state decides the equality of their observations (all of the state but the
  instants of the last poll and of the collection), provided no value is NaN and no two link
  metrics have the same key.
\<close>

theorem change_detection_exact:
  assumes "sorts_links srt" and "state_ok p" and "state_no_NaN p"
    and "distinct (map link_key (ds_LinkMetrics p))"
  shows "deviceStateEqual srt p (nextState u (Some p)) \<longleftrightarrow> observed p = observed (nextState u (Some p))"
proof -
  have "grows p (nextState u (Some p))"
    using nextState_grows [of "Some p" u] assms(2) by (simp add: prev_of_def)
  then show ?thesis
    using deviceStateEqual_sound [OF assms(1,2)] deviceStateEqual_complete [OF assms(1,2) _ assms(3,4)] by blast
qed

lemma demoState_ok: "state_ok demoState" "state_no_NaN demoState"
  by (simp_all add: state_ok_def state_no_NaN_def no_NaN_def demoState_def demoMetrics_def zeroDeviceState_def
      zeroMetrics_def map_ok_def)

theorem change_detection_exact_witness:
  "\<not> deviceStateEqual demoSort demoState (nextState demoFailure (Some demoState))"
proof -
  have "observed demoState \<noteq> observed (nextState demoFailure (Some demoState))"
  proof
    assume "observed demoState = observed (nextState demoFailure (Some demoState))"
    then have "ds_Reachability demoState = ReachabilitySoftDown"
      using arg_cong [of _ _ ob_Reachability] demo_failure_soft_down by (fastforce simp: observed_def)
    then show False
      by (simp add: demoState_def zeroDeviceState_def)
  qed
  then show ?thesis
    using change_detection_exact [OF demoSort_ok demoState_ok, of demoFailure]
    by (simp add: demoState_def zeroDeviceState_def)
qed

lemma emitChanges_devices [simp]: "st_devices (emitChanges s ids) = st_devices s"
  by (auto simp: emitChanges_def sendChanges_def coalesceQueuedChanges_def markChangesOverflowed_def Let_def
      split: prod.splits option.splits if_splits)

lemma overdue_staleState: "\<not> overdue now (if overdue now d then staleState d else d)"
  by (simp add: overdue_def staleState_def)

text \<open>
  C22: The staleness pass marks exactly the devices whose last poll is more than twice their
  interval ago, whatever the order in which the map is walked, and a second pass at the same
  instant finds nothing to mark.
\<close>

theorem staleness_pass_exact:
  assumes "distinct order" and "set order = dom (st_devices s)"
  shows "st_devices (markStale order now s) i =
      map_option (\<lambda>d. if overdue now d then staleState d else d) (st_devices s i) \<and>
    markStale order now (markStale order now s) = markStale order now s"
proof -
  have dev: "st_devices (markStale order now s) =
      (\<lambda>i. map_option (\<lambda>d. if overdue now d then staleState d else d) (st_devices s i))"
    if "set order = dom (st_devices s)" for s
    using that markStaleLoop_spec [OF assms(1), of now s "[]"]
    by (auto simp: markStale_def Let_def fun_eq_iff dom_def split: prod.splits)
  let ?t = "markStale order now s"
  have none: "\<not> overdue now d" if "st_devices ?t i = Some d" for i d
    using that overdue_staleState by (auto simp: dev [OF assms(2)])
  have "markStaleLoop now order ?t [] = (?t, [])"
  proof -
    have "(\<lambda>i. if i \<in> set order then map_option (\<lambda>d. if overdue now d then staleState d else d) (st_devices ?t i)
             else st_devices ?t i) = st_devices ?t"
      using none by (auto simp: fun_eq_iff map_option_case split: option.splits)
    moreover have "filter (\<lambda>i. case st_devices ?t i of None \<Rightarrow> False | Some d \<Rightarrow> overdue now d) order = []"
      using none by (auto simp: filter_empty_conv split: option.splits)
    ultimately show ?thesis
      by (simp add: markStaleLoop_spec [OF assms(1)])
  qed
  then have "markStale order now ?t = ?t"
    by (simp add: markStale_def emitChanges_def)
  then show ?thesis
    using dev [OF assms(2)] by simp
qed

theorem staleness_pass_exact_witness:
  "map_option ds_Stale (st_devices (markStale [1] (1061 * Second) demoStore) 1) = Some True \<and>
   map_option ds_Stale (st_devices (markStale [1] (1060 * Second) demoStore) 1) = Some False"
proof -
  have "overdue (1061 * Second) demoState" "\<not> overdue (1060 * Second) demoState"
    by (simp_all add: overdue_def demoState_def zeroDeviceState_def tAfter_def tAdd_def wrap64_def)
  then show ?thesis
    using staleness_pass_exact [of "[1]" demoStore "1061 * Second" 1]
      staleness_pass_exact [of "[1]" demoStore "1060 * Second" 1]
    by (simp add: demoStore_def staleState_def demoState_def zeroDeviceState_def)
qed

text \<open>
  C24: Reading a device back after an update gives the state the update rules compute from what
  was stored, observably unchanged by the copy, and the update changes no other device.
\<close>

theorem update_then_get:
  assumes "su_DeviceID u \<noteq> uuid_Nil" and "\<And>d. st_devices s (su_DeviceID u) = Some d \<Longrightarrow> state_ok d"
  shows "observed (fst (GetDevice (Store_Update srt s u) (su_DeviceID u))) =
      observed (nextState u (st_devices s (su_DeviceID u))) \<and>
    snd (GetDevice (Store_Update srt s u) (su_DeviceID u)) \<and>
    (i \<noteq> su_DeviceID u \<longrightarrow> GetDevice (Store_Update srt s u) i = GetDevice s i)"
proof -
  have dev: "st_devices (Store_Update srt s u) =
      (st_devices s)(su_DeviceID u \<mapsto> nextState u (st_devices s (su_DeviceID u)))"
    using assms(1) by (simp add: Store_Update_def updateLocked_def Let_def)
  have "state_ok (prev_of (st_devices s (su_DeviceID u)))"
    using assms(2) by (cases "st_devices s (su_DeviceID u)") (simp_all add: prev_of_def)
  then have "state_ok (nextState u (st_devices s (su_DeviceID u)))"
    using nextState_grows grows_def by blast
  then show ?thesis
    by (simp add: GetDevice_def dev observed_clone)
qed

theorem update_then_get_witness:
  "observed (fst (GetDevice (Store_Update demoSort NewStore demoUpdate) 1)) = observed demoState"
proof -
  have "su_DeviceID demoUpdate = 1" "st_devices NewStore 1 = None"
    by (simp_all add: demoUpdate_def NewStore_def)
  then show ?thesis
    using update_then_get [of demoUpdate NewStore demoSort 1] demo_nextState by simp
qed

end
