(* ===== verification/Saved_Maps.thy ===== *)
theory Saved_Maps
  imports Scheduler_Correct
begin

text \<open>
  The device source that restricts recurring polling to devices on saved maps
  (\<open>internal/scheduler/map_membership_source.go\<close>), and its composition with the scheduler. The
  inner device source and the map repository are the answers of their calls.
\<close>

datatype SourceError = SourceFailed string | MembershipFailed uuid string

text \<open>
  \<open>mr_memberIDs\<close> is the answer of \<open>ListMemberDeviceIDs\<close> when the repository implements it;
  \<open>mr_List\<close> lists the saved maps, \<open>mr_GetMembership\<close> gives the devices of one.
\<close>

record MapRepo =
  mr_memberIDs :: "(string + uuid list) option"
  mr_List :: "string + uuid list"
  mr_GetMembership :: "uuid \<Rightarrow> string + uuid list"

record savedMapDeviceSource =
  sm_source :: "string + Device list"
  sm_mapRepo :: "MapRepo option"

definition addMembers :: "uuid list \<Rightarrow> uuid set \<Rightarrow> uuid set" where
  "addMembers ids members = fold (\<lambda>i members. if i \<noteq> uuid_Nil then insert i members else members) ids members"

fun membersOfMaps :: "MapRepo \<Rightarrow> uuid list \<Rightarrow> uuid set \<Rightarrow> SourceError + uuid set" where
  "membersOfMaps repo [] members = Inr members"
| "membersOfMaps repo (m # maps) members =
     (case mr_GetMembership repo m of
        Inl err \<Rightarrow> Inl (MembershipFailed m err)
      | Inr devices \<Rightarrow> membersOfMaps repo maps (addMembers devices members))"

definition savedMapMemberIDs :: "MapRepo \<Rightarrow> SourceError + uuid set" where
  "savedMapMemberIDs repo =
     (case mr_memberIDs repo of
        Some (Inl err) \<Rightarrow> Inl (SourceFailed err)
      | Some (Inr ids) \<Rightarrow> Inr (addMembers ids {})
      | None \<Rightarrow>
          (case mr_List repo of
             Inl err \<Rightarrow> Inl (SourceFailed err)
           | Inr maps \<Rightarrow> membersOfMaps repo maps {}))"

definition Saved_GetDevices :: "savedMapDeviceSource \<Rightarrow> SourceError + Device list" where
  "Saved_GetDevices s =
     (case sm_source s of
        Inl err \<Rightarrow> Inl (SourceFailed err)
      | Inr devices \<Rightarrow>
          (case sm_mapRepo s of
             None \<Rightarrow> Inr devices
           | Some repo \<Rightarrow>
               (case savedMapMemberIDs repo of
                  Inl err \<Rightarrow> Inl err
                | Inr members \<Rightarrow>
                    if members = {} \<or> devices = [] then Inr []
                    else Inr (filter (\<lambda>d. dev_ID d \<in> members) devices))))"

definition IncludesDevice :: "savedMapDeviceSource \<Rightarrow> uuid \<Rightarrow> SourceError + bool" where
  "IncludesDevice s i =
     (case sm_mapRepo s of
        None \<Rightarrow> Inr True
      | Some repo \<Rightarrow>
          (case savedMapMemberIDs repo of
             Inl err \<Rightarrow> Inl err
           | Inr members \<Rightarrow> Inr (i \<in> members)))"

text \<open>The scheduler with this source: its \<open>GetDevices\<close> and its membership gate.\<close>

definition withSavedMaps :: "savedMapDeviceSource \<Rightarrow> SchedEnv \<Rightarrow> SchedEnv" where
  "withSavedMaps s e =
     e\<lparr> e_devices := (case Saved_GetDevices s of Inl _ \<Rightarrow> None | Inr ds \<Rightarrow> Some ds),
        e_gate := Some (\<lambda>i. case IncludesDevice s i of Inl _ \<Rightarrow> None | Inr b \<Rightarrow> Some b) \<rparr>"

subsection \<open>Membership\<close>

lemma addMembers_set: "addMembers ids members = members \<union> (set ids - {uuid_Nil})"
  by (induction ids arbitrary: members) (auto simp: addMembers_def)

text \<open>What the saved maps list, when every membership can be read.\<close>

definition on_some_map :: "MapRepo \<Rightarrow> uuid list \<Rightarrow> uuid set" where
  "on_some_map repo maps =
     (\<Union>m\<in>set maps. case mr_GetMembership repo m of Inl _ \<Rightarrow> {} | Inr devices \<Rightarrow> set devices) - {uuid_Nil}"

lemma membersOfMaps_eq:
  "membersOfMaps repo maps members = Inr ms \<Longrightarrow> ms = members \<union> on_some_map repo maps"
proof (induction repo maps members rule: membersOfMaps.induct)
  case (1 repo members)
  then show ?case by (simp add: on_some_map_def)
next
  case (2 repo m maps members)
  then show ?case
    by (auto simp: on_some_map_def addMembers_set split: sum.splits)
qed

lemma membersOfMaps_error:
  "(\<exists>err. membersOfMaps repo maps members = Inl err) \<longleftrightarrow> (\<exists>m\<in>set maps. isl (mr_GetMembership repo m))"
  by (induction repo maps members rule: membersOfMaps.induct) (auto split: sum.splits)

lemma GetDevices_filter:
  assumes "sm_source s = Inr devices" "Saved_GetDevices s = Inr ds"
  shows "ds = filter (\<lambda>d. IncludesDevice s (dev_ID d) = Inr True) devices"
  using assms by (auto simp: Saved_GetDevices_def IncludesDevice_def split: option.splits sum.splits if_splits)

lemma GetDevices_gate:
  assumes "Saved_GetDevices s = Inr ds" "d \<in> set ds"
  shows "IncludesDevice s (dev_ID d) = Inr True"
  using assms by (auto simp: Saved_GetDevices_def IncludesDevice_def split: option.splits sum.splits if_splits)

text \<open>
  What it means to be on a saved map, in terms of the repository alone: the identifier is not nil,
  and it is in the list of members if the repository has one, otherwise in the membership of one of
  the maps it lists.
\<close>

definition on_saved_map :: "savedMapDeviceSource \<Rightarrow> uuid \<Rightarrow> bool" where
  "on_saved_map s i \<longleftrightarrow>
     (case sm_mapRepo s of
        None \<Rightarrow> True
      | Some repo \<Rightarrow>
          i \<noteq> uuid_Nil \<and>
          (case mr_memberIDs repo of
             Some answer \<Rightarrow> (\<exists>ids. answer = Inr ids \<and> i \<in> set ids)
           | None \<Rightarrow> (\<exists>maps m devices. mr_List repo = Inr maps \<and> m \<in> set maps \<and>
                        mr_GetMembership repo m = Inr devices \<and> i \<in> set devices)))"

lemma mem_on_some_map:
  "i \<in> on_some_map repo maps \<longleftrightarrow>
     i \<noteq> uuid_Nil \<and> (\<exists>m\<in>set maps. \<exists>devices. mr_GetMembership repo m = Inr devices \<and> i \<in> set devices)"
  by (auto simp: on_some_map_def split: sum.splits) (metis sum.exhaust, force)

lemma savedMapMemberIDs_spec:
  assumes "sm_mapRepo s = Some repo" "savedMapMemberIDs repo = Inr members"
  shows "i \<in> members \<longleftrightarrow> on_saved_map s i"
proof (cases "mr_memberIDs repo")
  case None
  then obtain maps where maps: "mr_List repo = Inr maps" "membersOfMaps repo maps {} = Inr members"
    using assms(2) by (auto simp: savedMapMemberIDs_def split: sum.splits)
  then have "members = on_some_map repo maps"
    using membersOfMaps_eq by fastforce
  then show ?thesis
    using assms(1) None maps(1) by (auto simp: on_saved_map_def mem_on_some_map)
next
  case (Some answer)
  then show ?thesis
    using assms by (auto simp: savedMapMemberIDs_def on_saved_map_def addMembers_set split: sum.splits)
qed

lemma gate_on_saved_map:
  assumes "Saved_GetDevices s = Inr ds"
  shows "IncludesDevice s i = Inr (on_saved_map s i)"
proof (cases "sm_mapRepo s")
  case None
  then show ?thesis by (simp add: IncludesDevice_def on_saved_map_def)
next
  case (Some repo)
  then obtain members where "savedMapMemberIDs repo = Inr members"
    using assms by (auto simp: Saved_GetDevices_def split: sum.splits)
  then show ?thesis using Some savedMapMemberIDs_spec [OF Some] by (simp add: IncludesDevice_def)
qed

lemma scheduledKeys_device: "k \<in> set (scheduledKeys d) \<Longrightarrow> tk_DeviceID k = dev_ID d"
  by (auto simp: scheduledKeys_def NewTaskKey_def NewEssentialTaskKey_def NewBackgroundTaskKey_def NewBootstrapTaskKey_def
      split: if_splits)

text \<open>
  The list and the gate of the source agree, whichever way the repository lists members: the
  devices returned are, in their order, those the gate accepts; a device the gate accepts is on a
  saved map; and both fail together when a membership cannot be read.
\<close>

lemma saved_map_list_matches_gate:
  assumes "sm_source s = Inr devices"
  shows "Saved_GetDevices s =
      (case sm_mapRepo s of
         None \<Rightarrow> Inr devices
       | Some repo \<Rightarrow> map_sum id (\<lambda>_. filter (\<lambda>d. IncludesDevice s (dev_ID d) = Inr True) devices) (savedMapMemberIDs repo)) \<and>
    (\<forall>repo maps i. sm_mapRepo s = Some repo \<and> mr_memberIDs repo = None \<and> mr_List repo = Inr maps \<longrightarrow>
       (IncludesDevice s i = Inr True \<longrightarrow> i \<in> on_some_map repo maps) \<and>
       (isl (IncludesDevice s i) \<longleftrightarrow> (\<exists>m\<in>set maps. isl (mr_GetMembership repo m))))"
proof
  show "Saved_GetDevices s =
      (case sm_mapRepo s of
         None \<Rightarrow> Inr devices
       | Some repo \<Rightarrow> map_sum id (\<lambda>_. filter (\<lambda>d. IncludesDevice s (dev_ID d) = Inr True) devices) (savedMapMemberIDs repo))"
    using assms by (auto simp: Saved_GetDevices_def IncludesDevice_def split: option.splits sum.splits)
  show "\<forall>repo maps i. sm_mapRepo s = Some repo \<and> mr_memberIDs repo = None \<and> mr_List repo = Inr maps \<longrightarrow>
       (IncludesDevice s i = Inr True \<longrightarrow> i \<in> on_some_map repo maps) \<and>
       (isl (IncludesDevice s i) \<longleftrightarrow> (\<exists>m\<in>set maps. isl (mr_GetMembership repo m)))"
  proof (intro allI impI, elim conjE, goal_cases)
    case (1 repo maps i)
    then have inc: "IncludesDevice s i =
        (case membersOfMaps repo maps {} of Inl err \<Rightarrow> Inl err | Inr ms \<Rightarrow> Inr (i \<in> ms))"
      by (simp add: IncludesDevice_def savedMapMemberIDs_def)
    then have "IncludesDevice s i = Inr True \<longrightarrow> i \<in> on_some_map repo maps"
      using membersOfMaps_eq [of repo maps "{}"] by (auto split: sum.splits)
    moreover have "isl (IncludesDevice s i) \<longleftrightarrow> (\<exists>err. membersOfMaps repo maps {} = Inl err)"
      by (simp add: inc split: sum.splits)
    ultimately show ?case
      by (simp add: membersOfMaps_error)
  qed
qed


lemma withSavedMaps_includes: "sourceIncludesDevice (withSavedMaps s e) i \<longleftrightarrow> IncludesDevice s i = Inr True"
  by (cases "IncludesDevice s i") (simp_all add: sourceIncludesDevice_def withSavedMaps_def)

lemma withSavedMaps_gate:
  assumes "Saved_GetDevices s = Inr ds" "sm_source s = Inr devices"
  shows "{d \<in> set devices. sourceIncludesDevice (withSavedMaps s e) (dev_ID d)} = set ds"
  using GetDevices_filter [OF assms(2,1)] by (simp add: withSavedMaps_includes)

lemma withSavedMaps_env [simp]:
  "e_uuidString (withSavedMaps s e) = e_uuidString e" "range_ok (withSavedMaps s e) = range_ok e"
  by (simp_all add: withSavedMaps_def range_ok_def)

subsection \<open>Properties\<close>

text \<open>
  C25: With the saved-map source, a refresh leaves enabled exactly the tasks of the recurring
  devices that are on a saved map, as the map repository lists them: every other task is disabled or
  gone. The membership gate consulted between refreshes accepts the same devices.
\<close>

theorem polling_only_saved_maps:
  assumes "reachable us y" and "e_uuidString e = us" and "range_ok e"
    and "sm_source s = Inr devices" and "Saved_GetDevices s = Inr ds"
    and "t = refreshDevices (withSavedMaps s e) now (sy_sched y)"
  shows "{k. enabled k t} =
      (\<Union>d\<in>{d \<in> set devices. on_saved_map s (dev_ID d) \<and> shouldScheduleRecurringDevice d}. set (scheduledKeys d)) \<and>
    (\<forall>k. enabled k t \<longrightarrow> on_saved_map s (tk_DeviceID k)) \<and>
    sourceIncludesDevice (withSavedMaps s e) i = on_saved_map s i"
proof -
  let ?e = "withSavedMaps s e"
  let ?seen = "\<Union>d\<in>{d \<in> set ds. shouldScheduleRecurringDevice d}. set (scheduledKeys d)"
  have inv: "sched_inv (e_uuidString ?e) {} (sy_sched y)"
    using reachable_inv [OF assms(1)] assms(2) by (simp add: sys_inv_def)
  have r: "range_ok ?e" and ds: "e_devices ?e = Some ds"
    using assms(3,5) by (simp, simp add: withSavedMaps_def)
  note R = refresh_sync [OF inv r ds assms(6) refl]
  have en: "{k. enabled k t} = ?seen"
  proof (rule set_eqI)
    fix k
    have "\<not> enabled k t" if "retired (\<lambda>it. (hi_inFlight it \<or> hi_queued it) \<and> hi_disabled it) k t"
      using that by (auto simp: enabled_def retired_def item_ok_def split: option.splits)
    then show "k \<in> {k. enabled k t} \<longleftrightarrow> k \<in> ?seen"
      using R by blast
  qed
  have inc: "sourceIncludesDevice ?e i = on_saved_map s i" for i
    using gate_on_saved_map [OF assms(5)] by (simp add: withSavedMaps_includes)
  have gate: "{d \<in> set devices. on_saved_map s (dev_ID d) \<and> shouldScheduleRecurringDevice d} =
      {d \<in> set ds. shouldScheduleRecurringDevice d}"
    using withSavedMaps_gate [OF assms(5,4)] inc by blast
  have "on_saved_map s (tk_DeviceID k)" if k: "k \<in> ?seen" for k
    using k scheduledKeys_device gate by fastforce
  then show ?thesis
    unfolding gate using en inc by blast
qed

text \<open>One device is on a saved map, a second one is not.\<close>

definition demoMaps :: MapRepo where
  "demoMaps = \<lparr> mr_memberIDs = None, mr_List = Inr [8, 9],
     mr_GetMembership = (\<lambda>m. Inr (if m = 9 then [dev_ID demoDevice] else [])) \<rparr>"

definition demoSource :: savedMapDeviceSource where
  "demoSource = \<lparr> sm_source = Inr [demoDevice, demoDevice\<lparr> dev_ID := 2 \<rparr>], sm_mapRepo = Some demoMaps \<rparr>"

lemma demoSource_devices: "Saved_GetDevices demoSource = Inr [demoDevice]"
  by (simp add: Saved_GetDevices_def demoSource_def demoMaps_def savedMapMemberIDs_def addMembers_def)
    (simp add: demoDevice_def)

theorem polling_only_saved_maps_witness:
  "enabled demoKey (refreshDevices (withSavedMaps demoSource demoEnv) 3000 demoReady) \<and>
   \<not> enabled (NewEssentialTaskKey 2) (refreshDevices (withSavedMaps demoSource demoEnv) 3000 demoReady)"
proof -
  let ?e = "withSavedMaps demoSource demoEnv"
  let ?t = "refreshDevices ?e 3000 demoReady"
  have src: "sm_source demoSource = Inr [demoDevice, demoDevice\<lparr> dev_ID := 2 \<rparr>]"
    by (simp add: demoSource_def)
  have R: "{k. enabled k ?t} =
      (\<Union>d\<in>{d \<in> set [demoDevice, demoDevice\<lparr> dev_ID := 2 \<rparr>]. on_saved_map demoSource (dev_ID d) \<and> shouldScheduleRecurringDevice d}.
         set (scheduledKeys d)) \<and>
    (\<forall>k. enabled k ?t \<longrightarrow> on_saved_map demoSource (tk_DeviceID k))"
    using polling_only_saved_maps [OF demo_reachable refl demo_range(1) src demoSource_devices] by simp
  have gate: "on_saved_map demoSource (dev_ID demoDevice)" "\<not> on_saved_map demoSource 2"
    by (simp_all add: on_saved_map_def demoSource_def demoMaps_def demoDevice_def)
  have "demoKey \<in> set (scheduledKeys demoDevice)"
    using demo_device by (simp add: scheduledKeys_def shouldScheduleEssentialTask_def demoKey_def IsVirtualWithIPDevice_def)
  then have "demoKey \<in> {k. enabled k ?t}"
    using R gate(1) demo_device(1) by auto
  moreover have "tk_DeviceID (NewEssentialTaskKey 2) = 2"
    by (simp add: NewEssentialTaskKey_def)
  then have "\<not> enabled (NewEssentialTaskKey 2) ?t"
    using R gate(2) by auto
  ultimately show ?thesis
    by blast
qed

end
