(* ===== verification/Settings_Cache.thy ===== *)
theory Settings_Cache
  imports Polling_Policy
begin

text \<open>
  The settings cache (\<open>internal/settingscache/cache.go\<close>) in front of the settings
  repository. The repository is its content, a map from keys to values; an argument of each
  operation says whether its call succeeds. Reads take the instant \<open>now\<close> of the clock.
  Other parts of the program may write the repository past the cache; such a write becomes visible
  once the snapshot is older than its time to live.
\<close>

datatype CacheError = RepoError string | ErrSettingNotFound string

record SettingsCache =
  cc_ttl :: duration
  cc_values :: "(string \<rightharpoonup> string) option"
  cc_loadedAt :: gotime



definition cacheFresh :: "gotime \<Rightarrow> SettingsCache \<Rightarrow> bool" where
  "cacheFresh now c \<longleftrightarrow> cc_values c \<noteq> None \<and> tSub now (cc_loadedAt c) < cc_ttl c"

definition cacheClone :: "(string \<rightharpoonup> string) option \<Rightarrow> (string \<rightharpoonup> string) option" where
  "cacheClone values = (case values of None \<Rightarrow> None | Some m \<Rightarrow> Some (\<lambda>key. m key))"

text \<open>
  A map that may be nil is an option. \<open>getAll\<close> is the answer of the repository should it be asked.
\<close>

definition ensureFresh ::
  "gotime \<Rightarrow> (string + (string \<rightharpoonup> string) option) \<Rightarrow> SettingsCache \<Rightarrow> SettingsCache \<times> (CacheError + unit)" where
  "ensureFresh now getAll c =
     (if cacheFresh now c then (c, Inr ())
      else case getAll of
             Inl err \<Rightarrow> (c, Inl (RepoError err))
           | Inr values \<Rightarrow> (c\<lparr> cc_values := cacheClone values, cc_loadedAt := now \<rparr>, Inr ()))"


definition Cache_GetAll ::
  "gotime \<Rightarrow> (string + (string \<rightharpoonup> string) option) \<Rightarrow> SettingsCache \<Rightarrow> SettingsCache \<times> (CacheError + (string \<rightharpoonup> string) option)" where
  "Cache_GetAll now getAll c =
     (case ensureFresh now getAll c of
        (c, Inl err) \<Rightarrow> (c, Inl err)
      | (c, Inr _) \<Rightarrow> (c, Inr (cacheClone (cc_values c))))"

text \<open>
  The second half of \<open>Set\<close> and of \<open>Update\<close>, under \<open>mu\<close>: a snapshot that is loaded takes the value.
\<close>

definition cacheStore :: "string \<Rightarrow> string \<Rightarrow> SettingsCache \<Rightarrow> SettingsCache" where
  "cacheStore key value c =
     (case cc_values c of None \<Rightarrow> c | Some m \<Rightarrow> c\<lparr> cc_values := Some (m(key \<mapsto> value)) \<rparr>)"


text \<open>\<open>repoUpdate\<close> is the outcome of the repository's atomic update: the error, or the value stored.\<close>

definition Cache_Update ::
  "(string + string) \<Rightarrow> string \<Rightarrow> SettingsCache \<Rightarrow> SettingsCache \<times> (CacheError + string)" where
  "Cache_Update repoUpdate key c =
     (case repoUpdate of
        Inl err \<Rightarrow> (c, Inl (RepoError err))
      | Inr value \<Rightarrow> (cacheStore key value c, Inr value))"

subsection \<open>Interleaving\<close>








lemma cacheClone_id [simp]: "cacheClone m = m"
  by (simp add: cacheClone_def split: option.splits)








subsection \<open>Properties\<close>






end
