(* ===== verification/Overview_Journal.thy ===== *)
theory Overview_Journal
  imports Go_Map
begin

text \<open>
  The journal of overview patches (\<open>internal/worker/overview_journal.go\<close>) from which a client
  that reconnects is brought up to date with one compacted patch. Versions are 64-bit words.
  The package \<open>encoding/json\<close> enters as two functions: the length of an encoding, \<open>None\<close> when a
  value has none, and the value obtained by encoding and decoding. Nil maps and slices are as
  empty ones; values are immutable here, so the sharing that the copies break up does not show.
\<close>

subsection \<open>Patches\<close>

text \<open>The dynamic types of patch values; \<open>PVCustom\<close> is any type the copy does not know.\<close>

datatype PatchValue =
    PVScalar string
  | PVBytes "8 word list"
  | PVStrings "string list"
  | PVStringMap "(string, string) gomap"
  | PVList "PatchValue list"
  | PVMap "(string \<times> PatchValue) list"
  | PVCustom string

type_synonym patch = "(string, PatchValue) gomap"
type_synonym patches = "(string, patch) gomap"

record RuntimeDeltaPayload =
  rd_Devices :: patches
  rd_Links :: patches

definition EmptyRuntimeDeltaPayload :: RuntimeDeltaPayload where
  "EmptyRuntimeDeltaPayload = \<lparr> rd_Devices = [], rd_Links = [] \<rparr>"

record JSONOps =
  jo_marshal :: "RuntimeDeltaPayload \<Rightarrow> nat option"
  jo_normalize :: "PatchValue \<Rightarrow> PatchValue option"

fun cloneOverviewJournalValue :: "JSONOps \<Rightarrow> PatchValue \<Rightarrow> PatchValue option"
  and cloneValues :: "JSONOps \<Rightarrow> PatchValue list \<Rightarrow> PatchValue list option"
  and cloneOverviewJournalPatch :: "JSONOps \<Rightarrow> (string \<times> PatchValue) list \<Rightarrow> (string \<times> PatchValue) list option" where
  "cloneOverviewJournalValue J (PVScalar s) = Some (PVScalar s)"
| "cloneOverviewJournalValue J (PVBytes bs) = Some (PVBytes bs)"
| "cloneOverviewJournalValue J (PVStrings ss) = Some (PVStrings ss)"
| "cloneOverviewJournalValue J (PVStringMap m) = Some (PVStringMap m)"
| "cloneOverviewJournalValue J (PVList vs) = map_option PVList (cloneValues J vs)"
| "cloneOverviewJournalValue J (PVMap fs) = map_option PVMap (cloneOverviewJournalPatch J fs)"
| "cloneOverviewJournalValue J (PVCustom c) = jo_normalize J (PVCustom c)"
| "cloneValues J [] = Some []"
| "cloneValues J (v # vs) =
     (case cloneOverviewJournalValue J v of
        None \<Rightarrow> None
      | Some v' \<Rightarrow> map_option ((#) v') (cloneValues J vs))"
| "cloneOverviewJournalPatch J [] = Some []"
| "cloneOverviewJournalPatch J ((k, v) # fs) =
     (case cloneOverviewJournalValue J v of
        None \<Rightarrow> None
      | Some v' \<Rightarrow> map_option ((#) (k, v')) (cloneOverviewJournalPatch J fs))"

fun clonePatches :: "JSONOps \<Rightarrow> patches \<Rightarrow> patches option" where
  "clonePatches J [] = Some []"
| "clonePatches J ((entity, p) # ps) =
     (case cloneOverviewJournalPatch J p of
        None \<Rightarrow> None
      | Some p' \<Rightarrow> map_option ((#) (entity, p')) (clonePatches J ps))"

definition cloneOverviewJournalDelta :: "JSONOps \<Rightarrow> RuntimeDeltaPayload option \<Rightarrow> (RuntimeDeltaPayload \<times> nat) option" where
  "cloneOverviewJournalDelta J delta =
     (let delta = (case delta of None \<Rightarrow> EmptyRuntimeDeltaPayload | Some d \<Rightarrow> d)
      in case jo_marshal J delta of
           None \<Rightarrow> None
         | Some _ \<Rightarrow>
             (case clonePatches J (rd_Devices delta) of
                None \<Rightarrow> None
              | Some devices \<Rightarrow>
                  (case clonePatches J (rd_Links delta) of
                     None \<Rightarrow> None
                   | Some links \<Rightarrow>
                       (case jo_marshal J \<lparr> rd_Devices = devices, rd_Links = links \<rparr> of
                          None \<Rightarrow> None
                        | Some n \<Rightarrow> Some (\<lparr> rd_Devices = devices, rd_Links = links \<rparr>, n)))))"

definition mergeFields :: "patch \<Rightarrow> patch \<Rightarrow> patch" where
  "mergeFields destination source = fold (\<lambda>(field, v). AList.update field v) source destination"

definition mergeOverviewJournalPatches :: "patches \<Rightarrow> patches \<Rightarrow> patches" where
  "mergeOverviewJournalPatches destination source =
     fold (\<lambda>(entity, sourcePatch) dest.
             AList.update entity (mergeFields (case map_of dest entity of None \<Rightarrow> [] | Some p \<Rightarrow> p) sourcePatch) dest)
       source destination"

subsection \<open>The journal\<close>

record overviewJournalEntry =
  je_baseVersion :: "64 word"
  je_version :: "64 word"
  je_delta :: RuntimeDeltaPayload
  je_sizeBytes :: int

record overviewJournal =
  oj_capacity :: int
  oj_maxBytes :: int
  oj_sizeBytes :: int
  oj_entries :: "overviewJournalEntry list"

definition overviewJournalCapacity :: int where "overviewJournalCapacity = 512"
definition overviewJournalMaxBytes :: int where "overviewJournalMaxBytes = push_bit 20 16"

definition newOverviewJournal :: "int \<Rightarrow> int \<Rightarrow> overviewJournal" where
  "newOverviewJournal capacity maxBytes =
     \<lparr> oj_capacity = capacity, oj_maxBytes = maxBytes, oj_sizeBytes = 0, oj_entries = [] \<rparr>"

definition Journal_Reset :: "overviewJournal \<Rightarrow> overviewJournal" where
  "Journal_Reset j = j\<lparr> oj_entries := [], oj_sizeBytes := 0 \<rparr>"

text \<open>The trimming loop; taking the first entry of an empty slice would panic, here \<open>None\<close>.\<close>

fun trimEntries :: "int \<Rightarrow> int \<Rightarrow> int \<Rightarrow> overviewJournalEntry list \<Rightarrow> (int \<times> overviewJournalEntry list) option" where
  "trimEntries capacity maxBytes sz [] =
     (if 0 > capacity \<or> sz > maxBytes then None else Some (sz, []))"
| "trimEntries capacity maxBytes sz (e # es) =
     (if int (length (e # es)) > capacity \<or> sz > maxBytes
      then trimEntries capacity maxBytes (sz - je_sizeBytes e) es
      else Some (sz, e # es))"

definition Journal_Append ::
  "JSONOps \<Rightarrow> 64 word \<Rightarrow> 64 word \<Rightarrow> RuntimeDeltaPayload option \<Rightarrow> overviewJournal \<Rightarrow> overviewJournal option" where
  "Journal_Append J baseVersion version delta j =
     (if version \<le> baseVersion \<or> version - baseVersion \<noteq> 1 then Some (Journal_Reset j)
      else let j = (if oj_entries j \<noteq> [] \<and> je_version (last (oj_entries j)) \<noteq> baseVersion then Journal_Reset j else j)
           in case cloneOverviewJournalDelta J delta of
                None \<Rightarrow> Some (Journal_Reset j)
              | Some (cloned, n) \<Rightarrow>
                  if int n > oj_maxBytes j \<or> oj_capacity j \<le> 0 then Some (Journal_Reset j)
                  else
                    let entry = \<lparr> je_baseVersion = baseVersion, je_version = version, je_delta = cloned, je_sizeBytes = int n \<rparr>
                    in map_option (\<lambda>(sz, es). j\<lparr> oj_sizeBytes := sz, oj_entries := es \<rparr>)
                         (trimEntries (oj_capacity j) (oj_maxBytes j) (oj_sizeBytes j + int n) (oj_entries j @ [entry])))"

definition mergeDelta :: "RuntimeDeltaPayload \<Rightarrow> RuntimeDeltaPayload \<Rightarrow> RuntimeDeltaPayload" where
  "mergeDelta compacted delta =
     \<lparr> rd_Devices = mergeOverviewJournalPatches (rd_Devices compacted) (rd_Devices delta),
       rd_Links = mergeOverviewJournalPatches (rd_Links compacted) (rd_Links delta) \<rparr>"

fun replayEntries ::
  "JSONOps \<Rightarrow> 64 word \<Rightarrow> 64 word \<Rightarrow> 64 word \<Rightarrow> RuntimeDeltaPayload \<Rightarrow> overviewJournalEntry list \<Rightarrow> RuntimeDeltaPayload option" where
  "replayEntries J fromVersion targetVersion expected compacted [] = None"
| "replayEntries J fromVersion targetVersion expected compacted (e # es) =
     (if je_version e \<le> fromVersion then replayEntries J fromVersion targetVersion expected compacted es
      else if je_baseVersion e \<noteq> expected \<or> je_version e > targetVersion then None
      else let compacted = mergeDelta compacted (je_delta e); expected = je_version e
           in if expected = targetVersion then map_option fst (cloneOverviewJournalDelta J (Some compacted))
              else replayEntries J fromVersion targetVersion expected compacted es)"

definition Journal_Replay :: "JSONOps \<Rightarrow> 64 word \<Rightarrow> 64 word \<Rightarrow> overviewJournal \<Rightarrow> RuntimeDeltaPayload option" where
  "Journal_Replay J fromVersion targetVersion j =
     (if fromVersion \<ge> targetVersion then None
      else replayEntries J fromVersion targetVersion fromVersion EmptyRuntimeDeltaPayload (oj_entries j))"

subsection \<open>What a patch does to a client's picture\<close>

type_synonym picture = "string \<rightharpoonup> (string \<rightharpoonup> PatchValue)"

definition pic :: "patches \<Rightarrow> picture" where
  "pic ps = (\<lambda>e. map_option map_of (map_of ps e))"

definition overlay :: "picture \<Rightarrow> picture \<Rightarrow> picture" where
  "overlay P Q = (\<lambda>e. case Q e of None \<Rightarrow> P e | Some q \<Rightarrow> Some ((case P e of None \<Rightarrow> Map.empty | Some p \<Rightarrow> p) ++ q))"

definition picD :: "RuntimeDeltaPayload \<Rightarrow> picture \<times> picture" where
  "picD d = (pic (rd_Devices d), pic (rd_Links d))"

definition overlayD :: "picture \<times> picture \<Rightarrow> picture \<times> picture \<Rightarrow> picture \<times> picture" where
  "overlayD S T = (overlay (fst S) (fst T), overlay (snd S) (snd T))"

lemma overlay_assoc: "overlay (overlay P Q) R = overlay P (overlay Q R)"
  by (rule ext) (auto simp: overlay_def split: option.splits)

lemma overlay_empty [simp]: "overlay P Map.empty = P" "overlay Map.empty P = P"
  by (auto simp: overlay_def fun_eq_iff split: option.splits)

lemma overlayD_assoc: "overlayD (overlayD S T) U = overlayD S (overlayD T U)"
  by (simp add: overlayD_def overlay_assoc)

definition patches_ok :: "patches \<Rightarrow> bool" where
  "patches_ok ps \<longleftrightarrow> map_ok ps \<and> list_all (\<lambda>(e, p). map_ok p) ps"

definition delta_ok :: "RuntimeDeltaPayload \<Rightarrow> bool" where
  "delta_ok d \<longleftrightarrow> patches_ok (rd_Devices d) \<and> patches_ok (rd_Links d)"

lemma mergeFields_of: "map_ok source \<Longrightarrow> map_of (mergeFields dest source) = map_of dest ++ map_of source"
  by (simp add: mergeFields_def map_of_update_all)

lemma merge_step:
  "map_ok p \<Longrightarrow> pic (AList.update e (mergeFields (case map_of dest e of None \<Rightarrow> [] | Some p \<Rightarrow> p) p) dest) =
     overlay (pic dest) (\<lambda>x. if x = e then Some (map_of p) else None)"
  by (auto simp: pic_def overlay_def update_conv' mergeFields_of fun_eq_iff split: option.splits)

lemma pic_Cons:
  assumes "e \<notin> mkeys ps"
  shows "pic ((e, p) # ps) = overlay (\<lambda>x. if x = e then Some (map_of p) else None) (pic ps)"
proof -
  have "map_of ps e = None"
    using assms by (simp add: map_of_eq_None_iff)
  then show ?thesis
    by (auto simp: pic_def overlay_def fun_eq_iff split: option.splits)
qed

lemma pic_merge: "patches_ok source \<Longrightarrow> pic (mergeOverviewJournalPatches dest source) = overlay (pic dest) (pic source)"
proof (induction source arbitrary: dest)
  case Nil
  then show ?case by (simp add: mergeOverviewJournalPatches_def pic_def overlay_def)
next
  case (Cons ep source)
  obtain e p where ep: "ep = (e, p)"
    by (cases ep)
  have ok: "map_ok p" "patches_ok source" "e \<notin> mkeys source"
    using Cons.prems by (auto simp: ep patches_ok_def map_ok_def)
  let ?dest = "AList.update e (mergeFields (case map_of dest e of None \<Rightarrow> [] | Some p \<Rightarrow> p) p) dest"
  have "pic (mergeOverviewJournalPatches dest (ep # source)) = pic (mergeOverviewJournalPatches ?dest source)"
    by (simp add: mergeOverviewJournalPatches_def ep)
  also have "\<dots> = overlay (pic ?dest) (pic source)"
    by (rule Cons.IH [OF ok(2)])
  also have "\<dots> = overlay (pic dest) (pic (ep # source))"
    by (simp add: merge_step [OF ok(1)] ep pic_Cons [OF ok(3)] overlay_assoc)
  finally show ?case .
qed

lemma picD_merge: "delta_ok d \<Longrightarrow> picD (mergeDelta c d) = overlayD (picD c) (picD d)"
  by (simp add: picD_def mergeDelta_def overlayD_def pic_merge delta_ok_def)

subsection \<open>Copies\<close>

fun plain :: "PatchValue \<Rightarrow> bool" where
  "plain (PVList vs) = list_all plain vs"
| "plain (PVMap fs) = list_all (\<lambda>kv. plain (snd kv)) fs"
| "plain (PVCustom c) = False"
| "plain _ = True"

definition plain_patch :: "patch \<Rightarrow> bool" where
  "plain_patch p \<longleftrightarrow> list_all (\<lambda>kv. plain (snd kv)) p"

definition plain_patches :: "patches \<Rightarrow> bool" where
  "plain_patches ps \<longleftrightarrow> list_all (\<lambda>ep. plain_patch (snd ep)) ps"

definition plain_delta :: "RuntimeDeltaPayload \<Rightarrow> bool" where
  "plain_delta d \<longleftrightarrow> plain_patches (rd_Devices d) \<and> plain_patches (rd_Links d)"

text \<open>
  Decoding into \<open>any\<close> yields only scalars, slices and maps of such values.
\<close>

definition json_ok :: "JSONOps \<Rightarrow> bool" where
  "json_ok J \<longleftrightarrow> (\<forall>v w. jo_normalize J v = Some w \<longrightarrow> plain w)"

lemma clone_plain_id:
  "plain v \<Longrightarrow> cloneOverviewJournalValue J v = Some v"
  "list_all plain vs \<Longrightarrow> cloneValues J vs = Some vs"
  "list_all (\<lambda>kv. plain (snd kv)) fs \<Longrightarrow> cloneOverviewJournalPatch J fs = Some fs"
  by (induction J v and J vs and J fs rule: cloneOverviewJournalValue_cloneValues_cloneOverviewJournalPatch.induct) auto

lemma clone_makes_plain:
  "json_ok J \<Longrightarrow> cloneOverviewJournalValue J v = Some v' \<Longrightarrow> plain v'"
  "json_ok J \<Longrightarrow> cloneValues J vs = Some vs' \<Longrightarrow> list_all plain vs'"
  "json_ok J \<Longrightarrow> cloneOverviewJournalPatch J fs = Some fs' \<Longrightarrow> list_all (\<lambda>kv. plain (snd kv)) fs' \<and> map fst fs' = map fst fs"
  by (induction J v and J vs and J fs arbitrary: v' and vs' and fs'
      rule: cloneOverviewJournalValue_cloneValues_cloneOverviewJournalPatch.induct)
    (auto simp: json_ok_def split: option.splits)

lemma clonePatches_id: "plain_patches ps \<Longrightarrow> clonePatches J ps = Some ps"
  by (induction J ps rule: clonePatches.induct) (auto simp: plain_patches_def plain_patch_def clone_plain_id)

lemma clonePatches_plain:
  "json_ok J \<Longrightarrow> clonePatches J ps = Some ps' \<Longrightarrow> patches_ok ps \<Longrightarrow>
   plain_patches ps' \<and> patches_ok ps' \<and> map fst ps' = map fst ps"
proof (induction J ps arbitrary: ps' rule: clonePatches.induct)
  case (1 J)
  then show ?case by (simp add: plain_patches_def patches_ok_def)
next
  case (2 J e p ps)
  obtain p' qs where p': "cloneOverviewJournalPatch J p = Some p'" "clonePatches J ps = Some qs" "ps' = (e, p') # qs"
    using "2.prems"(2) by (auto split: option.splits)
  have ok: "map_ok p" "patches_ok ps" "e \<notin> fst ` set ps"
    using "2.prems"(3) by (auto simp: patches_ok_def map_ok_def)
  have q: "plain_patches qs \<and> patches_ok qs \<and> map fst qs = map fst ps"
    using "2.IH" [OF p'(1) "2.prems"(1) p'(2) ok(2)] .
  have pp: "list_all (\<lambda>kv. plain (snd kv)) p'" "map fst p' = map fst p"
    using clone_makes_plain(3) [OF "2.prems"(1) p'(1)] by auto
  have "e \<notin> fst ` set qs"
    using q ok(3) by (metis list.set_map)
  then show ?case
    using q pp ok p'(3) by (simp add: plain_patches_def plain_patch_def patches_ok_def map_ok_def)
qed

lemma cloneDelta_plain:
  assumes "json_ok J" "delta_ok d" "cloneOverviewJournalDelta J (Some d) = Some (d', n)"
  shows "plain_delta d' \<and> delta_ok d'"
  using assms clonePatches_plain [OF assms(1)]
  by (auto simp: cloneOverviewJournalDelta_def delta_ok_def plain_delta_def split: option.splits)

lemma cloneDelta_id:
  "plain_delta d \<Longrightarrow> cloneOverviewJournalDelta J (Some d) = Some (d', n) \<Longrightarrow> d' = d"
  by (auto simp: cloneOverviewJournalDelta_def plain_delta_def clonePatches_id split: option.splits)

text \<open>Merging keeps values plain.\<close>

lemma plain_patch_update: "plain_patch p \<Longrightarrow> plain v \<Longrightarrow> plain_patch (AList.update k v p)"
  by (induction p) (auto simp: plain_patch_def)

lemma plain_mergeFields: "plain_patch source \<Longrightarrow> plain_patch dest \<Longrightarrow> plain_patch (mergeFields dest source)"
proof (induction source arbitrary: dest)
  case Nil
  then show ?case by (simp add: mergeFields_def)
next
  case (Cons fv source)
  obtain f v where fv: "fv = (f, v)"
    by (cases fv)
  have "plain v" "plain_patch source"
    using Cons.prems(1) by (simp_all add: plain_patch_def fv)
  then show ?case
    using Cons.IH [OF _ plain_patch_update [OF Cons.prems(2), of v f]] by (simp add: mergeFields_def fv)
qed

lemma plain_patches_update: "plain_patches ps \<Longrightarrow> plain_patch p \<Longrightarrow> plain_patches (AList.update e p ps)"
  by (induction ps) (auto simp: plain_patches_def)

lemma plain_patches_get: "plain_patches ps \<Longrightarrow> plain_patch (case map_of ps e of None \<Rightarrow> [] | Some p \<Rightarrow> p)"
proof (cases "map_of ps e")
  case None
  then show ?thesis by (simp add: plain_patch_def)
next
  case (Some p)
  moreover assume "plain_patches ps"
  ultimately show ?thesis
    using map_of_SomeD [OF Some] by (auto simp: plain_patches_def list_all_iff)
qed

lemma plain_merge:
  "plain_patches source \<Longrightarrow> plain_patches dest \<Longrightarrow> plain_patches (mergeOverviewJournalPatches dest source)"
proof (induction source arbitrary: dest)
  case Nil
  then show ?case by (simp add: mergeOverviewJournalPatches_def)
next
  case (Cons ep source)
  obtain e p where ep: "ep = (e, p)"
    by (cases ep)
  have "plain_patches (AList.update e (mergeFields (case map_of dest e of None \<Rightarrow> [] | Some p \<Rightarrow> p) p) dest)"
    using Cons.prems by (intro plain_patches_update plain_mergeFields plain_patches_get) (simp_all add: ep plain_patches_def)
  then show ?case
    using Cons by (simp add: mergeOverviewJournalPatches_def ep plain_patches_def)
qed

lemma plain_mergeDelta: "plain_delta c \<Longrightarrow> plain_delta d \<Longrightarrow> plain_delta (mergeDelta c d)"
  by (simp add: plain_delta_def mergeDelta_def plain_merge)

subsection \<open>Replay\<close>

definition entry_link :: "overviewJournalEntry \<Rightarrow> bool" where
  "entry_link e \<longleftrightarrow> unat (je_version e) = Suc (unat (je_baseVersion e)) \<and> plain_delta (je_delta e) \<and> delta_ok (je_delta e)"

text \<open>Entries that follow one another, up to version \<open>c\<close>.\<close>

definition chained :: "nat \<Rightarrow> overviewJournalEntry list \<Rightarrow> bool" where
  "chained c es \<longleftrightarrow> list_all entry_link es \<and> length es \<le> c \<and>
     map (\<lambda>e. unat (je_version e)) es = [Suc c - length es..<Suc c]"

definition compactAll :: "RuntimeDeltaPayload \<Rightarrow> overviewJournalEntry list \<Rightarrow> RuntimeDeltaPayload" where
  "compactAll = foldl (\<lambda>c e. mergeDelta c (je_delta e))"

lemma chained_Nil [simp]: "chained c []"
  by (simp add: chained_def)

lemma chained_Cons:
  assumes "chained c (e # es)"
  shows "entry_link e" "chained c es" "unat (je_version e) + length es = c"
proof -
  have v: "unat (je_version e) # map (\<lambda>e. unat (je_version e)) es = [c - length es..<Suc c]" and l: "Suc (length es) \<le> c"
    using assms by (simp_all add: chained_def)
  moreover have "[c - length es..<Suc c] = (c - length es) # [Suc c - length es..<Suc c]"
    using l by (subst upt_conv_Cons) (simp_all add: Suc_diff_le del: upt_Suc)
  ultimately show "entry_link e" "chained c es" "unat (je_version e) + length es = c"
    using assms by (simp_all add: chained_def del: upt_Suc)
qed

lemma chained_drop: "chained c es \<Longrightarrow> chained c (drop n es)"
proof (induction n arbitrary: es)
  case (Suc n)
  then show ?case
    using chained_Cons(2) by (cases es) auto
qed simp

lemma chained_snoc:
  assumes "chained c es" "entry_link e" "unat (je_version e) = Suc c"
  shows "chained (Suc c) (es @ [e])"
  using assms by (auto simp: chained_def Suc_diff_le)

text \<open>Replaying from inside the journal compacts exactly the later entries.\<close>

lemma replayEntries_tail:
  assumes "chained (unat target) es" "es \<noteq> []" "unat expected + length es = unat target" "fromV \<le> expected"
  shows "replayEntries J fromV target expected c es = map_option fst (cloneOverviewJournalDelta J (Some (compactAll c es)))"
  using assms
proof (induction es arbitrary: expected c)
  case (Cons e es)
  note ch = chained_Cons [OF Cons.prems(1)]
  have v: "unat (je_version e) = Suc (unat expected)"
    using ch(3) Cons.prems(3) by simp
  have b: "je_baseVersion e = expected"
    using v ch(1) by (simp add: entry_link_def word_unat_eq_iff)
  have later: "\<not> je_version e \<le> fromV" and le: "\<not> target < je_version e" and up: "fromV \<le> je_version e"
    using v Cons.prems(3,4) by (simp_all add: word_le_nat_alt word_less_nat_alt)
  show ?case
  proof (cases "es = []")
    case True
    then have "je_version e = target"
      using ch(3) by (simp add: word_unat_eq_iff)
    then show ?thesis
      using True b later by (simp add: Let_def compactAll_def)
  next
    case False
    then have "je_version e \<noteq> target"
      using ch(3) by auto
    then show ?thesis
      using Cons.IH [OF ch(2) False ch(3) up] b later le by (simp add: Let_def compactAll_def)
  qed
qed simp

lemma replayEntries_inside:
  assumes "chained (unat target) es" "fromV < target" "unat target \<le> unat fromV + length es"
  shows "replayEntries J fromV target fromV c es =
    map_option fst (cloneOverviewJournalDelta J (Some (compactAll c (drop (length es - (unat target - unat fromV)) es))))"
  using assms
proof (induction es)
  case Nil
  then show ?case by (simp add: word_less_nat_alt)
next
  case (Cons e es)
  note ch = chained_Cons [OF Cons.prems(1)]
  show ?case
  proof (cases "unat target \<le> unat fromV + length es")
    case True
    then have "je_version e \<le> fromV"
      using ch(3) by (simp add: word_le_nat_alt)
    then show ?thesis
      using True Cons.IH [OF ch(2) Cons.prems(2) True] by (simp add: Suc_diff_le)
  next
    case False
    then have "unat fromV + length (e # es) = unat target"
      using Cons.prems(3) by simp
    then show ?thesis
      using replayEntries_tail [OF Cons.prems(1)] by simp
  qed
qed

lemma replayEntries_outside:
  assumes "chained (unat target) es" "unat fromV + length es < unat target"
  shows "replayEntries J fromV target fromV c es = None"
proof (cases es)
  case (Cons e es')
  note ch = chained_Cons [OF assms(1) [unfolded Cons]]
  have "unat (je_version e) > Suc (unat fromV)"
    using ch(3) assms(2) by (simp add: Cons)
  then have "\<not> je_version e \<le> fromV" "je_baseVersion e \<noteq> fromV"
    using ch(1) by (auto simp: entry_link_def word_le_nat_alt)
  then show ?thesis
    by (simp add: Cons)
qed simp

lemma picD_compact:
  "list_all entry_link es \<Longrightarrow> plain_delta c \<Longrightarrow>
    picD (compactAll c es) = foldl overlayD (picD c) (map (\<lambda>e. picD (je_delta e)) es) \<and> plain_delta (compactAll c es)"
  by (induction es arbitrary: c) (simp_all add: compactAll_def entry_link_def picD_merge plain_mergeDelta)

lemma foldl_overlayD: "overlayD S (foldl overlayD T ts) = foldl overlayD (overlayD S T) ts"
  by (induction ts arbitrary: T) (simp_all add: overlayD_assoc)

subsection \<open>Bounds\<close>

abbreviation sizes :: "overviewJournalEntry list \<Rightarrow> int" where
  "sizes es \<equiv> sum_list (map je_sizeBytes es)"

definition fits :: "int \<Rightarrow> int \<Rightarrow> overviewJournalEntry list \<Rightarrow> bool" where
  "fits capacity maxBytes es \<longleftrightarrow> int (length es) \<le> capacity \<and> sizes es \<le> maxBytes"

text \<open>Trimming keeps the longest tail that fits, and never runs out of entries.\<close>

lemma trimEntries_spec:
  assumes "es \<noteq> []" "fits capacity maxBytes [last es]"
  shows "\<exists>n < length es. trimEntries capacity maxBytes (sizes es) es = Some (sizes (drop n es), drop n es) \<and>
    fits capacity maxBytes (drop n es) \<and> (\<forall>m<n. \<not> fits capacity maxBytes (drop m es))"
  using assms
proof (induction es)
  case (Cons e es)
  show ?case
  proof (cases "fits capacity maxBytes (e # es)")
    case True
    then show ?thesis
      by (intro exI [of _ 0]) (simp add: fits_def)
  next
    case False
    then have ne: "es \<noteq> []"
      using Cons.prems by auto
    have "\<exists>n < length es. trimEntries capacity maxBytes (sizes es) es = Some (sizes (drop n es), drop n es) \<and>
      fits capacity maxBytes (drop n es) \<and> (\<forall>m<n. \<not> fits capacity maxBytes (drop m es))"
      using Cons.IH [OF ne] Cons.prems(2) ne by simp
    then obtain n where n: "n < length es" "trimEntries capacity maxBytes (sizes es) es = Some (sizes (drop n es), drop n es)"
      "fits capacity maxBytes (drop n es)" "\<forall>m<n. \<not> fits capacity maxBytes (drop m es)"
      by blast
    have "trimEntries capacity maxBytes (sizes (e # es)) (e # es) = Some (sizes (drop n es), drop n es)"
      using False n(2) by (auto simp: fits_def)
    moreover have "\<not> fits capacity maxBytes (drop m (e # es))" if "m < Suc n" for m
      using that False n(4) by (cases m) auto
    ultimately show ?thesis
      using n by (intro exI [of _ "Suc n"]) simp
  qed
qed simp

definition journal_ok :: "JSONOps \<Rightarrow> overviewJournal \<Rightarrow> bool" where
  "journal_ok J j \<longleftrightarrow> oj_sizeBytes j = sizes (oj_entries j) \<and>
     (oj_entries j = [] \<or> fits (oj_capacity j) (oj_maxBytes j) (oj_entries j)) \<and>
     list_all (\<lambda>e. jo_marshal J (je_delta e) = Some (nat (je_sizeBytes e)) \<and> 0 \<le> je_sizeBytes e) (oj_entries j)"

lemma journal_ok_new [simp]: "journal_ok J (newOverviewJournal c m)"
  by (simp add: journal_ok_def newOverviewJournal_def)

lemma journal_ok_reset [simp]: "journal_ok J (Journal_Reset j)"
  by (simp add: journal_ok_def Journal_Reset_def)

lemma reset_fields [simp]:
  "oj_entries (Journal_Reset j) = []" "oj_capacity (Journal_Reset j) = oj_capacity j" "oj_maxBytes (Journal_Reset j) = oj_maxBytes j"
  by (simp_all add: Journal_Reset_def)

lemma cloneDelta_size: "cloneOverviewJournalDelta J d = Some (d', n) \<Longrightarrow> jo_marshal J d' = Some n"
  by (auto simp: cloneOverviewJournalDelta_def Let_def split: option.splits)

text \<open>
  What an append leaves: nothing, or a tail of the old entries and the new one, the latter with the
  copy of the patch.
\<close>

lemma Journal_Append_spec:
  assumes "journal_ok J j"
  obtains j' where "Journal_Append J b v d j = Some j'" "journal_ok J j'" "oj_capacity j' = oj_capacity j"
    "oj_maxBytes j' = oj_maxBytes j"
    "oj_entries j' = [] \<or>
      (\<exists>n c k. v = b + 1 \<and> b < v \<and> cloneOverviewJournalDelta J d = Some (c, k) \<and> n \<le> length (oj_entries j) \<and>
        (n < length (oj_entries j) \<longrightarrow> je_version (last (oj_entries j)) = b) \<and>
        oj_entries j' = drop n (oj_entries j) @ [\<lparr> je_baseVersion = b, je_version = v, je_delta = c, je_sizeBytes = int k \<rparr>])"
proof (cases "v \<le> b \<or> v - b \<noteq> 1")
  case True
  then show ?thesis
    using that [of "Journal_Reset j"] by (auto simp: Journal_Append_def)
next
  case step: False
  define k where "k = (if oj_entries j \<noteq> [] \<and> je_version (last (oj_entries j)) \<noteq> b then Journal_Reset j else j)"
  have k: "journal_ok J k" "oj_capacity k = oj_capacity j" "oj_maxBytes k = oj_maxBytes j"
    "oj_entries k = [] \<or> oj_entries k = oj_entries j \<and> je_version (last (oj_entries j)) = b"
    using assms by (auto simp: k_def)
  show ?thesis
  proof (cases "\<exists>c s. cloneOverviewJournalDelta J d = Some (c, s) \<and> int s \<le> oj_maxBytes j \<and> 0 < oj_capacity j")
    case False
    then have "Journal_Append J b v d j = Some (Journal_Reset k)"
      using step k(2,3) by (auto simp: Journal_Append_def Let_def k_def [symmetric] not_less not_le split: option.splits)
    then show ?thesis
      using that [of "Journal_Reset k"] k(2,3) by simp
  next
    case True
    then obtain c s where c: "cloneOverviewJournalDelta J d = Some (c, s)" "int s \<le> oj_maxBytes j" "0 < oj_capacity j"
      by blast
    let ?e = "\<lparr> je_baseVersion = b, je_version = v, je_delta = c, je_sizeBytes = int s \<rparr>"
    let ?es = "oj_entries k @ [?e]"
    have "fits (oj_capacity k) (oj_maxBytes k) [last ?es]"
      using c k(2,3) by (simp add: fits_def)
    then obtain n where n: "n < length ?es" "trimEntries (oj_capacity k) (oj_maxBytes k) (sizes ?es) ?es = Some (sizes (drop n ?es), drop n ?es)"
      "fits (oj_capacity k) (oj_maxBytes k) (drop n ?es)"
      using trimEntries_spec [of ?es] by blast
    let ?j = "k\<lparr> oj_sizeBytes := sizes (drop n ?es), oj_entries := drop n ?es \<rparr>"
    have "Journal_Append J b v d j = Some ?j"
      using step c k n(2) by (auto simp: Journal_Append_def Let_def k_def [symmetric] journal_ok_def)
    moreover have "journal_ok J ?j"
      using k(1) n(3) cloneDelta_size [OF c(1)] by (auto simp: journal_ok_def list_all_iff dest: in_set_dropD)
    moreover have "v = b + 1" "b < v"
      using step by (auto simp: algebra_simps)
    moreover have "\<exists>m \<le> length (oj_entries j). (m < length (oj_entries j) \<longrightarrow> je_version (last (oj_entries j)) = b) \<and>
      drop n ?es = drop m (oj_entries j) @ [?e]"
    proof (cases "oj_entries k = []")
      case True
      then show ?thesis
        using n(1) by (intro exI [of _ "length (oj_entries j)"]) simp
    next
      case False
      then show ?thesis
        using n(1) k(4) by (intro exI [of _ n]) auto
    qed
    ultimately show ?thesis
      using that [of ?j] k(2,3) c(1) by fastforce
  qed
qed

subsection \<open>The overview stream\<close>

text \<open>
  The part of the pipeline's runtime state that numbers overview messages. The publications of
  \<open>pipeline_snapshot_broadcaster.go\<close>, all under one lock, either send a patch or replace the
  picture of every client by a snapshot; a snapshot, here given by the fields it sets, starts a new
  stream with a fresh identifier.
\<close>

record overviewRuntime =
  or_version :: "64 word"
  or_streamID :: string
  or_journal :: overviewJournal

datatype Publication = PublishPatch RuntimeDeltaPayload | PublishSnapshot string RuntimeDeltaPayload

definition newOverviewRuntime :: "string \<Rightarrow> overviewRuntime" where
  "newOverviewRuntime streamID =
     \<lparr> or_version = 0, or_streamID = streamID,
       or_journal = newOverviewJournal overviewJournalCapacity overviewJournalMaxBytes \<rparr>"

definition publishPatch :: "JSONOps \<Rightarrow> RuntimeDeltaPayload \<Rightarrow> overviewRuntime \<Rightarrow> overviewRuntime option" where
  "publishPatch J patch r =
     (let baseVersion = or_version r; version = baseVersion + 1
      in map_option (\<lambda>j. r\<lparr> or_version := version, or_journal := j \<rparr>)
           (Journal_Append J baseVersion version (Some patch) (or_journal r)))"

definition publishSnapshot :: "string \<Rightarrow> overviewRuntime \<Rightarrow> overviewRuntime" where
  "publishSnapshot streamID r =
     r\<lparr> or_version := or_version r + 1, or_streamID := streamID, or_journal := Journal_Reset (or_journal r) \<rparr>"

fun publish :: "JSONOps \<Rightarrow> Publication \<Rightarrow> overviewRuntime \<Rightarrow> overviewRuntime option" where
  "publish J (PublishPatch patch) r = publishPatch J patch r"
| "publish J (PublishSnapshot streamID _) r = Some (publishSnapshot streamID r)"

fun publishAll :: "JSONOps \<Rightarrow> Publication list \<Rightarrow> overviewRuntime \<Rightarrow> overviewRuntime option" where
  "publishAll J [] r = Some r"
| "publishAll J (p # ps) r = Option.bind (publish J p r) (publishAll J ps)"

record RuntimeCursor =
  rc_Known :: bool
  rc_StreamID :: string
  rc_Version :: "64 word"

datatype OverviewSyncMode = SyncCurrent | SyncReplay RuntimeDeltaPayload | SyncSnapshot

definition RuntimeStreamProtocolVersion :: int where "RuntimeStreamProtocolVersion = 2"

definition selectSyncMode :: "JSONOps \<Rightarrow> int \<Rightarrow> RuntimeCursor \<Rightarrow> overviewRuntime \<Rightarrow> OverviewSyncMode" where
  "selectSyncMode J protocol cursor r =
     (if rc_Known cursor \<and> rc_StreamID cursor = or_streamID r \<and> rc_Version cursor = or_version r then SyncCurrent
      else if protocol \<ge> RuntimeStreamProtocolVersion \<and> rc_Known cursor \<and> rc_StreamID cursor = or_streamID r \<and>
              rc_Version cursor < or_version r
      then case Journal_Replay J (rc_Version cursor) (or_version r) (or_journal r) of
             Some replay \<Rightarrow> SyncReplay replay
           | None \<Rightarrow> SyncSnapshot
      else SyncSnapshot)"

text \<open>
  What has been published since the stream began: the picture it started from and its patches; and
  the picture that results, each patch taken as it is encoded.
\<close>

fun history :: "Publication \<Rightarrow> RuntimeDeltaPayload \<times> RuntimeDeltaPayload list \<Rightarrow> RuntimeDeltaPayload \<times> RuntimeDeltaPayload list" where
  "history (PublishPatch patch) (start, ps) = (start, ps @ [patch])"
| "history (PublishSnapshot _ full) _ = (full, [])"

definition published :: "Publication list \<Rightarrow> RuntimeDeltaPayload \<times> RuntimeDeltaPayload list" where
  "published ops = fold history ops (EmptyRuntimeDeltaPayload, [])"

definition wire :: "JSONOps \<Rightarrow> RuntimeDeltaPayload \<Rightarrow> picture \<times> picture" where
  "wire J patch = (case cloneOverviewJournalDelta J (Some patch) of None \<Rightarrow> picD patch | Some (c, _) \<Rightarrow> picD c)"

definition pictureAfter :: "JSONOps \<Rightarrow> Publication list \<Rightarrow> nat \<Rightarrow> picture \<times> picture" where
  "pictureAfter J ops n = foldl overlayD (picD (fst (published ops))) (map (wire J) (take n (snd (published ops))))"

subsection \<open>The stream invariant\<close>

definition stream_inv :: "JSONOps \<Rightarrow> overviewRuntime \<Rightarrow> RuntimeDeltaPayload list \<Rightarrow> bool" where
  "stream_inv J r ps \<longleftrightarrow>
     journal_ok J (or_journal r) \<and> oj_capacity (or_journal r) = overviewJournalCapacity \<and>
     oj_maxBytes (or_journal r) = overviewJournalMaxBytes \<and>
     chained (unat (or_version r)) (oj_entries (or_journal r)) \<and>
     length (oj_entries (or_journal r)) \<le> length ps \<and>
     map (\<lambda>e. picD (je_delta e)) (oj_entries (or_journal r)) =
       map (wire J) (drop (length ps - length (oj_entries (or_journal r))) ps)"

definition publication_ok :: "Publication \<Rightarrow> bool" where
  "publication_ok p = (case p of PublishPatch patch \<Rightarrow> delta_ok patch | PublishSnapshot _ full \<Rightarrow> delta_ok full)"

lemma stream_inv_new: "stream_inv J (newOverviewRuntime sid) []"
  by (simp add: stream_inv_def newOverviewRuntime_def newOverviewJournal_def journal_ok_def)

lemma stream_inv_snapshot:
  "stream_inv J r ps \<Longrightarrow> stream_inv J (r\<lparr> or_version := v, or_streamID := sid, or_journal := Journal_Reset (or_journal r) \<rparr>) []"
  by (simp add: stream_inv_def)

lemma stream_inv_patch:
  assumes "json_ok J" "delta_ok patch" "stream_inv J r ps"
  shows "\<exists>r'. publish J (PublishPatch patch) r = Some r' \<and> stream_inv J r' (ps @ [patch])"
proof -
  let ?b = "or_version r" and ?es = "oj_entries (or_journal r)"
  have inv: "journal_ok J (or_journal r)" "chained (unat ?b) ?es" "length ?es \<le> length ps"
    "map (\<lambda>e. picD (je_delta e)) ?es = map (wire J) (drop (length ps - length ?es) ps)"
    using assms(3) by (simp_all add: stream_inv_def)
  obtain j where j: "Journal_Append J ?b (?b + 1) (Some patch) (or_journal r) = Some j" "journal_ok J j"
    "oj_capacity j = oj_capacity (or_journal r)" "oj_maxBytes j = oj_maxBytes (or_journal r)"
    and es: "oj_entries j = [] \<or>
      (\<exists>n c k. ?b + 1 = ?b + 1 \<and> ?b < ?b + 1 \<and> cloneOverviewJournalDelta J (Some patch) = Some (c, k) \<and> n \<le> length ?es \<and>
        (n < length ?es \<longrightarrow> je_version (last ?es) = ?b) \<and>
        oj_entries j = drop n ?es @ [\<lparr> je_baseVersion = ?b, je_version = ?b + 1, je_delta = c, je_sizeBytes = int k \<rparr>])"
    using Journal_Append_spec [OF inv(1), of ?b "?b + 1" "Some patch"] by metis
  have "stream_inv J (r\<lparr> or_version := ?b + 1, or_journal := j \<rparr>) (ps @ [patch])"
  proof (cases "oj_entries j = []")
    case True
    then show ?thesis
      using j assms(3) by (simp add: stream_inv_def)
  next
    case False
    then obtain n c k where b: "?b < ?b + 1" and c: "cloneOverviewJournalDelta J (Some patch) = Some (c, k)" and n: "n \<le> length ?es"
      and e: "oj_entries j = drop n ?es @ [\<lparr> je_baseVersion = ?b, je_version = ?b + 1, je_delta = c, je_sizeBytes = int k \<rparr>]"
      using es by blast
    have v: "unat (?b + 1) = Suc (unat ?b)"
      using b unatSuc [of ?b] by (cases "1 + ?b = 0") (simp_all add: add.commute)
    have "entry_link \<lparr> je_baseVersion = ?b, je_version = ?b + 1, je_delta = c, je_sizeBytes = int k \<rparr>"
      using cloneDelta_plain [OF assms(1,2) c] v by (simp add: entry_link_def)
    then have "chained (Suc (unat ?b)) (oj_entries j)"
      unfolding e using v by (intro chained_snoc chained_drop inv(2)) simp_all
    moreover have "map (\<lambda>e. picD (je_delta e)) (oj_entries j) = map (wire J) (drop (length ps - length (drop n ?es)) (ps @ [patch]))"
      using arg_cong [OF inv(4), of "drop n"] n inv(3) c by (simp add: e drop_map wire_def add.commute)
    ultimately show ?thesis
      using j(2-4) v n inv(3) assms(3) by (simp add: stream_inv_def e)
  qed
  then show ?thesis
    using j(1) by (simp add: publishPatch_def Let_def)
qed

lemma publishAll_inv:
  "json_ok J \<Longrightarrow> list_all publication_ok ops \<Longrightarrow> stream_inv J r (snd h) \<Longrightarrow>
    \<exists>r'. publishAll J ops r = Some r' \<and> stream_inv J r' (snd (fold history ops h))"
proof (induction ops arbitrary: r h)
  case Nil
  then show ?case by simp
next
  case (Cons p ops)
  have "\<exists>r'. publish J p r = Some r' \<and> stream_inv J r' (snd (history p h))"
  proof (cases p)
    case (PublishPatch patch)
    then show ?thesis
      using stream_inv_patch [OF Cons.prems(1) _ Cons.prems(3), of patch] Cons.prems(2)
      by (cases h) (simp add: publication_ok_def)
  next
    case (PublishSnapshot sid full)
    then show ?thesis
      using stream_inv_snapshot [OF Cons.prems(3)] by (simp add: publishSnapshot_def)
  qed
  then show ?case
    using Cons by fastforce
qed

lemma published_inv:
  assumes "json_ok J" "list_all publication_ok ops" "publishAll J ops (newOverviewRuntime sid) = Some r"
  shows "stream_inv J r (snd (published ops))"
  using publishAll_inv [OF assms(1,2), of "newOverviewRuntime sid" "(EmptyRuntimeDeltaPayload, [])"] stream_inv_new assms(3)
  by (auto simp: published_def)

lemma plain_Empty [simp]: "plain_delta EmptyRuntimeDeltaPayload"
  by (simp add: plain_delta_def EmptyRuntimeDeltaPayload_def plain_patches_def)

lemma overlayD_Empty [simp]: "overlayD S (picD EmptyRuntimeDeltaPayload) = S"
  by (simp add: overlayD_def picD_def EmptyRuntimeDeltaPayload_def pic_def)

text \<open>A replay holds exactly the patches after the given version.\<close>

lemma replay_picture:
  assumes "stream_inv J r ps" "Journal_Replay J v (or_version r) (or_journal r) = Some d"
  shows "unat (or_version r) - unat v \<le> length ps \<and>
    overlayD S (picD d) = foldl overlayD S (map (wire J) (drop (length ps - (unat (or_version r) - unat v)) ps))"
proof -
  let ?es = "oj_entries (or_journal r)" and ?c = "or_version r"
  let ?k = "unat ?c - unat v"
  let ?us = "drop (length ?es - ?k) ?es"
  have inv: "chained (unat ?c) ?es" "length ?es \<le> length ps"
    "map (\<lambda>e. picD (je_delta e)) ?es = map (wire J) (drop (length ps - length ?es) ps)"
    using assms(1) by (simp_all add: stream_inv_def)
  have v: "v < ?c" and r: "replayEntries J v ?c v EmptyRuntimeDeltaPayload ?es = Some d"
    using assms(2) by (auto simp: Journal_Replay_def split: if_splits)
  have inside: "unat ?c \<le> unat v + length ?es"
    using replayEntries_outside [OF inv(1), of v J EmptyRuntimeDeltaPayload] r by force
  have l: "list_all entry_link ?us"
    using chained_drop [OF inv(1)] by (simp add: chained_def)
  note pc = picD_compact [OF l plain_Empty]
  have "d = compactAll EmptyRuntimeDeltaPayload ?us"
    using r replayEntries_inside [OF inv(1) v inside] cloneDelta_id pc by fastforce
  then have "overlayD S (picD d) = foldl overlayD S (map (\<lambda>e. picD (je_delta e)) ?us)"
    using pc by (simp add: foldl_overlayD)
  also have "map (\<lambda>e. picD (je_delta e)) ?us = map (wire J) (drop (length ps - ?k) ps)"
    using arg_cong [OF inv(3), of "drop (length ?es - ?k)"] inv(2) inside by (simp add: drop_map)
  finally show ?thesis
    using inv(2) inside by simp
qed

lemma cloneDelta_total:
  assumes "plain_delta d" "\<And>d. jo_marshal J d \<noteq> None"
  shows "cloneOverviewJournalDelta J (Some d) \<noteq> None"
  using assms(1) assms(2) [of d] assms(2) [of "\<lparr> rd_Devices = rd_Devices d, rd_Links = rd_Links d \<rparr>"]
  by (auto simp: cloneOverviewJournalDelta_def plain_delta_def clonePatches_id)

lemma replay_available:
  assumes "stream_inv J r ps" "v < or_version r" "unat (or_version r) - unat v \<le> length (oj_entries (or_journal r))"
    and "\<And>d. jo_marshal J d \<noteq> None"
  shows "Journal_Replay J v (or_version r) (or_journal r) \<noteq> None"
proof -
  let ?es = "oj_entries (or_journal r)" and ?c = "or_version r"
  let ?us = "drop (length ?es - (unat ?c - unat v)) ?es"
  have ch: "chained (unat ?c) ?es"
    using assms(1) by (simp add: stream_inv_def)
  then have "list_all entry_link ?us"
    using chained_drop by (auto simp: chained_def)
  then have "plain_delta (compactAll EmptyRuntimeDeltaPayload ?us)"
    using picD_compact [OF _ plain_Empty] by blast
  then have "cloneOverviewJournalDelta J (Some (compactAll EmptyRuntimeDeltaPayload ?us)) \<noteq> None"
    using assms(4) by (rule cloneDelta_total)
  moreover have "unat ?c \<le> unat v + length ?es"
    using assms(3) by simp
  ultimately show ?thesis
    using replayEntries_inside [OF ch assms(2)] assms(2) by (simp add: Journal_Replay_def)
qed

lemma pictureAfter_split:
  "m \<le> length (snd (published ops)) \<Longrightarrow>
    foldl overlayD (pictureAfter J ops m) (map (wire J) (drop m (snd (published ops)))) =
    pictureAfter J ops (length (snd (published ops)))"
  unfolding pictureAfter_def
  by (simp flip: foldl_append map_append)

subsection \<open>Properties\<close>

text \<open>
  C28: Whatever is published, publishing never fails and the journal stays within its 512 entries and
  16 MiB; the size it accounts for is the sum of the lengths of its encoded entries.
\<close>

theorem journal_bounded:
  assumes "json_ok J" and "list_all publication_ok ops"
  shows "\<exists>r. publishAll J ops (newOverviewRuntime sid) = Some r \<and> length (oj_entries (or_journal r)) \<le> 512 \<and>
    oj_sizeBytes (or_journal r) = (\<Sum>e\<leftarrow>oj_entries (or_journal r). int (the (jo_marshal J (je_delta e)))) \<and>
    oj_sizeBytes (or_journal r) \<le> 16 * 1024 * 1024"
proof -
  obtain r where r: "publishAll J ops (newOverviewRuntime sid) = Some r" "stream_inv J r (snd (published ops))"
    using publishAll_inv [OF assms, of "newOverviewRuntime sid" "(EmptyRuntimeDeltaPayload, [])"] stream_inv_new
    by (auto simp: published_def)
  let ?j = "or_journal r"
  have ok: "journal_ok J ?j" and c: "oj_capacity ?j = 512" "oj_maxBytes ?j = 16 * 1024 * 1024"
    using r(2) by (simp_all add: stream_inv_def overviewJournalCapacity_def overviewJournalMaxBytes_def push_bit_eq_mult)
  have "sizes (oj_entries ?j) = (\<Sum>e\<leftarrow>oj_entries ?j. int (the (jo_marshal J (je_delta e))))"
    using ok by (intro arg_cong [of _ _ sum_list] map_cong) (auto simp: journal_ok_def list_all_iff)
  then show ?thesis
    using r(1) ok c by (auto simp: journal_ok_def fits_def)
qed

definition demoJSON :: JSONOps where
  "demoJSON = \<lparr> jo_marshal = (\<lambda>_. Some 10), jo_normalize = (\<lambda>_. None) \<rparr>"

definition demoPatch :: "string \<Rightarrow> string \<Rightarrow> RuntimeDeltaPayload" where
  "demoPatch field v = \<lparr> rd_Devices = [(''d'', [(field, PVScalar v)])], rd_Links = [] \<rparr>"

definition demoOps :: "Publication list" where
  "demoOps = [PublishSnapshot ''s'' (demoPatch ''cpu'' ''1''), PublishPatch (demoPatch ''cpu'' ''2''),
     PublishPatch (demoPatch ''mem'' ''7''), PublishPatch (demoPatch ''cpu'' ''3'')]"

lemma demo_ok: "json_ok demoJSON" "list_all publication_ok demoOps"
  by (simp_all add: json_ok_def demoJSON_def demoOps_def demoPatch_def publication_ok_def delta_ok_def patches_ok_def map_ok_def)

lemma demo_clone: "cloneOverviewJournalDelta demoJSON (Some (demoPatch f v)) = Some (demoPatch f v, 10)"
  by (simp add: cloneOverviewJournalDelta_def demoJSON_def demoPatch_def)

lemma demo_run:
  "publishAll demoJSON demoOps (newOverviewRuntime ''t'') = Some
     \<lparr> or_version = 4, or_streamID = ''s'',
       or_journal = \<lparr> oj_capacity = 512, oj_maxBytes = push_bit 20 16, oj_sizeBytes = 30,
         oj_entries =
           [\<lparr> je_baseVersion = 1, je_version = 2, je_delta = demoPatch ''cpu'' ''2'', je_sizeBytes = 10 \<rparr>,
            \<lparr> je_baseVersion = 2, je_version = 3, je_delta = demoPatch ''mem'' ''7'', je_sizeBytes = 10 \<rparr>,
            \<lparr> je_baseVersion = 3, je_version = 4, je_delta = demoPatch ''cpu'' ''3'', je_sizeBytes = 10 \<rparr>] \<rparr> \<rparr>"
  by (simp add: demoOps_def publishPatch_def publishSnapshot_def newOverviewRuntime_def newOverviewJournal_def Journal_Reset_def Journal_Append_def
      overviewJournalCapacity_def overviewJournalMaxBytes_def demo_clone Let_def push_bit_eq_mult word_le_nat_alt)

theorem journal_bounded_witness:
  "\<exists>r. publishAll demoJSON demoOps (newOverviewRuntime ''t'') = Some r \<and> oj_sizeBytes (or_journal r) = 30 \<and>
    oj_sizeBytes (or_journal r) \<le> 16 * 1024 * 1024"
  using journal_bounded [OF demo_ok, of "''t''"] by (auto simp: demo_run)

text \<open>
  C27: A client of the stream that is sent a replay holds, after applying it to the picture of its
  version, exactly the picture of all patches published so far; and a client whose missing patches
  are all in the journal is sent a replay, as long as the encoding does not fail.
\<close>

theorem journal_replay_equals_stream:
  assumes "json_ok J" and "list_all publication_ok ops" and "publishAll J ops (newOverviewRuntime sid) = Some r"
    and "missing = unat (or_version r) - unat (rc_Version cursor)" and "n = length (snd (published ops))"
  shows "(\<forall>replay. selectSyncMode J protocol cursor r = SyncReplay replay \<longrightarrow>
      missing \<le> n \<and> overlayD (pictureAfter J ops (n - missing)) (picD replay) = pictureAfter J ops n) \<and>
    (RuntimeStreamProtocolVersion \<le> protocol \<and> rc_Known cursor \<and> rc_StreamID cursor = or_streamID r \<and>
       0 < missing \<and> missing \<le> length (oj_entries (or_journal r)) \<and> (\<forall>d. jo_marshal J d \<noteq> None) \<longrightarrow>
      (\<exists>replay. selectSyncMode J protocol cursor r = SyncReplay replay))"
proof (intro conjI allI impI)
  have inv: "stream_inv J r (snd (published ops))"
    using assms(1-3) by (rule published_inv)
  {
    fix replay
    assume "selectSyncMode J protocol cursor r = SyncReplay replay"
    then have "Journal_Replay J (rc_Version cursor) (or_version r) (or_journal r) = Some replay"
      by (auto simp: selectSyncMode_def split: if_splits option.splits)
    note R = replay_picture [OF inv this, of "pictureAfter J ops (n - missing)"]
    then show "missing \<le> n"
      using assms(4,5) by simp
    show "overlayD (pictureAfter J ops (n - missing)) (picD replay) = pictureAfter J ops n"
      using R pictureAfter_split [of "n - missing" ops J] assms(4,5) by simp
  }
  assume A: "RuntimeStreamProtocolVersion \<le> protocol \<and> rc_Known cursor \<and> rc_StreamID cursor = or_streamID r \<and>
    0 < missing \<and> missing \<le> length (oj_entries (or_journal r)) \<and> (\<forall>d. jo_marshal J d \<noteq> None)"
  then have v: "rc_Version cursor < or_version r"
    using assms(4) by (simp add: word_less_nat_alt)
  then show "\<exists>replay. selectSyncMode J protocol cursor r = SyncReplay replay"
    using A replay_available [OF inv v] assms(4) by (auto simp: selectSyncMode_def split: option.splits)
qed

theorem journal_replay_equals_stream_witness:
  "overlayD (pictureAfter demoJSON demoOps 1) (picD \<lparr> rd_Devices = [(''d'', [(''mem'', PVScalar ''7''), (''cpu'', PVScalar ''3'')])], rd_Links = [] \<rparr>) =
     pictureAfter demoJSON demoOps 3"
  using journal_replay_equals_stream [OF demo_ok demo_run refl refl,
    where cursor = "\<lparr> rc_Known = True, rc_StreamID = ''s'', rc_Version = 2 \<rparr>" and protocol = 2]
  by (simp add: selectSyncMode_def RuntimeStreamProtocolVersion_def Journal_Replay_def mergeDelta_def EmptyRuntimeDeltaPayload_def
      mergeOverviewJournalPatches_def mergeFields_def cloneOverviewJournalDelta_def demoJSON_def published_def demoOps_def demoPatch_def Let_def numeral_3_eq_3)

end
