(* ===== verification/Counter_Rates.thy ===== *)
theory Counter_Rates
  imports State_Health
begin

text \<open>
  Interface throughput from raw octet counters (\<open>internal/collector/rates.go\<close>). Counters are 64-bit
  words. The rounding of an arithmetic result to the nearest \<open>float64\<close> is the parameter \<open>fl\<close>;
  all values here are far inside the range where the results are finite.
\<close>

record CounterBaseline =
  cb_InOctets :: "64 word"
  cb_OutOctets :: "64 word"
  cb_SampledAt :: gotime
  cb_NeedsWarmup :: bool

record InterfaceCounterSnapshot =
  ic_IfName :: string
  ic_InOctets :: "64 word"
  ic_OutOctets :: "64 word"
  ic_SpeedBps :: int

type_synonym baselines = "string \<rightharpoonup> CounterBaseline"

definition warmupBaseline :: "CounterBaseline \<Rightarrow> CounterBaseline" where
  "warmupBaseline baseline = baseline\<lparr> cb_NeedsWarmup := True \<rparr>"

text \<open>\<open>Duration.Seconds\<close>: whole seconds and the rest are converted apart.\<close>

definition Seconds :: "(rat \<Rightarrow> rat) \<Rightarrow> duration \<Rightarrow> rat" where
  "Seconds fl d = fl (fl (of_int (d div Second)) + fl (fl (of_int (d mod Second)) / 10 ^ 9))"

definition octetRate :: "(rat \<Rightarrow> rat) \<Rightarrow> 64 word \<Rightarrow> 64 word \<Rightarrow> rat \<Rightarrow> rat" where
  "octetRate fl cur prev dt = fl (fl (fl (of_nat (unat (cur - prev))) * 8) / dt)"

definition rateLimit :: "(rat \<Rightarrow> rat) \<Rightarrow> int \<Rightarrow> rat" where
  "rateLimit fl speed = fl (fl (of_int speed) * fl (11 / 10))"

text \<open>One round of the loop: the metrics and baselines so far, and those after \<open>counter\<close>.\<close>

definition rateStep ::
  "(rat \<Rightarrow> rat) \<Rightarrow> baselines \<Rightarrow> gotime \<Rightarrow> InterfaceCounterSnapshot \<Rightarrow> LinkMetrics list \<times> baselines \<Rightarrow> LinkMetrics list \<times> baselines" where
  "rateStep fl previous collectedAt counter = (\<lambda>(metrics, next).
     let baseline = \<lparr> cb_InOctets = ic_InOctets counter, cb_OutOctets = ic_OutOctets counter,
                      cb_SampledAt = collectedAt, cb_NeedsWarmup = False \<rparr>;
         name = ic_IfName counter;
         warmup = (metrics, next(name \<mapsto> warmupBaseline baseline))
     in case previous name of
          None \<Rightarrow> (metrics, next(name \<mapsto> baseline))
        | Some prev \<Rightarrow>
            if cb_NeedsWarmup prev then (metrics, next(name \<mapsto> baseline))
            else if \<not> collectedAt > cb_SampledAt prev then warmup
            else if ic_InOctets counter < cb_InOctets prev \<or> ic_OutOctets counter < cb_OutOctets prev then warmup
            else if ic_SpeedBps counter \<le> 0 then warmup
            else
              let dt = Seconds fl (tSub collectedAt (cb_SampledAt prev));
                  rxBps = octetRate fl (ic_InOctets counter) (cb_InOctets prev) dt;
                  txBps = octetRate fl (ic_OutOctets counter) (cb_OutOctets prev) dt
              in if max txBps rxBps > rateLimit fl (ic_SpeedBps counter) then warmup
                 else (metrics @ [\<lparr> lm_LinkID = [], lm_DeviceID = uuid_Nil, lm_IfName = name, lm_TxBps = Some (Fin txBps),
                                     lm_RxBps = Some (Fin rxBps), lm_Utilization = None, lm_CollectedAt = collectedAt \<rparr>],
                       next(name \<mapsto> baseline)))"

definition ComputeCounterRates ::
  "(rat \<Rightarrow> rat) \<Rightarrow> InterfaceCounterSnapshot list \<Rightarrow> baselines \<Rightarrow> gotime \<Rightarrow> LinkMetrics list \<times> baselines" where
  "ComputeCounterRates fl current previous collectedAt = fold (rateStep fl previous collectedAt) current ([], previous)"

subsection \<open>What a round does\<close>

text \<open>Rounding is monotone and exact on zero.\<close>

definition rounding :: "(rat \<Rightarrow> rat) \<Rightarrow> bool" where
  "rounding fl \<longleftrightarrow> mono fl \<and> fl 0 = 0"

lemma rounding_nonneg: "rounding fl \<Longrightarrow> 0 \<le> x \<Longrightarrow> 0 \<le> fl x"
  by (metis monoD rounding_def)

lemma Seconds_nonneg:
  assumes "rounding fl" "0 \<le> d"
  shows "0 \<le> Seconds fl d"
proof -
  note nonneg = rounding_nonneg [OF assms(1)]
  have "0 \<le> fl (of_int (d div Second))" "0 \<le> fl (of_int (d mod Second))"
    using assms(2) by (simp_all add: nonneg pos_imp_zdiv_nonneg_iff)
  moreover from this have "0 \<le> fl (fl (of_int (d mod Second)) / 10 ^ 9)"
    by (simp add: nonneg)
  ultimately show ?thesis
    unfolding Seconds_def by (simp add: nonneg)
qed

lemma octetRate_nonneg:
  assumes "rounding fl" "0 \<le> dt"
  shows "0 \<le> octetRate fl a b dt"
proof -
  note nonneg = rounding_nonneg [OF assms(1)]
  have "0 \<le> fl (of_nat (unat (a - b)))"
    by (rule nonneg) (rule of_nat_0_le_iff)
  then have "0 \<le> fl (fl (of_nat (unat (a - b))) * 8)"
    by (simp add: nonneg)
  then show ?thesis
    unfolding octetRate_def using assms(2) by (simp add: nonneg)
qed

text \<open>The rate of \<open>c\<close> is reported against the baseline \<open>b\<close>.\<close>

definition usable :: "(rat \<Rightarrow> rat) \<Rightarrow> gotime \<Rightarrow> CounterBaseline \<Rightarrow> InterfaceCounterSnapshot \<Rightarrow> bool" where
  "usable fl t b c \<longleftrightarrow> \<not> cb_NeedsWarmup b \<and> cb_SampledAt b < t \<and> cb_InOctets b \<le> ic_InOctets c \<and>
     cb_OutOctets b \<le> ic_OutOctets c \<and> 0 < ic_SpeedBps c \<and>
     octetRate fl (ic_InOctets c) (cb_InOctets b) (Seconds fl (tSub t (cb_SampledAt b))) \<le> rateLimit fl (ic_SpeedBps c) \<and>
     octetRate fl (ic_OutOctets c) (cb_OutOctets b) (Seconds fl (tSub t (cb_SampledAt b))) \<le> rateLimit fl (ic_SpeedBps c)"

definition reported :: "(rat \<Rightarrow> rat) \<Rightarrow> gotime \<Rightarrow> CounterBaseline \<Rightarrow> InterfaceCounterSnapshot \<Rightarrow> LinkMetrics" where
  "reported fl t b c =
     \<lparr> lm_LinkID = [], lm_DeviceID = uuid_Nil, lm_IfName = ic_IfName c,
       lm_TxBps = Some (Fin (octetRate fl (ic_OutOctets c) (cb_OutOctets b) (Seconds fl (tSub t (cb_SampledAt b))))),
       lm_RxBps = Some (Fin (octetRate fl (ic_InOctets c) (cb_InOctets b) (Seconds fl (tSub t (cb_SampledAt b))))),
       lm_Utilization = None, lm_CollectedAt = t \<rparr>"

definition after :: "(rat \<Rightarrow> rat) \<Rightarrow> baselines \<Rightarrow> gotime \<Rightarrow> InterfaceCounterSnapshot \<Rightarrow> CounterBaseline" where
  "after fl previous t c =
     \<lparr> cb_InOctets = ic_InOctets c, cb_OutOctets = ic_OutOctets c, cb_SampledAt = t,
       cb_NeedsWarmup = (case previous (ic_IfName c) of None \<Rightarrow> False | Some b \<Rightarrow> \<not> cb_NeedsWarmup b \<and> \<not> usable fl t b c) \<rparr>"

lemma rateStep_eq:
  "rateStep fl previous t c (metrics, next) =
     (metrics @ (case previous (ic_IfName c) of None \<Rightarrow> [] | Some b \<Rightarrow> if usable fl t b c then [reported fl t b c] else []),
      next(ic_IfName c \<mapsto> after fl previous t c))"
  by (auto simp: rateStep_def usable_def reported_def after_def warmupBaseline_def Let_def not_less not_le
      split: option.splits)

definition rate_of :: "(rat \<Rightarrow> rat) \<Rightarrow> baselines \<Rightarrow> gotime \<Rightarrow> InterfaceCounterSnapshot \<Rightarrow> LinkMetrics list" where
  "rate_of fl previous t c =
     (case previous (ic_IfName c) of None \<Rightarrow> [] | Some b \<Rightarrow> if usable fl t b c then [reported fl t b c] else [])"

lemma fold_rateStep:
  "fold (rateStep fl previous t) cs (metrics, nxt) =
     (metrics @ concat (map (rate_of fl previous t) cs), fold (\<lambda>c m. m(ic_IfName c \<mapsto> after fl previous t c)) cs nxt)"
  by (induction cs arbitrary: metrics nxt) (simp_all add: rateStep_eq rate_of_def)

lemma fold_upd_other: "n \<notin> ic_IfName ` set cs \<Longrightarrow> fold (\<lambda>c m. m(ic_IfName c \<mapsto> g c)) cs nxt n = nxt n"
  by (induction cs arbitrary: nxt) auto

lemma fold_upd_in:
  "distinct (map ic_IfName cs) \<Longrightarrow> c \<in> set cs \<Longrightarrow> fold (\<lambda>c m. m(ic_IfName c \<mapsto> g c)) cs nxt (ic_IfName c) = Some (g c)"
proof (induction cs arbitrary: nxt)
  case (Cons c' cs)
  then show ?case
    using fold_upd_other [of "ic_IfName c'" cs g "nxt(ic_IfName c' \<mapsto> g c')"] by (cases "c = c'") (auto simp add: fun_upd_same simp del: fun_upd_apply)
qed simp

lemma in_rates:
  "lm \<in> set (concat (map (rate_of fl previous t) cs)) \<longleftrightarrow>
     (\<exists>c b. c \<in> set cs \<and> previous (ic_IfName c) = Some b \<and> usable fl t b c \<and> lm = reported fl t b c)"
proof -
  have "lm \<in> set (rate_of fl previous t c) \<longleftrightarrow> (\<exists>b. previous (ic_IfName c) = Some b \<and> usable fl t b c \<and> lm = reported fl t b c)" for c
    by (cases "previous (ic_IfName c)") (auto simp: rate_of_def)
  then show ?thesis
    by auto
qed

lemma rated_iff:
  assumes "distinct (map ic_IfName cs)" "c \<in> set cs"
  shows "ic_IfName c \<in> lm_IfName ` set (concat (map (rate_of fl previous t) cs)) \<longleftrightarrow>
    (\<exists>b. previous (ic_IfName c) = Some b \<and> usable fl t b c)"
proof
  assume "ic_IfName c \<in> lm_IfName ` set (concat (map (rate_of fl previous t) cs))"
  then obtain c' b where c': "c' \<in> set cs" "previous (ic_IfName c') = Some b" "usable fl t b c'" "ic_IfName c = lm_IfName (reported fl t b c')"
    unfolding image_iff Bex_def in_rates by blast
  then have "c' = c"
    using assms by (simp add: reported_def distinct_map inj_on_def)
  then show "\<exists>b. previous (ic_IfName c) = Some b \<and> usable fl t b c"
    using c' by blast
next
  assume "\<exists>b. previous (ic_IfName c) = Some b \<and> usable fl t b c"
  then obtain b where "reported fl t b c \<in> set (concat (map (rate_of fl previous t) cs))"
    using assms(2) in_rates by blast
  moreover have "ic_IfName c = lm_IfName (reported fl t b c)"
    by (simp add: reported_def)
  ultimately show "ic_IfName c \<in> lm_IfName ` set (concat (map (rate_of fl previous t) cs))"
    by (rule rev_image_eqI)
qed

lemma usable_rates:
  assumes "rounding fl" "usable fl t b c"
  shows "\<exists>tx rx. lm_TxBps (reported fl t b c) = Some (Fin tx) \<and> lm_RxBps (reported fl t b c) = Some (Fin rx) \<and>
    0 \<le> tx \<and> tx \<le> rateLimit fl (ic_SpeedBps c) \<and> 0 \<le> rx \<and> rx \<le> rateLimit fl (ic_SpeedBps c)"
proof -
  have "0 \<le> Seconds fl (tSub t (cb_SampledAt b))"
    using assms by (intro Seconds_nonneg) (simp_all add: usable_def tSub_def)
  then show ?thesis
    using assms octetRate_nonneg [OF assms(1)] by (auto simp: reported_def usable_def)
qed

subsection \<open>Properties\<close>

text \<open>
  C29: Every reported rate belongs to a sampled interface with an earlier baseline that needs no
  warm-up and whose counters have not gone back, and lies between zero and the link speed with ten
  percent of tolerance. Each sampled interface gets its own sample as the next baseline, flagged for
  warm-up exactly when a usable baseline gave no rate; the other baselines are kept.
\<close>

theorem counter_rates_sound:
  assumes "rounding fl" and "distinct (map ic_IfName current)"
    and "ComputeCounterRates fl current previous t = (metrics, after_poll)"
  shows "(\<forall>lm\<in>set metrics. \<exists>c\<in>set current. \<exists>b tx rx. previous (ic_IfName c) = Some b \<and> lm_IfName lm = ic_IfName c \<and>
      \<not> cb_NeedsWarmup b \<and> cb_SampledAt b < t \<and> cb_InOctets b \<le> ic_InOctets c \<and> cb_OutOctets b \<le> ic_OutOctets c \<and>
      lm_TxBps lm = Some (Fin tx) \<and> lm_RxBps lm = Some (Fin rx) \<and>
      0 \<le> tx \<and> tx \<le> rateLimit fl (ic_SpeedBps c) \<and> 0 \<le> rx \<and> rx \<le> rateLimit fl (ic_SpeedBps c)) \<and>
    (\<forall>c\<in>set current. \<exists>b. after_poll (ic_IfName c) = Some b \<and> cb_InOctets b = ic_InOctets c \<and>
      cb_OutOctets b = ic_OutOctets c \<and> cb_SampledAt b = t \<and>
      (cb_NeedsWarmup b \<longleftrightarrow> (\<exists>p. previous (ic_IfName c) = Some p \<and> \<not> cb_NeedsWarmup p) \<and> ic_IfName c \<notin> lm_IfName ` set metrics)) \<and>
    (\<forall>n. n \<notin> ic_IfName ` set current \<longrightarrow> after_poll n = previous n)"
proof (intro conjI ballI allI impI)
  have m: "metrics = concat (map (rate_of fl previous t) current)"
    and n: "after_poll = fold (\<lambda>c m. m(ic_IfName c \<mapsto> after fl previous t c)) current previous"
    using assms(3) by (simp_all add: ComputeCounterRates_def fold_rateStep)
  {
    fix lm
    assume "lm \<in> set metrics"
    then obtain c b where c: "c \<in> set current" "previous (ic_IfName c) = Some b" "usable fl t b c" "lm = reported fl t b c"
      unfolding m in_rates by blast
    obtain tx rx where "lm_TxBps lm = Some (Fin tx)" "lm_RxBps lm = Some (Fin rx)"
      "0 \<le> tx" "tx \<le> rateLimit fl (ic_SpeedBps c)" "0 \<le> rx" "rx \<le> rateLimit fl (ic_SpeedBps c)"
      using usable_rates [OF assms(1) c(3)] c(4) by auto
    moreover have "lm_IfName lm = ic_IfName c"
      by (simp add: c(4) reported_def)
    ultimately show "\<exists>c\<in>set current. \<exists>b tx rx. previous (ic_IfName c) = Some b \<and> lm_IfName lm = ic_IfName c \<and>
      \<not> cb_NeedsWarmup b \<and> cb_SampledAt b < t \<and> cb_InOctets b \<le> ic_InOctets c \<and> cb_OutOctets b \<le> ic_OutOctets c \<and>
      lm_TxBps lm = Some (Fin tx) \<and> lm_RxBps lm = Some (Fin rx) \<and>
      0 \<le> tx \<and> tx \<le> rateLimit fl (ic_SpeedBps c) \<and> 0 \<le> rx \<and> rx \<le> rateLimit fl (ic_SpeedBps c)"
      using c by (auto simp: usable_def)
  next
    fix c
    assume c: "c \<in> set current"
    have "ic_IfName c \<in> lm_IfName ` set metrics \<longleftrightarrow> (\<exists>b. previous (ic_IfName c) = Some b \<and> usable fl t b c)"
      unfolding m using assms(2) c by (rule rated_iff)
    then show "\<exists>b. after_poll (ic_IfName c) = Some b \<and> cb_InOctets b = ic_InOctets c \<and>
      cb_OutOctets b = ic_OutOctets c \<and> cb_SampledAt b = t \<and>
      (cb_NeedsWarmup b \<longleftrightarrow> (\<exists>p. previous (ic_IfName c) = Some p \<and> \<not> cb_NeedsWarmup p) \<and> ic_IfName c \<notin> lm_IfName ` set metrics)"
      using fold_upd_in [OF assms(2) c, of "after fl previous t" previous]
      by (cases "previous (ic_IfName c)") (simp_all add: n after_def usable_def)
  next
    fix k
    assume "k \<notin> ic_IfName ` set current"
    then show "after_poll k = previous k"
      by (simp add: n fold_upd_other)
  }
qed

definition demoBaselines :: baselines where
  "demoBaselines = [''e'' \<mapsto> \<lparr> cb_InOctets = 1000, cb_OutOctets = 1000, cb_SampledAt = 0, cb_NeedsWarmup = False \<rparr>]"

definition demoCounters :: "InterfaceCounterSnapshot list" where
  "demoCounters = [\<lparr> ic_IfName = ''e'', ic_InOctets = 2000, ic_OutOctets = 1000, ic_SpeedBps = 10000 \<rparr>]"

lemma demo_rates:
  "ComputeCounterRates (\<lambda>x. x) demoCounters demoBaselines (2 * Second) =
    ([\<lparr> lm_LinkID = [], lm_DeviceID = uuid_Nil, lm_IfName = ''e'', lm_TxBps = Some (Fin 0), lm_RxBps = Some (Fin 4000),
        lm_Utilization = None, lm_CollectedAt = 2 * Second \<rparr>],
     demoBaselines(''e'' \<mapsto> \<lparr> cb_InOctets = 2000, cb_OutOctets = 1000, cb_SampledAt = 2 * Second, cb_NeedsWarmup = False \<rparr>))"
  by (simp add: ComputeCounterRates_def rateStep_def demoCounters_def demoBaselines_def Seconds_def octetRate_def rateLimit_def tSub_def Let_def)

theorem counter_rates_sound_witness:
  "length (fst (ComputeCounterRates (\<lambda>x. x) demoCounters demoBaselines (2 * Second))) = 1 \<and> 4000 \<le> rateLimit (\<lambda>x. x) 10000"
proof -
  have "rounding (\<lambda>x. x)" "distinct (map ic_IfName demoCounters)"
    by (simp_all add: rounding_def mono_def demoCounters_def)
  from counter_rates_sound [OF this demo_rates]
  show ?thesis
    unfolding demo_rates by (auto simp: demoCounters_def)
qed

end
