(* ===== verification/Probe_Ports.thy ===== *)
theory Probe_Ports
  imports Go_Stdlib
begin

text \<open>
  Network probe ports (\<open>internal/domain/probe_ports.go\<close>): validation, the comma-separated storage
  format, and the choice between address, device and global lists.
\<close>

datatype ProbePortError = PortOutOfRange int | EmptyPortValue | PortNotInteger string

definition DefaultNetworkProbePorts :: "int list" where
  "DefaultNetworkProbePorts = [22, 8291, 80, 443]"

text \<open>The loop over the ports; the set \<open>seen\<close> holds the members of \<open>normalized\<close>.\<close>

fun normalizePorts :: "int list \<Rightarrow> int list \<Rightarrow> ProbePortError + int list" where
  "normalizePorts [] normalized = Inr normalized"
| "normalizePorts (port # ports) normalized =
     (if port < 1 \<or> port > 65535 then Inl (PortOutOfRange port)
      else if port \<in> set normalized then normalizePorts ports normalized
      else normalizePorts ports (normalized @ [port]))"

definition NormalizeProbePorts :: "int list \<Rightarrow> ProbePortError + int list" where
  "NormalizeProbePorts ports = (if ports = [] then Inr [] else normalizePorts ports [])"

text \<open>\<open>strings.Split\<close> at a one-byte separator: the parts between the separators, at least one.\<close>

fun splitAt :: "char \<Rightarrow> string \<Rightarrow> string list" where
  "splitAt sep [] = [[]]"
| "splitAt sep (c # s) =
     (if c = sep then [] # splitAt sep s
      else case splitAt sep s of [] \<Rightarrow> [[c]] | p # ps \<Rightarrow> (c # p) # ps)"

fun parsePortTokens :: "string list \<Rightarrow> int list \<Rightarrow> ProbePortError + int list" where
  "parsePortTokens [] ports = Inr ports"
| "parsePortTokens (token # tokens) ports =
     (let token = TrimSpace token
      in if token = [] then Inl EmptyPortValue
         else case Atoi token of
                None \<Rightarrow> Inl (PortNotInteger token)
              | Some port \<Rightarrow> parsePortTokens tokens (ports @ [port]))"

definition ParseProbePortsCSV :: "string \<Rightarrow> ProbePortError + int list" where
  "ParseProbePortsCSV value =
     (let trimmed = TrimSpace value
      in if trimmed = [] then Inr []
         else case parsePortTokens (splitAt (CHR '','') trimmed) [] of
                Inl err \<Rightarrow> Inl err
              | Inr ports \<Rightarrow> NormalizeProbePorts ports)"

definition FormatProbePortsCSV :: "int list \<Rightarrow> string" where
  "FormatProbePortsCSV ports =
     (case NormalizeProbePorts ports of
        Inl err \<Rightarrow> []
      | Inr normalized \<Rightarrow> if normalized = [] then [] else joinWith '','' (map Itoa normalized))"

fun firstValidPorts :: "int list list \<Rightarrow> int list" where
  "firstValidPorts [] = DefaultNetworkProbePorts"
| "firstValidPorts (ports # rest) =
     (case NormalizeProbePorts ports of
        Inl err \<Rightarrow> firstValidPorts rest
      | Inr normalized \<Rightarrow> if normalized = [] then firstValidPorts rest else normalized)"

definition ResolveProbePorts :: "int list \<Rightarrow> int list \<Rightarrow> int list \<Rightarrow> int list" where
  "ResolveProbePorts addressPorts devicePorts globalPorts =
     firstValidPorts [addressPorts, devicePorts, globalPorts]"

definition CoerceNetworkProbePortsCSV :: "string \<Rightarrow> int list" where
  "CoerceNetworkProbePortsCSV value =
     (case ParseProbePortsCSV value of
        Inl err \<Rightarrow> DefaultNetworkProbePorts
      | Inr ports \<Rightarrow> if ports = [] then DefaultNetworkProbePorts else ports)"

subsection \<open>Normalised lists\<close>

abbreviation valid_port :: "int \<Rightarrow> bool" where
  "valid_port p \<equiv> 1 \<le> p \<and> p \<le> 65535"

definition ports_ok :: "int list \<Rightarrow> bool" where
  "ports_ok ps \<longleftrightarrow> distinct ps \<and> list_all valid_port ps"

lemma normalizePorts_ok:
  "normalizePorts ports acc = Inr ps \<Longrightarrow> ports_ok acc \<Longrightarrow> ports_ok ps \<and> set ps = set acc \<union> set ports"
  by (induction ports acc rule: normalizePorts.induct) (auto simp: ports_ok_def split: if_splits)

lemma NormalizeProbePorts_ok: "NormalizeProbePorts ports = Inr ps \<Longrightarrow> ports_ok ps \<and> set ps = set ports"
  using normalizePorts_ok [of ports "[]" ps] by (auto simp: NormalizeProbePorts_def ports_ok_def split: if_splits)

lemma normalizePorts_id:
  "ports_ok (acc @ ps) \<Longrightarrow> normalizePorts ps acc = Inr (acc @ ps)"
  by (induction ps arbitrary: acc) (auto simp: ports_ok_def)

lemma NormalizeProbePorts_id: "ports_ok ps \<Longrightarrow> NormalizeProbePorts ps = Inr ps"
  using normalizePorts_id [of "[]" ps] by (simp add: NormalizeProbePorts_def)

lemma remdups_snoc: "remdups (xs @ [x]) = filter (\<lambda>y. y \<noteq> x) (remdups xs) @ [x]"
  by (induction xs) auto

lemma normalizePorts_first_seen:
  "list_all valid_port ports \<Longrightarrow>
    normalizePorts ports acc = Inr (acc @ filter (\<lambda>p. p \<notin> set acc) (rev (remdups (rev ports))))"
proof (induction ports arbitrary: acc)
  case Nil
  then show ?case by simp
next
  case (Cons p ports)
  have rd: "rev (remdups (rev (p # ports))) = p # filter (\<lambda>q. q \<noteq> p) (rev (remdups (rev ports)))"
    by (simp add: remdups_snoc rev_filter)
  show ?case
  proof (cases "p \<in> set acc")
    case True
    then have "filter (\<lambda>q. q \<notin> set acc) (filter (\<lambda>q. q \<noteq> p) xs) = filter (\<lambda>q. q \<notin> set acc) xs" for xs
      by (auto simp: filter_filter intro!: filter_cong)
    then show ?thesis
      using True Cons by (simp only: rd) simp
  next
    case False
    then show ?thesis
      using Cons by (simp only: rd) (simp add: filter_filter conj_commute)
  qed
qed

lemma NormalizeProbePorts_first_seen:
  "list_all valid_port ports \<Longrightarrow> NormalizeProbePorts ports = Inr (rev (remdups (rev ports)))"
  using normalizePorts_first_seen [of ports "[]"] by (simp add: NormalizeProbePorts_def)

lemma firstValidPorts_ok: "ports_ok (firstValidPorts pss) \<and> firstValidPorts pss \<noteq> []"
  by (induction pss rule: firstValidPorts.induct)
    (auto simp: ports_ok_def DefaultNetworkProbePorts_def dest: NormalizeProbePorts_ok split: sum.splits)

lemma ParseProbePortsCSV_ok: "ParseProbePortsCSV value = Inr ps \<Longrightarrow> ports_ok ps"
  by (auto simp: ParseProbePortsCSV_def Let_def ports_ok_def dest: NormalizeProbePorts_ok split: if_splits sum.splits)

subsection \<open>The storage format\<close>

lemma splitAt_none: "sep \<notin> set s \<Longrightarrow> splitAt sep s = [s]"
  by (induction s) auto

lemma splitAt_append: "sep \<notin> set s \<Longrightarrow> splitAt sep (s @ sep # t) = s # splitAt sep t"
  by (induction s) auto

lemma splitAt_joinWith:
  "ps \<noteq> [] \<Longrightarrow> \<forall>p\<in>set ps. sep \<notin> set p \<Longrightarrow> splitAt sep (joinWith [sep] ps) = ps"
  by (induction "[sep]" ps rule: joinWith.induct) (simp_all add: splitAt_none splitAt_append)

lemma Itoa_chars: "c \<in> set (Itoa n) \<Longrightarrow> is_digit c \<or> c = CHR ''-''"
  using nat_str_digits [of "nat n"] nat_str_digits [of "nat (- n)"]
  by (auto simp: Itoa_def list_all_iff split: if_splits)

lemma Itoa_no_comma: "CHR '','' \<notin> set (Itoa n)"
  using Itoa_chars [of "CHR '',''" n] by (auto simp: is_digit_def)

lemma Itoa_nonempty: "Itoa n \<noteq> []"
  using nat_str_digits [of "nat n"] by (auto simp: Itoa_def)

lemma Itoa_plain: "c \<in> set (Itoa n) \<Longrightarrow> plain_char c"
  using Itoa_chars [of c n] by (auto simp: plain_digit plain_minus)

lemma joinWith_plain:
  "ns \<noteq> [] \<Longrightarrow> joinWith '','' (map Itoa ns) \<noteq> [] \<and>
    plain_char (hd (joinWith '','' (map Itoa ns))) \<and> plain_char (last (joinWith '','' (map Itoa ns)))"
proof (induction ns rule: induct_list012)
  case 1
  then show ?case by simp
next
  case (2 n)
  then show ?case
    using Itoa_plain [of _ n] Itoa_nonempty [of n] by simp
next
  case (3 m n ns)
  then show ?case
    using Itoa_plain [of _ m] Itoa_nonempty [of m] by (simp add: hd_append)
qed

lemma parsePortTokens_Itoa:
  "list_all valid_port ps \<Longrightarrow> parsePortTokens (map Itoa ps) acc = Inr (acc @ ps)"
proof (induction ps arbitrary: acc)
  case Nil
  then show ?case by simp
next
  case (Cons p ps)
  have "Atoi (Itoa p) = Some p"
    using Cons.prems by (intro Atoi_Itoa) (simp add: int64_range_def)
  then show ?case
    using Cons by (simp add: TrimSpace_Itoa Itoa_nonempty Let_def)
qed

lemma parse_format: "ports_ok ps \<Longrightarrow> ParseProbePortsCSV (FormatProbePortsCSV ps) = Inr ps"
proof (cases "ps = []")
  case True
  then show ?thesis
    by (simp add: FormatProbePortsCSV_def NormalizeProbePorts_def ParseProbePortsCSV_def)
next
  case False
  assume ok: "ports_ok ps"
  let ?s = "joinWith '','' (map Itoa ps)"
  have f: "FormatProbePortsCSV ps = ?s"
    using False ok by (simp add: FormatProbePortsCSV_def NormalizeProbePorts_id)
  have s: "TrimSpace ?s = ?s" "?s \<noteq> []"
    using joinWith_plain [OF False] TrimSpace_id by auto
  have "splitAt (CHR '','') ?s = map Itoa ps"
    using False Itoa_no_comma by (intro splitAt_joinWith) auto
  then show ?thesis
    using s ok parsePortTokens_Itoa [of ps "[]"]
    by (simp add: f ParseProbePortsCSV_def Let_def NormalizeProbePorts_id ports_ok_def)
qed

subsection \<open>Properties\<close>

text \<open>
  C32: A list of valid ports is normalised to its first occurrences, in their order, and that is
  what is read back after storing it.
\<close>

theorem probe_ports_roundtrip:
  assumes "list_all (\<lambda>p. 1 \<le> p \<and> p \<le> 65535) ports"
  shows "NormalizeProbePorts ports = Inr (rev (remdups (rev ports))) \<and>
    ParseProbePortsCSV (FormatProbePortsCSV ports) = Inr (rev (remdups (rev ports)))"
proof -
  let ?ps = "rev (remdups (rev ports))"
  have ps: "NormalizeProbePorts ports = Inr ?ps"
    using assms by (rule NormalizeProbePorts_first_seen)
  then have ok: "ports_ok ?ps"
    using NormalizeProbePorts_ok by blast
  have "FormatProbePortsCSV ports = FormatProbePortsCSV ?ps"
    using ps NormalizeProbePorts_id [OF ok] by (simp add: FormatProbePortsCSV_def)
  then show ?thesis
    using ps parse_format [OF ok] by simp
qed

theorem probe_ports_roundtrip_witness:
  "ParseProbePortsCSV (FormatProbePortsCSV [443, 22, 443]) = Inr [443, 22]"
  using probe_ports_roundtrip [of "[443, 22, 443]"] by simp

text \<open>
  C33: Whatever is configured, the ports a probe uses form a non-empty list of distinct port
  numbers between 1 and 65535; so do the ports read from storage.
\<close>

theorem probe_ports_well_formed:
  "ResolveProbePorts a d g \<noteq> [] \<and> distinct (ResolveProbePorts a d g) \<and>
   set (ResolveProbePorts a d g) \<subseteq> {1..65535} \<and>
   CoerceNetworkProbePortsCSV value \<noteq> [] \<and> distinct (CoerceNetworkProbePortsCSV value) \<and>
   set (CoerceNetworkProbePortsCSV value) \<subseteq> {1..65535}"
proof -
  have "ports_ok (CoerceNetworkProbePortsCSV value) \<and> CoerceNetworkProbePortsCSV value \<noteq> []"
    using ParseProbePortsCSV_ok firstValidPorts_ok [of "[]"]
    by (auto simp: CoerceNetworkProbePortsCSV_def split: sum.splits)
  then show ?thesis
    using firstValidPorts_ok [of "[a, d, g]"] by (auto simp: ResolveProbePorts_def ports_ok_def list_all_iff)
qed

end
