(* ===== verification/Rate_Limiter.thy ===== *)
theory Rate_Limiter
  imports Prelude
begin

text \<open>
  The fixed-window limiter of bridge requests (\<open>internal/api/bridge_rate_limiter.go\<close>). A call is
  atomic: the mutex is held throughout. The clock reading of a call is its argument \<open>now\<close>.
\<close>

record bridgeRateLimitBucket =
  rb_count :: int
  rb_windowEnds :: gotime

record bridgeRateLimiter =
  rl_limit :: int
  rl_window :: duration
  rl_attempts :: "string \<rightharpoonup> bridgeRateLimitBucket"

definition newBridgeRateLimiter :: "int \<Rightarrow> duration \<Rightarrow> bridgeRateLimiter" where
  "newBridgeRateLimiter limit window =
     \<lparr> rl_limit = (if limit \<le> 0 then 20 else limit),
       rl_window = (if window \<le> 0 then 60 * Second else window),
       rl_attempts = Map.empty \<rparr>"

definition evictExpiredLocked :: "gotime \<Rightarrow> bridgeRateLimiter \<Rightarrow> bridgeRateLimiter" where
  "evictExpiredLocked now l =
     l\<lparr> rl_attempts := (\<lambda>key. case rl_attempts l key of
          None \<Rightarrow> None
        | Some b \<Rightarrow> if IsZero (rb_windowEnds b) \<or> \<not> tBefore now (rb_windowEnds b) then None else Some b) \<rparr>"

definition bridge_allow :: "gotime \<Rightarrow> string \<Rightarrow> bridgeRateLimiter \<Rightarrow> bool \<times> bridgeRateLimiter" where
  "bridge_allow now key l =
     (let l = evictExpiredLocked now l
      in case rl_attempts l key of
           None \<Rightarrow>
             (True, l\<lparr> rl_attempts := (rl_attempts l)(key \<mapsto>
                \<lparr> rb_count = 1, rb_windowEnds = tAdd now (rl_window l) \<rparr>) \<rparr>)
         | Some bucket \<Rightarrow>
             if rb_count bucket \<ge> rl_limit l then (False, l)
             else (True, l\<lparr> rl_attempts := (rl_attempts l)(key \<mapsto> bucket\<lparr> rb_count := rb_count bucket + 1 \<rparr>) \<rparr>))"

text \<open>A sequence of calls, each with its clock reading and key, and the answers.\<close>

type_synonym bridge_call = "gotime \<times> string"

fun allow_run :: "bridge_call list \<Rightarrow> bridgeRateLimiter \<Rightarrow> bool list \<times> bridgeRateLimiter" where
  "allow_run [] l = ([], l)"
| "allow_run ((now, key) # calls) l =
     (let (ok, l) = bridge_allow now key l; (oks, l) = allow_run calls l in (ok # oks, l))"

definition calls_of :: "string \<Rightarrow> bridge_call list \<Rightarrow> nat" where
  "calls_of key calls = length (filter (\<lambda>(_, k). k = key) calls)"

definition allowed_of :: "string \<Rightarrow> bridge_call list \<Rightarrow> bridgeRateLimiter \<Rightarrow> nat" where
  "allowed_of key calls l =
     length (filter (\<lambda>((_, k), ok). k = key \<and> ok) (zip calls (fst (allow_run calls l))))"

lemma evict_frame [simp]:
  "rl_limit (evictExpiredLocked now l) = rl_limit l" "rl_window (evictExpiredLocked now l) = rl_window l"
  by (simp_all add: evictExpiredLocked_def)

lemma allow_frame:
  "bridge_allow now key l = (ok, l') \<Longrightarrow> rl_limit l' = rl_limit l \<and> rl_window l' = rl_window l"
  by (auto simp: bridge_allow_def Let_def split: option.splits if_splits)

lemma allow_run_frame:
  "rl_limit (snd (allow_run calls l)) = rl_limit l \<and> rl_window (snd (allow_run calls l)) = rl_window l"
proof (induction calls l rule: allow_run.induct)
  case (1 l)
  then show ?case by simp
next
  case (2 now key calls l)
  obtain ok l' where "bridge_allow now key l = (ok, l')"
    by (meson surj_pair)
  then show ?case
    using 2 allow_frame by (auto simp: Let_def split: prod.splits)
qed

text \<open>The bucket of a key whose window is open until \<open>ends\<close> after \<open>n\<close> attempts were let through.\<close>

definition open_window :: "string \<Rightarrow> gotime \<Rightarrow> int \<Rightarrow> bridgeRateLimiter \<Rightarrow> bool" where
  "open_window key ends n l \<longleftrightarrow> rl_attempts l key = Some \<lparr> rb_count = n, rb_windowEnds = ends \<rparr>"

lemma allow_other:
  assumes "open_window key ends n l" "now < ends" "ends \<noteq> 0" "k \<noteq> key" "bridge_allow now k l = (ok, l')"
  shows "open_window key ends n l'"
  using assms
  by (auto simp: open_window_def bridge_allow_def evictExpiredLocked_def Let_def tBefore_def IsZero_def
      split: option.splits if_splits)

lemma allow_open:
  assumes "open_window key ends n l" "now < ends" "ends \<noteq> 0"
  shows "if n < rl_limit l then fst (bridge_allow now key l) \<and> open_window key ends (n + 1) (snd (bridge_allow now key l))
    else \<not> fst (bridge_allow now key l) \<and> open_window key ends n (snd (bridge_allow now key l))"
  using assms
  by (simp add: open_window_def bridge_allow_def evictExpiredLocked_def Let_def tBefore_def IsZero_def)

lemma open_window_run:
  assumes "ends \<noteq> 0" "\<forall>(t, _)\<in>set calls. t < ends" "open_window key ends n l" "0 \<le> n" "n \<le> rl_limit l"
  shows "int (allowed_of key calls l) = min (int (calls_of key calls)) (rl_limit l - n)"
  using assms
proof (induction calls arbitrary: n l)
  case Nil
  then show ?case by (simp add: allowed_of_def calls_of_def)
next
  case (Cons c calls)
  obtain now k where c: "c = (now, k)"
    by (cases c)
  obtain ok l' where a: "bridge_allow now k l = (ok, l')"
    by (meson surj_pair)
  have lim: "rl_limit l' = rl_limit l"
    using allow_frame [OF a] by simp
  have t: "now < ends" "\<forall>(t, _)\<in>set calls. t < ends"
    using Cons.prems(2) by (auto simp: c)
  have run: "allowed_of key ((now, k) # calls) l = (if k = key \<and> ok then 1 else 0) + allowed_of key calls l'"
    by (simp add: allowed_of_def a Let_def split: prod.splits)
  show ?case
  proof (cases "k = key")
    case True
    then show ?thesis
      using allow_open [OF Cons.prems(3) t(1) Cons.prems(1)] Cons.IH [of "n + 1" l'] Cons.IH [of n l'] Cons.prems t(2) lim
        run a unfolding c True
      by (cases "n < rl_limit l") (simp_all add: calls_of_def)
  next
    case False
    then show ?thesis
      using allow_other [OF Cons.prems(3) t(1) Cons.prems(1) False a] Cons.IH [of n l'] Cons.prems t(2) lim
      by (simp add: run c calls_of_def)
  qed
qed

lemma allow_opens:
  assumes "\<And>b. rl_attempts l key = Some b \<Longrightarrow> rb_windowEnds b \<le> now"
  shows "bridge_allow now key l = (True, (evictExpiredLocked now l)\<lparr> rl_attempts :=
    (rl_attempts (evictExpiredLocked now l))(key \<mapsto> \<lparr> rb_count = 1, rb_windowEnds = now + rl_window l \<rparr>) \<rparr>)"
proof -
  have "rl_attempts (evictExpiredLocked now l) key = None"
    using assms by (auto simp: evictExpiredLocked_def tBefore_def split: option.splits)
  then show ?thesis
    by (simp add: bridge_allow_def Let_def tAdd_def)
qed

subsection \<open>Properties\<close>

text \<open>
  C31: From the first request of a client after its last window ended, and as long as the new
  window lasts, the limiter lets through exactly the first \<open>limit\<close> requests of that client,
  whatever other clients do; the first one is always let through.
\<close>

theorem window_admits_exactly_limit:
  assumes "\<And>b. rl_attempts l key = Some b \<Longrightarrow> rb_windowEnds b \<le> t0" and "0 \<le> t0" and "0 < rl_window l"
    and "1 \<le> rl_limit l" and "\<forall>(t, _)\<in>set calls. t < t0 + rl_window l"
  shows "fst (bridge_allow t0 key l) \<and>
    int (allowed_of key ((t0, key) # calls) l) = min (int (calls_of key ((t0, key) # calls))) (rl_limit l)"
proof -
  obtain l' where a: "bridge_allow t0 key l = (True, l')" and w: "open_window key (t0 + rl_window l) 1 l'"
    using allow_opens [of l key t0, OF assms(1)] by (simp add: open_window_def)
  have "rl_limit l' = rl_limit l"
    using allow_frame [OF a] by simp
  then have "int (allowed_of key calls l') = min (int (calls_of key calls)) (rl_limit l - 1)"
    using open_window_run [OF _ assms(5) w] assms(2-4) by simp
  moreover have "allowed_of key ((t0, key) # calls) l = 1 + allowed_of key calls l'"
    by (simp add: allowed_of_def a Let_def split: prod.splits)
  ultimately show ?thesis
    by (simp add: a calls_of_def)
qed

theorem window_admits_exactly_limit_witness:
  "allowed_of ''c'' [(0, ''c''), (1, ''c''), (2, ''d''), (3, ''c'')] (newBridgeRateLimiter 2 10) = 2"
  using window_admits_exactly_limit [of "newBridgeRateLimiter 2 10" "''c''" 0 "[(1, ''c''), (2, ''d''), (3, ''c'')]"]
  by (simp add: newBridgeRateLimiter_def calls_of_def)

end
