(* ===== verification/Work_Admission.thy ===== *)
theory Work_Admission
  imports Device_Domain
begin

text \<open>
  Admission of costly work (\<open>internal/service/work_admission.go\<close>): the semaphores of password
  hashing and manual backups, and the per-device backup locks with their reference counts. A lock
  is an object reached through the map or through a goroutine that holds its pointer, so locks are
  cells of a memory. Goroutines are interleaved at every statement that another one can observe.
\<close>

subsection \<open>Semaphores\<close>

datatype AdmissionError = ContextDone | ErrRuntimeBusy

definition defaultPasswordConcurrency :: int where "defaultPasswordConcurrency = 4"

text \<open>
  The channel is made by the first call (\<open>sync.Once\<close>): \<open>None\<close> before, then its capacity and the
  number of tokens in it.
\<close>

record AuthService =
  as_passwordConcurrency :: int
  as_passwordAdmission :: "(nat \<times> nat) option"

definition passwordChannel :: "AuthService \<Rightarrow> nat \<times> nat" where
  "passwordChannel s =
     (case as_passwordAdmission s of
        Some ch \<Rightarrow> ch
      | None \<Rightarrow> (nat (if as_passwordConcurrency s \<le> 0 then defaultPasswordConcurrency else as_passwordConcurrency s), 0))"

definition admitPasswordWork :: "bool \<Rightarrow> AuthService \<Rightarrow> AuthService \<times> (AdmissionError + unit)" where
  "admitPasswordWork ctxDone s =
     (if ctxDone then (s, Inl ContextDone)
      else let (cap, used) = passwordChannel s
           in if used < cap then (s\<lparr> as_passwordAdmission := Some (cap, used + 1) \<rparr>, Inr ())
              else (s\<lparr> as_passwordAdmission := Some (cap, used) \<rparr>, Inl ErrRuntimeBusy))"

definition releasePasswordWork :: "AuthService \<Rightarrow> AuthService" where
  "releasePasswordWork s = (let (cap, used) = passwordChannel s in s\<lparr> as_passwordAdmission := Some (cap, used - 1) \<rparr>)"

text \<open>The backup channel always has the same capacity; the state is the number of tokens in it.\<close>

definition defaultBulkBackupWorkerCount :: nat where "defaultBulkBackupWorkerCount = 4"

definition admitManualBackup :: "bool \<Rightarrow> nat \<Rightarrow> nat \<times> (AdmissionError + unit)" where
  "admitManualBackup ctxDone used =
     (if ctxDone then (used, Inl ContextDone)
      else if used < defaultBulkBackupWorkerCount then (used + 1, Inr ())
      else (used, Inl ErrRuntimeBusy))"

lemma admitManualBackup_bound:
  "used \<le> defaultBulkBackupWorkerCount \<Longrightarrow> fst (admitManualBackup ctxDone used) \<le> defaultBulkBackupWorkerCount"
  by (simp add: admitManualBackup_def)

lemma passwordChannel_set [simp]: "passwordChannel (s\<lparr> as_passwordAdmission := Some ch \<rparr>) = ch"
  by (simp add: passwordChannel_def)

text \<open>Tokens in the channel stand for admitted work that has not been released.\<close>

definition password_ok :: "nat \<Rightarrow> AuthService \<Rightarrow> bool" where
  "password_ok held s \<longleftrightarrow> snd (passwordChannel s) = held \<and> held \<le> fst (passwordChannel s)"

lemma admitPasswordWork_ok:
  assumes "password_ok held s"
  shows "case admitPasswordWork ctxDone s of
      (s', Inr _) \<Rightarrow> password_ok (held + 1) s' \<and> held < fst (passwordChannel s)
    | (s', Inl err) \<Rightarrow> password_ok held s' \<and> (err = ErrRuntimeBusy \<longleftrightarrow> \<not> ctxDone) \<and>
        (err = ErrRuntimeBusy \<longrightarrow> held = fst (passwordChannel s))"
  using assms by (cases "passwordChannel s") (auto simp: admitPasswordWork_def password_ok_def Let_def)

lemma releasePasswordWork_ok: "password_ok (held + 1) s \<Longrightarrow> password_ok held (releasePasswordWork s)"
  by (cases "passwordChannel s") (auto simp: releasePasswordWork_def password_ok_def Let_def)

subsection \<open>Device locks\<close>

type_synonym lock_ref = nat

record backupDeviceLock =
  bl_slot :: bool
  bl_references :: int

record BackupService =
  bs_deviceLocks :: "uuid \<rightharpoonup> lock_ref"
  bs_mem :: "lock_ref \<Rightarrow> backupDeviceLock"
  bs_fresh :: lock_ref

definition newBackupService :: BackupService where
  "newBackupService =
     \<lparr> bs_deviceLocks = Map.empty, bs_mem = (\<lambda>_. \<lparr> bl_slot = False, bl_references = 0 \<rparr>), bs_fresh = 0 \<rparr>"

definition updLock :: "lock_ref \<Rightarrow> (backupDeviceLock \<Rightarrow> backupDeviceLock) \<Rightarrow> BackupService \<Rightarrow> BackupService" where
  "updLock r g s = s\<lparr> bs_mem := (bs_mem s)(r := g (bs_mem s r)) \<rparr>"

text \<open>The section under \<open>deviceLocksMu\<close>: find or make the lock and count the reference.\<close>

definition lockEnter :: "uuid \<Rightarrow> BackupService \<Rightarrow> BackupService \<times> lock_ref" where
  "lockEnter i s =
     (let (s, r) =
        (case bs_deviceLocks s i of
           Some r \<Rightarrow> (s, r)
         | None \<Rightarrow>
             (s\<lparr> bs_mem := (bs_mem s)(bs_fresh s := \<lparr> bl_slot = False, bl_references = 0 \<rparr>),
                 bs_fresh := bs_fresh s + 1, bs_deviceLocks := (bs_deviceLocks s)(i \<mapsto> bs_fresh s) \<rparr>, bs_fresh s))
      in (updLock r (\<lambda>l. l\<lparr> bl_references := bl_references l + 1 \<rparr>) s, r))"

definition lockDrop :: "uuid \<Rightarrow> lock_ref \<Rightarrow> BackupService \<Rightarrow> BackupService" where
  "lockDrop i r s =
     (let s = updLock r (\<lambda>l. l\<lparr> bl_references := bl_references l - 1 \<rparr>) s
      in if bl_references (bs_mem s r) = 0 then s\<lparr> bs_deviceLocks := (bs_deviceLocks s)(i := None) \<rparr> else s)"

text \<open>
  Where a call of \<open>lockBackupDevice\<close> stands: waiting in the \<open>select\<close>, holding the slot, slot given
  back but \<open>drop\<close> to come, or cancelled with \<open>drop\<close> to come.
\<close>

datatype LockPhase = LockWaiting | LockHolding | LockReleased | LockCancelled

record LockThread =
  lt_id :: uuid
  lt_ref :: lock_ref
  lt_phase :: LockPhase

record LockSystem =
  ls_service :: BackupService
  ls_threads :: "LockThread list"

inductive lock_step :: "LockSystem \<Rightarrow> LockSystem \<Rightarrow> bool" where
  lock_enter: "lockEnter i (ls_service s) = (b, r) \<Longrightarrow>
    lock_step s \<lparr> ls_service = b, ls_threads = ls_threads s @ [\<lparr> lt_id = i, lt_ref = r, lt_phase = LockWaiting \<rparr>] \<rparr>"
| lock_acquire: "ls_threads s = xs @ t # ys \<Longrightarrow> lt_phase t = LockWaiting \<Longrightarrow>
    \<not> bl_slot (bs_mem (ls_service s) (lt_ref t)) \<Longrightarrow>
    lock_step s \<lparr> ls_service = updLock (lt_ref t) (\<lambda>l. l\<lparr> bl_slot := True \<rparr>) (ls_service s),
                  ls_threads = xs @ t\<lparr> lt_phase := LockHolding \<rparr> # ys \<rparr>"
| lock_cancel: "ls_threads s = xs @ t # ys \<Longrightarrow> lt_phase t = LockWaiting \<Longrightarrow>
    lock_step s \<lparr> ls_service = ls_service s, ls_threads = xs @ t\<lparr> lt_phase := LockCancelled \<rparr> # ys \<rparr>"
| lock_release: "ls_threads s = xs @ t # ys \<Longrightarrow> lt_phase t = LockHolding \<Longrightarrow>
    lock_step s \<lparr> ls_service = updLock (lt_ref t) (\<lambda>l. l\<lparr> bl_slot := False \<rparr>) (ls_service s),
                  ls_threads = xs @ t\<lparr> lt_phase := LockReleased \<rparr> # ys \<rparr>"
| lock_drop: "ls_threads s = xs @ t # ys \<Longrightarrow> lt_phase t = LockReleased \<or> lt_phase t = LockCancelled \<Longrightarrow>
    lock_step s \<lparr> ls_service = lockDrop (lt_id t) (lt_ref t) (ls_service s), ls_threads = xs @ ys \<rparr>"

inductive lock_reachable :: "LockSystem \<Rightarrow> bool" where
  lock_start: "lock_reachable \<lparr> ls_service = newBackupService, ls_threads = [] \<rparr>"
| lock_next: "lock_reachable s \<Longrightarrow> lock_step s s' \<Longrightarrow> lock_reachable s'"

subsection \<open>The lock invariant\<close>

definition refs_of :: "lock_ref \<Rightarrow> LockThread list \<Rightarrow> nat" where
  "refs_of r ts = length (filter (\<lambda>t. lt_ref t = r) ts)"

definition holders_of :: "lock_ref \<Rightarrow> LockThread list \<Rightarrow> nat" where
  "holders_of r ts = length (filter (\<lambda>t. lt_ref t = r \<and> lt_phase t = LockHolding) ts)"

lemma refs_of_simps [simp]:
  "refs_of r [] = 0" "refs_of r (t # ts) = (if lt_ref t = r then 1 else 0) + refs_of r ts"
  "refs_of r (xs @ ys) = refs_of r xs + refs_of r ys"
  by (simp_all add: refs_of_def)

lemma holders_of_simps [simp]:
  "holders_of r [] = 0"
  "holders_of r (t # ts) = (if lt_ref t = r \<and> lt_phase t = LockHolding then 1 else 0) + holders_of r ts"
  "holders_of r (xs @ ys) = holders_of r xs + holders_of r ys"
  by (simp_all add: holders_of_def)

lemma refs_of_pos: "0 < refs_of r ts \<longleftrightarrow> (\<exists>t\<in>set ts. lt_ref t = r)"
  by (auto simp: refs_of_def filter_empty_conv)

text \<open>
  A thread's lock is the one in the map under its device; an entry is counted exactly as often as
  threads refer to it, and at least once; its slot is taken exactly when one thread holds it.
\<close>

definition entry_ok :: "BackupService \<Rightarrow> LockThread list \<Rightarrow> lock_ref \<Rightarrow> bool" where
  "entry_ok b ts r \<longleftrightarrow>
     r < bs_fresh b \<and> 0 < refs_of r ts \<and> bl_references (bs_mem b r) = int (refs_of r ts) \<and>
     holders_of r ts = (if bl_slot (bs_mem b r) then 1 else 0)"

definition lock_inv :: "LockSystem \<Rightarrow> bool" where
  "lock_inv s \<longleftrightarrow>
     (\<forall>t\<in>set (ls_threads s). bs_deviceLocks (ls_service s) (lt_id t) = Some (lt_ref t)) \<and>
     (\<forall>i r. bs_deviceLocks (ls_service s) i = Some r \<longrightarrow> entry_ok (ls_service s) (ls_threads s) r) \<and>
     (\<forall>i j r. bs_deviceLocks (ls_service s) i = Some r \<longrightarrow> bs_deviceLocks (ls_service s) j = Some r \<longrightarrow> i = j)"

lemma lock_invI:
  assumes "\<And>t. t \<in> set ts \<Longrightarrow> bs_deviceLocks b (lt_id t) = Some (lt_ref t)"
    and "\<And>i r. bs_deviceLocks b i = Some r \<Longrightarrow> entry_ok b ts r"
    and "\<And>i j r. bs_deviceLocks b i = Some r \<Longrightarrow> bs_deviceLocks b j = Some r \<Longrightarrow> i = j"
  shows "lock_inv \<lparr> ls_service = b, ls_threads = ts \<rparr>"
  unfolding lock_inv_def using assms by (metis LockSystem.select_convs)

lemma lock_inv_start: "lock_inv \<lparr> ls_service = newBackupService, ls_threads = [] \<rparr>"
  by (simp add: lock_inv_def newBackupService_def)

lemma lock_inv_locks:
  assumes "lock_inv s" "t \<in> set (ls_threads s)"
  shows "bs_deviceLocks (ls_service s) (lt_id t) = Some (lt_ref t)"
  using assms by (simp add: lock_inv_def)

lemma lock_inv_entry:
  "lock_inv s \<Longrightarrow> bs_deviceLocks (ls_service s) i = Some r \<Longrightarrow> entry_ok (ls_service s) (ls_threads s) r"
  unfolding lock_inv_def by blast

lemma lock_inv_inj:
  assumes "lock_inv s" "bs_deviceLocks (ls_service s) i = Some r" "bs_deviceLocks (ls_service s) j = Some r"
  shows "i = j"
  using assms unfolding lock_inv_def by blast

lemma thread_entry:
  "lock_inv s \<Longrightarrow> t \<in> set (ls_threads s) \<Longrightarrow> entry_ok (ls_service s) (ls_threads s) (lt_ref t)"
  by (rule lock_inv_entry [OF _ lock_inv_locks])

lemma refs_of_fresh:
  assumes "lock_inv s"
  shows "refs_of (bs_fresh (ls_service s)) (ls_threads s) = 0" "holders_of (bs_fresh (ls_service s)) (ls_threads s) = 0"
proof -
  have "lt_ref t \<noteq> bs_fresh (ls_service s)" if "t \<in> set (ls_threads s)" for t
    using thread_entry [OF assms that] by (auto simp: entry_ok_def)
  then show "refs_of (bs_fresh (ls_service s)) (ls_threads s) = 0" "holders_of (bs_fresh (ls_service s)) (ls_threads s) = 0"
    by (auto simp: refs_of_def holders_of_def filter_empty_conv)
qed

lemma lock_enter_known:
  assumes inv: "lock_inv s" and q: "bs_deviceLocks (ls_service s) i = Some q"
  shows "lock_inv \<lparr> ls_service = updLock q (\<lambda>l. l\<lparr> bl_references := bl_references l + 1 \<rparr>) (ls_service s),
    ls_threads = ls_threads s @ [\<lparr> lt_id = i, lt_ref = q, lt_phase = LockWaiting \<rparr>] \<rparr>"
proof (rule lock_invI, goal_cases)
  case (1 t)
  then show ?case
    using lock_inv_locks [OF inv] q by (auto simp: updLock_def)
next
  case (2 j r)
  then show ?case
    using lock_inv_entry [OF inv, of j r] by (auto simp: updLock_def entry_ok_def)
next
  case (3 j k r)
  then show ?case
    using lock_inv_inj [OF inv, of j r k] by (simp add: updLock_def)
qed

lemma lock_enter_new:
  assumes inv: "lock_inv s" and none: "bs_deviceLocks (ls_service s) i = None"
  shows "lock_inv \<lparr> ls_service = (ls_service s)\<lparr>
      bs_fresh := bs_fresh (ls_service s) + 1,
      bs_deviceLocks := (bs_deviceLocks (ls_service s))(i \<mapsto> bs_fresh (ls_service s)),
      bs_mem := (bs_mem (ls_service s))(bs_fresh (ls_service s) := \<lparr> bl_slot = False, bl_references = 1 \<rparr>) \<rparr>,
    ls_threads = ls_threads s @ [\<lparr> lt_id = i, lt_ref = bs_fresh (ls_service s), lt_phase = LockWaiting \<rparr>] \<rparr>"
proof (rule lock_invI, goal_cases)
  case (1 t)
  then show ?case
    using lock_inv_locks [OF inv, of t] none by auto
next
  case (2 j r)
  then show ?case
    using lock_inv_entry [OF inv, of j r] refs_of_fresh [OF inv] by (cases "j = i") (auto simp: entry_ok_def)
next
  case (3 j k r)
  have "q < bs_fresh (ls_service s)" if "bs_deviceLocks (ls_service s) l = Some q" for l q
    using lock_inv_entry [OF inv that] by (simp add: entry_ok_def)
  then show ?case
    using 3 lock_inv_inj [OF inv, of j r k] by (auto split: if_splits)
qed

lemma lock_enter_inv:
  assumes inv: "lock_inv s" and e: "lockEnter i (ls_service s) = (b, r)"
  shows "lock_inv \<lparr> ls_service = b, ls_threads = ls_threads s @ [\<lparr> lt_id = i, lt_ref = r, lt_phase = LockWaiting \<rparr>] \<rparr>"
proof (cases "bs_deviceLocks (ls_service s) i")
  case (Some q)
  then show ?thesis
    using e lock_enter_known [OF inv Some] by (auto simp: lockEnter_def)
next
  case None
  then show ?thesis
    using e lock_enter_new [OF inv None] by (auto simp: lockEnter_def updLock_def)
qed

text \<open>The steps that change one thread's phase and perhaps its slot.\<close>

lemma lock_phase_inv:
  assumes inv: "lock_inv s" and ts: "ls_threads s = xs @ t # ys"
    and h: "holders_of (lt_ref t) (xs @ t\<lparr> lt_phase := p \<rparr> # ys) = (if slot then 1 else 0)"
  shows "lock_inv \<lparr> ls_service = updLock (lt_ref t) (\<lambda>l. l\<lparr> bl_slot := slot \<rparr>) (ls_service s),
                    ls_threads = xs @ t\<lparr> lt_phase := p \<rparr> # ys \<rparr>"
proof (rule lock_invI, goal_cases)
  case (1 u)
  then show ?case
    using lock_inv_locks [OF inv] by (auto simp: ts updLock_def)
next
  case (2 i r)
  then have e: "entry_ok (ls_service s) (ls_threads s) r"
    using lock_inv_entry [OF inv, of i r] by (simp add: updLock_def)
  show ?case
    using e h by (cases "r = lt_ref t") (auto simp: entry_ok_def updLock_def ts)
next
  case (3 i j r)
  then show ?case
    using lock_inv_inj [OF inv, of i r j] by (simp add: updLock_def)
qed

lemma holders_split:
  assumes "lock_inv s" "ls_threads s = xs @ t # ys"
  shows "holders_of (lt_ref t) xs + (if lt_phase t = LockHolding then 1 else 0) + holders_of (lt_ref t) ys =
    (if bl_slot (bs_mem (ls_service s) (lt_ref t)) then 1 else 0)"
  using thread_entry [of s t] assms by (simp add: entry_ok_def)

lemma lock_acquire_inv:
  assumes inv: "lock_inv s" and ts: "ls_threads s = xs @ t # ys" "lt_phase t = LockWaiting"
    and free: "\<not> bl_slot (bs_mem (ls_service s) (lt_ref t))"
  shows "lock_inv \<lparr> ls_service = updLock (lt_ref t) (\<lambda>l. l\<lparr> bl_slot := True \<rparr>) (ls_service s),
                    ls_threads = xs @ t\<lparr> lt_phase := LockHolding \<rparr> # ys \<rparr>"
  by (rule lock_phase_inv [OF inv ts(1)]) (use holders_split [OF inv ts(1)] free in simp)

lemma lock_release_inv:
  assumes inv: "lock_inv s" and ts: "ls_threads s = xs @ t # ys" "lt_phase t = LockHolding"
  shows "lock_inv \<lparr> ls_service = updLock (lt_ref t) (\<lambda>l. l\<lparr> bl_slot := False \<rparr>) (ls_service s),
                    ls_threads = xs @ t\<lparr> lt_phase := LockReleased \<rparr> # ys \<rparr>"
  by (rule lock_phase_inv [OF inv ts(1)]) (use holders_split [OF inv ts(1)] ts(2) in \<open>simp split: if_splits\<close>)

lemma updLock_same: "updLock r (\<lambda>l. l\<lparr> bl_slot := bl_slot (bs_mem s r) \<rparr>) s = s"
  by (simp add: updLock_def)

lemma lock_cancel_inv:
  assumes inv: "lock_inv s" and ts: "ls_threads s = xs @ t # ys" "lt_phase t = LockWaiting"
  shows "lock_inv \<lparr> ls_service = ls_service s, ls_threads = xs @ t\<lparr> lt_phase := LockCancelled \<rparr> # ys \<rparr>"
proof -
  have "holders_of (lt_ref t) (xs @ t\<lparr> lt_phase := LockCancelled \<rparr> # ys) =
      (if bl_slot (bs_mem (ls_service s) (lt_ref t)) then 1 else 0)"
    using holders_split [OF inv ts(1)] ts(2) by simp
  from lock_phase_inv [OF inv ts(1) this] show ?thesis
    by (simp only: updLock_same)
qed

lemma lock_drop_last:
  assumes inv: "lock_inv s" and ts: "ls_threads s = xs @ t # ys" "lt_phase t \<noteq> LockHolding"
    and last: "refs_of (lt_ref t) (xs @ ys) = 0"
  shows "lock_inv \<lparr> ls_service = (updLock (lt_ref t) (\<lambda>l. l\<lparr> bl_references := bl_references l - 1 \<rparr>) (ls_service s))
      \<lparr> bs_deviceLocks := (bs_deviceLocks (ls_service s))(lt_id t := None) \<rparr>, ls_threads = xs @ ys \<rparr>"
proof -
  have tl: "bs_deviceLocks (ls_service s) (lt_id t) = Some (lt_ref t)"
    using lock_inv_locks [OF inv] by (simp add: ts)
  have other: "r \<noteq> lt_ref t" if "bs_deviceLocks (ls_service s) i = Some r" "i \<noteq> lt_id t" for i r
    using that tl lock_inv_inj [OF inv] by blast
  show ?thesis
  proof (rule lock_invI, goal_cases)
    case (1 u)
    then have u: "bs_deviceLocks (ls_service s) (lt_id u) = Some (lt_ref u)" "lt_ref u \<noteq> lt_ref t"
      using lock_inv_locks [OF inv, of u] last refs_of_pos [of "lt_ref t" "xs @ ys"] by (auto simp: ts)
    then show ?case
      using tl by auto
  next
    case (2 i r)
    then have i: "bs_deviceLocks (ls_service s) i = Some r" "i \<noteq> lt_id t"
      by (auto split: if_splits)
    then show ?case
      using lock_inv_entry [OF inv i(1)] other [OF i] ts by (simp add: entry_ok_def updLock_def)
  next
    case (3 i j r)
    then show ?case
      using lock_inv_inj [OF inv, of i r j] by (auto split: if_splits)
  qed
qed

lemma lock_drop_shared:
  assumes inv: "lock_inv s" and ts: "ls_threads s = xs @ t # ys" "lt_phase t \<noteq> LockHolding"
    and more: "0 < refs_of (lt_ref t) (xs @ ys)"
  shows "lock_inv \<lparr> ls_service = updLock (lt_ref t) (\<lambda>l. l\<lparr> bl_references := bl_references l - 1 \<rparr>) (ls_service s),
    ls_threads = xs @ ys \<rparr>"
proof (rule lock_invI, goal_cases)
  case (1 u)
  then show ?case
    using lock_inv_locks [OF inv, of u] by (auto simp: ts updLock_def)
next
  case (2 i r)
  then have "entry_ok (ls_service s) (ls_threads s) r"
    using lock_inv_entry [OF inv, of i r] by (simp add: updLock_def)
  then show ?case
    using more ts by (cases "r = lt_ref t") (auto simp: entry_ok_def updLock_def)
next
  case (3 i j r)
  then show ?case
    using lock_inv_inj [OF inv, of i r j] by (simp add: updLock_def)
qed

lemma lock_drop_inv:
  assumes inv: "lock_inv s" and ts: "ls_threads s = xs @ t # ys" "lt_phase t \<noteq> LockHolding"
  shows "lock_inv \<lparr> ls_service = lockDrop (lt_id t) (lt_ref t) (ls_service s), ls_threads = xs @ ys \<rparr>"
proof -
  have "bl_references (bs_mem (ls_service s) (lt_ref t)) - 1 = int (refs_of (lt_ref t) (xs @ ys))"
    using thread_entry [OF inv, of t] ts by (simp add: entry_ok_def)
  then show ?thesis
    using lock_drop_last [OF inv ts] lock_drop_shared [OF inv ts]
    by (cases "refs_of (lt_ref t) (xs @ ys) = 0") (simp_all add: lockDrop_def updLock_def Let_def)
qed

lemma lock_step_inv: "lock_step s s' \<Longrightarrow> lock_inv s \<Longrightarrow> lock_inv s'"
  by (induction rule: lock_step.induct)
    (auto intro: lock_enter_inv lock_acquire_inv lock_release_inv lock_cancel_inv lock_drop_inv)

lemma lock_reachable_inv: "lock_reachable s \<Longrightarrow> lock_inv s"
  by (induction rule: lock_reachable.induct) (auto simp: lock_inv_start intro: lock_step_inv)

subsection \<open>Properties\<close>

text \<open>
  C26: Under every interleaving of callers, cancellations and releases, at most one caller holds
  the backup lock of a device, and the lock table has an entry for a device exactly while some
  call for that device is not finished.
\<close>

theorem backup_lock_exclusive:
  assumes "lock_reachable s"
  shows "length (filter (\<lambda>t. lt_id t = i \<and> lt_phase t = LockHolding) (ls_threads s)) \<le> 1 \<and>
    (bs_deviceLocks (ls_service s) i \<noteq> None \<longleftrightarrow> i \<in> lt_id ` set (ls_threads s))"
proof
  have inv: "lock_inv s"
    using assms by (rule lock_reachable_inv)
  show "length (filter (\<lambda>t. lt_id t = i \<and> lt_phase t = LockHolding) (ls_threads s)) \<le> 1"
  proof (cases "bs_deviceLocks (ls_service s) i")
    case None
    have "lt_id t \<noteq> i" if "t \<in> set (ls_threads s)" for t
      using None lock_inv_locks [OF inv that] by auto
    then show ?thesis
      by (simp add: filter_empty_conv [THEN iffD2])
  next
    case (Some r)
    have "lt_id t = i \<longleftrightarrow> lt_ref t = r" if "t \<in> set (ls_threads s)" for t
      using lock_inv_locks [OF inv that] lock_inv_inj [OF inv Some, of "lt_id t"] Some by auto
    then have "filter (\<lambda>t. lt_id t = i \<and> lt_phase t = LockHolding) (ls_threads s) =
        filter (\<lambda>t. lt_ref t = r \<and> lt_phase t = LockHolding) (ls_threads s)"
      by (intro filter_cong) simp_all
    then show ?thesis
      using lock_inv_entry [OF inv Some] by (simp add: entry_ok_def holders_of_def)
  qed
  show "bs_deviceLocks (ls_service s) i \<noteq> None \<longleftrightarrow> i \<in> lt_id ` set (ls_threads s)"
  proof
    assume "bs_deviceLocks (ls_service s) i \<noteq> None"
    then obtain r where r: "bs_deviceLocks (ls_service s) i = Some r"
      by blast
    then obtain t where t: "t \<in> set (ls_threads s)" "lt_ref t = r"
      using lock_inv_entry [OF inv r] refs_of_pos [of r "ls_threads s"] unfolding entry_ok_def by blast
    then have "i = lt_id t"
      using lock_inv_inj [OF inv r, of "lt_id t"] lock_inv_locks [OF inv t(1)] by simp
    then show "i \<in> lt_id ` set (ls_threads s)"
      using t(1) by blast
  next
    assume "i \<in> lt_id ` set (ls_threads s)"
    then obtain t where "t \<in> set (ls_threads s)" "i = lt_id t"
      by blast
    then show "bs_deviceLocks (ls_service s) i \<noteq> None"
      using lock_inv_locks [OF inv, of t] by simp
  qed
qed

text \<open>Two callers for device 7: the first holds the lock, the second waits.\<close>

definition demoLocks :: LockSystem where
  "demoLocks =
     \<lparr> ls_service = \<lparr> bs_deviceLocks = [7 \<mapsto> 0],
         bs_mem = (\<lambda>_. \<lparr> bl_slot = False, bl_references = 0 \<rparr>)(0 := \<lparr> bl_slot = True, bl_references = 2 \<rparr>),
         bs_fresh = 1 \<rparr>,
       ls_threads = [\<lparr> lt_id = 7, lt_ref = 0, lt_phase = LockHolding \<rparr>,
                     \<lparr> lt_id = 7, lt_ref = 0, lt_phase = LockWaiting \<rparr>] \<rparr>"

lemma demoLocks_reachable: "lock_reachable demoLocks"
proof -
  let ?s0 = "\<lparr> ls_service = newBackupService, ls_threads = [] \<rparr>"
  let ?t = "\<lambda>p. \<lparr> lt_id = 7, lt_ref = 0, lt_phase = p \<rparr>"
  let ?s1 = "\<lparr> ls_service = fst (lockEnter 7 newBackupService), ls_threads = [?t LockWaiting] \<rparr>"
  let ?s2 = "\<lparr> ls_service = updLock 0 (\<lambda>l. l\<lparr> bl_slot := True \<rparr>) (ls_service ?s1), ls_threads = [?t LockHolding] \<rparr>"
  have "lock_step ?s0 ?s1"
    using lock_enter [of 7 ?s0 "fst (lockEnter 7 newBackupService)" 0]
    by (simp add: lockEnter_def newBackupService_def)
  moreover have "lock_step ?s1 ?s2"
    using lock_acquire [of ?s1 "[]" "?t LockWaiting" "[]"] by (simp add: lockEnter_def newBackupService_def updLock_def)
  moreover have "lock_step ?s2 demoLocks"
    using lock_enter [of 7 ?s2 "ls_service demoLocks" 0]
    by (simp add: lockEnter_def newBackupService_def updLock_def demoLocks_def)
  ultimately show ?thesis
    using lock_start lock_next by blast
qed

theorem backup_lock_exclusive_witness:
  "length (filter (\<lambda>t. lt_id t = 7 \<and> lt_phase t = LockHolding) (ls_threads demoLocks)) \<le> 1 \<and>
   bs_deviceLocks (ls_service demoLocks) 7 \<noteq> None"
  using backup_lock_exclusive [OF demoLocks_reachable, of 7] by (simp add: demoLocks_def)

end
