(* ===== verification/Spec2Isabelle.thy ===== *)
theory Spec2Isabelle
  imports Scheduler_Correct Scheduler_Timing State_Correct Saved_Maps Settings_Cache Overview_Journal Counter_Rates Probe_Ports Rate_Limiter Work_Admission
begin

text \<open>
  Theia monitors network devices. A scheduler decides which device is polled when, workers run the
  polls, a store keeps what they found and announces changes, a broadcaster turns changes into
  numbered patches for the clients, and runtime settings steer all of it. This library models that
  core, from the Go sources under \<open>src/internal\<close>, and proves it correct.

  \<^bold>\<open>Go values.\<close> \<open>Prelude\<close>: 64-bit integers as \<open>int\<close> with the wrap-around written out where it can
  occur, \<open>time.Time\<close> and \<open>time.Duration\<close> as nanoseconds with saturating subtraction, strings as
  bytes, maps read with a zero default. \<open>Go_Map\<close>: maps whose entries are walked, as association
  lists with distinct keys. \<open>Go_Stdlib\<close>: \<open>strings\<close>, \<open>strconv\<close>, \<open>net\<close>, \<open>net/netip\<close>, \<open>hash/fnv\<close>
  as far as they are used. \<open>Go_Heap\<close>: \<open>container/heap\<close>, proved once in two locales, the interface
  the package calls and the container that stores positions; \<open>Task_Heap\<close> interprets them on the
  heap of the scheduler.

  \<^bold>\<open>Settings and policy.\<close> \<open>Device_Domain\<close> (\<open>domain/device.go\<close>, \<open>poll_class.go\<close>,
  \<open>device_normalization.go\<close>), \<open>Runtime_Settings\<close> (\<open>domain/settings.go\<close>,
  \<open>settings_constraints.go\<close>), \<open>Polling_Policy\<close> (\<open>polling\<close>, \<open>pollingbudget\<close>), \<open>Settings_Cache\<close>
  (\<open>settingscache/cache.go\<close>), \<open>Probe_Ports\<close> (\<open>domain/probe_ports.go\<close>). A setting that is accepted
  reads back as written; whatever is stored, the policy is in range and the budgets fit the
  channels; under every interleaving of writers, reloads and writes past it, the cache serves what the
  repository holds once the last write past it is a time to live ago; probe ports survive storage
  and are always usable.

  \<^bold>\<open>Scheduler.\<close> \<open>Scheduler_Types\<close>, \<open>Scheduler_Timing\<close>, \<open>Scheduler_Model\<close> and \<open>Scheduler_Ops\<close>
  follow \<open>scheduler/types.go\<close>, \<open>heap.go\<close>, \<open>jitter.go\<close> and \<open>scheduler.go\<close>. The record \<open>Scheduler\<close>
  has the fields of the struct; items live in a memory \<open>s_mem\<close> under references, as the code shares
  them between its map, heap and queues; the channels are lists with a capacity. Clock, inventory,
  settings, floating point and identifiers enter through the record \<open>SchedEnv\<close>.
  \<open>Scheduler_Inv\<close>, \<open>Scheduler_Moves\<close>, \<open>Scheduler_Dispatch\<close>, \<open>Scheduler_Handlers\<close> and
  \<open>Scheduler_Sync\<close> prove the invariant and what each handler does; \<open>Scheduler_System\<close> is the step
  relation of scheduler and workers; \<open>Scheduler_Correct\<close> has the properties: every item is in
  exactly one place, sending never blocks, a key has at most one run, the counters in total, per class
  and per device are exact, dispatch raises no counter above its limit (per site, as long as no
  device lists an area twice), leaves nothing admissible behind and serves essential work first, and
  the schedule follows the inventory. The counters per site, subnet and profile are not exact: one
  property shows how the count of a site leaks when a device leaves it in flight. In the step
  relation a dispatch cycle and a completion are atomic, as they hold the scheduler's lock, and the
  run loop takes its steps only while it is running. \<open>Saved_Maps\<close> (\<open>map_membership_source.go\<close>) composes it with the
  source that restricts polling to devices on saved maps.

  \<^bold>\<open>Device state store.\<close> \<open>State_Health\<close> and \<open>State_Store\<close> follow \<open>state/health.go\<close> and
  \<open>state/store.go\<close>: update rules per poll class, severities with hysteresis, change detection,
  staleness, snapshots and the bounded channel of changes. \<open>State_Observed\<close> and \<open>State_Change\<close>
  define the content of a state that change detection is about, which leaves out the instants of the
  last poll and collection, and show that it decides changes of it exactly. \<open>State_Feed\<close>
  interleaves writers, the steps of an announcement, and a receiver that takes batches off the
  channel and consumes the overflow mark; \<open>State_Correct\<close> shows that no change is forgotten before
  the receiver is told of it, that the feed comes to rest with everything told, that an announcement
  is exact and ends, and how reachability, health and staleness follow the polls. What the
  broadcaster does with the news is outside these statements.

  \<^bold>\<open>Around the core.\<close> \<open>Counter_Rates\<close> (\<open>collector/rates.go\<close>): reported rates are sound and
  bounded. \<open>Overview_Journal\<close> (\<open>worker/overview_journal.go\<close> with the numbering of
  \<open>pipeline_snapshot_broadcaster.go\<close> and the mode choice of \<open>pipeline.go\<close>): the journal is bounded
  and a replay equals the stream. \<open>Work_Admission\<close> (\<open>service/work_admission.go\<close>): device locks
  exclude each other and are dropped. \<open>Rate_Limiter\<close> (\<open>api/bridge_rate_limiter.go\<close>): a window
  admits exactly its limit.

  \<^bold>\<open>Loops and bounds.\<close> No definition uses fuel: loops that are not structural are proved to
  terminate. Dispatching ends because each round takes an item from a ready queue, draining because
  each round shortens the heap, an announcement because it drains at most the capacity of its channel.
  Invariants over interleavings hold for any number of steps, callers and devices.

  \<^bold>\<open>Parameters.\<close> Code outside \<open>src\<close> is an argument: the rounding of \<open>float64\<close> (the jitter bound
  assumes its documented relative error, which the round-to-even function \<open>round64\<close> of
  \<open>Scheduler_Timing\<close> is proved to have), parsing of floats,
  \<open>encoding/json\<close>, the sorting function, the text of identifiers, and the answers of repositories.

  \<^bold>\<open>Not modelled.\<close> HTTP handlers, SQL repositories, SNMP, SSH and Prometheus clients, file,
  deployment and backup services, the WebSocket connections, the commands and the frontend are
  input and output around the core or calls of external tools, whose meaning lies outside the
  sources. The device and link cache, the topology observations, the snapshot builder and the
  map service are not modelled; the modelled parts take their results as arguments. Of the
  scheduler the gauge exports and debug summaries are left out, since nothing reads them back, and
  the goroutine and timer plumbing of \<open>run\<close> appears as the steps of the system.
\<close>

section \<open>Settings and policy\<close>

lemmas string_eval =
  TrimSpace_def dropRunes.simps space_runes_def Atoi_def is_digit_def digit_val_def int64_range_def
  Itoa_def nat_str.simps digit_char_def numeral_eq_Suc

text \<open>
  C35: An integer setting that passes validation is stored in canonical form: validating the
  stored text again returns it unchanged, and reading it back yields exactly the validated
  number, inside its operational range, whatever the fallback.
\<close>

theorem setting_write_read_roundtrip:
  assumes "SettingConstraints key = Some c" and "sc_Type c = SettingValueTypeInteger"
    and "NormalizeConstrainedSetting pf key value = Inr stored"
  shows "NormalizeConstrainedSetting pf key stored = Inr stored \<and>
    (\<exists>n. Atoi (TrimSpace value) = Some n \<and> sc_MinInt c \<le> n \<and> n \<le> sc_MaxInt c \<and>
      stored = Itoa n \<and> CoerceConstrainedInt key stored fallback = n)"
  using normalized_int_roundtrip [OF assms] by auto

theorem setting_write_read_roundtrip_witness:
  "NormalizeConstrainedSetting (\<lambda>_. None) SettingSNMPRetries (Itoa 7) = Inr (Itoa 7) \<and>
   CoerceConstrainedInt SettingSNMPRetries (Itoa 7) 3 = 7"
proof -
  have a: "Atoi (TrimSpace '' 7 '') = Some 7" by (simp add: string_eval)
  then have "NormalizeConstrainedSetting (\<lambda>_. None) SettingSNMPRetries '' 7 '' = Inr (Itoa 7)"
    by (simp add: NormalizeConstrainedSetting_def limit_constraints intConstraint_def)
  then show ?thesis
    using setting_write_read_roundtrip [of SettingSNMPRetries "intConstraint 0 10" "\<lambda>_. None" "'' 7 ''" "Itoa 7" 3] a
    by (simp add: limit_constraints intConstraint_def)
qed

text \<open>
  C36: Whatever the settings store contains, the polling policy computed from it has every worker
  limit, the coalescing window, the safety margin, and of every lane the timeout and the retry count
  inside the range of its own setting; the bootstrap and quarantine lanes have their fixed values.
\<close>

theorem policy_always_in_range:
  "policy_in_range (fst (PolicyFromSettings F repo deviceCount observedP95 shortestInterval))"
  by (rule PolicyFromSettings_in_range)

text \<open>
  C34: The class budgets the scheduler works with fit the dispatch buffer: clamping the budgets
  resolved from any settings store to a positive limit hands out at least one and at most
  \<open>limit\<close> workers (exactly \<open>limit\<close> when the budgets exceed it), raises no class above its
  budget, and with a limit of at least three leaves no configured class without a worker.
\<close>

theorem clamped_budgets_fit:
  fixes limit :: int and repo :: settings_repo
  assumes "0 < limit"
  defines "b \<equiv> Resolve repo" and "c \<equiv> Clamp (Resolve repo) limit"
  shows "1 \<le> bsum c \<and> bsum c \<le> limit \<and> (limit < Budget_Sum b \<longrightarrow> bsum c = limit) \<and>
    (\<forall>v \<in> {VolatilityClassPerformance, VolatilityClassOperational, VolatilityClassStatic}.
       0 \<le> cget c v \<and> cget c v \<le> cget b v \<and> (3 \<le> limit \<longrightarrow> 0 < cget b v \<longrightarrow> 1 \<le> cget c v))"
proof (cases "limit < Budget_Sum b")
  case True
  have p: "0 < bsum b" using Resolve_bsum [of repo] by (simp add: b_def)
  have n: "0 \<le> cget b v" for v using Resolve_range(1) by (simp add: b_def)
  show ?thesis
    using Clamp_exceeded [OF assms(1) True n p] assms(1) True unfolding c_def b_def by auto
next
  case False
  then have c: "c = copyBudgets b" using Clamp_small [OF assms(1), of b] by (simp add: c_def b_def)
  have e: "bsum c = bsum b" "\<And>v. v \<noteq> VolatilityClassNone \<Longrightarrow> cget c v = cget b v"
    by (auto simp: c copyBudgets_cget)
  have "1 \<le> bsum b" using Resolve_bsum [of repo] by (simp add: b_def)
  moreover have "bsum b \<le> limit" using False calculation by (simp add: Budget_Sum_eq)
  moreover have "0 \<le> cget b v" for v using Resolve_range(1) by (simp add: b_def)
  ultimately show ?thesis using False e by auto
qed

theorem clamped_budgets_fit_witness:
  "bsum (Clamp (Resolve None) 3) = 3"
proof -
  have "Budget_Sum (Resolve None) = 5"
    by (simp add: Budget_Sum_eq Resolve_def legacyTotal_def defaultWorkerPoolSize_def defaultSplit_def Let_def
        cget_upd)
  then have "3 < Budget_Sum (Resolve None)" by simp
  then show ?thesis using clamped_budgets_fit [of 3 None, OF zero_less_numeral] by blast
qed

text \<open>
  C37: A recurring background task keeps its phase: the next due time lies strictly after the
  completion, on the grid of its previous due time, and no later than one interval after the
  completion unless it is the very next grid point.
\<close>

theorem background_phase_kept:
  fixes interval previousDue after :: int
  assumes "0 < interval" and "previousDue \<noteq> 0" and "\<bar>after - previousDue\<bar> + interval < 2 ^ 63"
  defines "nxt \<equiv> nextPhaseAfter previousDue interval after"
  shows "after < nxt \<and> (nxt - previousDue) mod interval = 0 \<and> previousDue + interval \<le> nxt \<and>
    (nxt = previousDue + interval \<or> nxt \<le> after + interval)"
  unfolding nxt_def using nextPhaseAfter_spec [OF assms(1-3)] by blast

theorem background_phase_kept_witness:
  "nextPhaseAfter 1000 60 1190 = 1240 \<and> (1240 - 1000) mod 60 = (0::int)"
  using background_phase_kept [of 60 1000 1190] 
  by (simp add: nextPhaseAfter_def go_simps tSub_def quot64_nonneg wrap64_id int64_range_def)

text \<open>
  C38: The jittered due time of essential work stays within 10.1 percent of the interval and
  strictly after the completion, for every random draw, whenever each operation rounds to within half
  a unit in the last place of \<open>float64\<close>, as the rounding to nearest even \<open>round64\<close> does.
\<close>

theorem jitter_bounded:
  assumes "rounds_well F" and "0 < interval" "interval \<le> 2 ^ 62" and "0 \<le> draw" "draw < 1"
  shows "1000 * \<bar>jitteredNext F lastFire interval (Some draw) - (lastFire + interval)\<bar> \<le> 101 * interval \<and>
    lastFire < jitteredNext F lastFire interval (Some draw)"
  using jitteredNext_bounds [OF assms] by blast

theorem jitter_bounded_witness:
  "5 < jitteredNext \<lparr>fl = round64, parseFloat = (\<lambda>_. None)\<rparr> 5 (30 * Second) (Some (1 / 4))"
  using jitter_bounded [OF round64_rounds_well, of "30 * Second" "1 / 4" "\<lambda>_. None" 5] by simp

end
